(* ===== verification/Prelude.thy ===== *)
theory Prelude
  imports Main "HOL-Library.Word"
begin

text \<open>
  Shared vocabulary of the development: the fixed-width integer types of the C code, big-endian
  byte layouts (what \<open>htonl\<close> and \<open>ntohl\<close> do to a word that is then seen as bytes), slot tables
  (the fixed arrays of sessions the daemon keeps), and the generic lemmas the components use.
\<close>

unbundle bit_operations_syntax

type_synonym u8 = "8 word"
type_synonym u16 = "16 word"
type_synonym u32 = "32 word"
type_synonym u64 = "64 word"

text \<open>
  Collections of rewrite rules: \<open>layout\<close> holds the lengths of the byte layouts, \<open>frame\<close> the facts
  that an operation leaves a field alone.
\<close>

named_theorems layout
named_theorems frame

section \<open>Big-endian layouts\<close>

definition be16 :: "u16 \<Rightarrow> u8 list" where
  "be16 w = [ucast (drop_bit 8 w), ucast w]"

definition be32 :: "u32 \<Rightarrow> u8 list" where
  "be32 w = [ucast (drop_bit 24 w), ucast (drop_bit 16 w), ucast (drop_bit 8 w), ucast w]"

fun from_be32 :: "u8 list \<Rightarrow> u32" where
  "from_be32 [a, b, c, d] =
     push_bit 24 (ucast a) OR push_bit 16 (ucast b) OR push_bit 8 (ucast c) OR ucast d"
| "from_be32 _ = 0"

lemma length_be16 [simp, layout]: "length (be16 w) = 2"
  by (simp add: be16_def)

lemma length_be32 [simp, layout]: "length (be32 w) = 4"
  by (simp add: be32_def)

lemma from_be32_be32 [simp]: "from_be32 (be32 w) = w"
proof (rule bit_word_eqI)
  fix n
  assume "n < LENGTH(32)"
  then consider "n < 8" | "8 \<le> n" "n < 16" | "16 \<le> n" "n < 24" | "24 \<le> n" "n < 32"
    by force
  then show "bit (from_be32 (be32 w)) n \<longleftrightarrow> bit w n"
    by cases (auto simp: be32_def bit_simps)
qed

lemma be32_inj: "be32 v = be32 w \<longleftrightarrow> v = w"
  by (metis from_be32_be32)

lemma concat_be32_length [simp, layout]: "length (concat (map be32 ws)) = 4 * length ws"
  by (induction ws) auto

text \<open>Cutting a byte string back into 32-bit words.\<close>

fun words_of :: "u8 list \<Rightarrow> u32 list" where
  "words_of (a # b # c # d # r) = from_be32 [a, b, c, d] # words_of r"
| "words_of _ = []"

lemma words_of_be32: "words_of (be32 w @ r) = w # words_of r"
proof -
  have "from_be32 [ucast (drop_bit 24 w), ucast (drop_bit 16 w), ucast (drop_bit 8 w), ucast w] = w"
    using from_be32_be32 [of w] by (simp only: be32_def)
  then show ?thesis by (simp add: be32_def del: from_be32.simps)
qed

lemma words_of_concat: "words_of (concat (map be32 ws) @ r) = ws @ words_of r"
  by (induction ws) (auto simp: words_of_be32)

section \<open>Slot tables\<close>

text \<open>The first index of a table whose entry satisfies a test, as the \<open>for\<close> loops with \<open>break\<close> find it.\<close>

fun find_slot :: "('a \<Rightarrow> bool) \<Rightarrow> 'a list \<Rightarrow> nat option" where
  "find_slot P [] = None"
| "find_slot P (x # xs) = (if P x then Some 0 else map_option Suc (find_slot P xs))"

lemma find_slot_Some:
  "find_slot P xs = Some i \<Longrightarrow> i < length xs \<and> P (xs ! i) \<and> (\<forall>j < i. \<not> P (xs ! j))"
proof (induction xs arbitrary: i)
  case (Cons x xs)
  then show ?case
    by (cases i) (auto split: if_splits simp: nth_Cons split: nat.splits)
qed simp

lemma find_slot_None: "find_slot P xs = None \<longleftrightarrow> (\<forall>x \<in> set xs. \<not> P x)"
  by (induction xs) auto

lemma nth_list_update_cases:
  "i < length xs \<Longrightarrow> (xs[i := v]) ! j = (if i = j then v else xs ! j)"
  by simp

lemma all_slots_update:
  assumes "\<And>j. j < length xs \<Longrightarrow> j \<noteq> i \<Longrightarrow> P j (xs ! j)" and "i < length xs \<Longrightarrow> P i v"
  shows "\<forall>j < length (xs[i := v]). P j ((xs[i := v]) ! j)"
proof (intro allI impI)
  fix j
  assume "j < length (xs[i := v])"
  with assms show "P j ((xs[i := v]) ! j)" by (cases "i = j") auto
qed

text \<open>Number of entries of a table that satisfy a test, and how one update moves it.\<close>

definition count_slots :: "('a \<Rightarrow> bool) \<Rightarrow> 'a list \<Rightarrow> nat" where
  "count_slots P xs = length (filter P xs)"

lemma count_slots_update:
  assumes "i < length xs"
  shows "count_slots P (xs[i := v]) + (if P (xs ! i) then 1 else 0)
       = count_slots P xs + (if P v then 1 else 0)"
  using assms
proof (induction xs arbitrary: i)
  case (Cons x xs)
  then show ?case
    by (cases i) (auto simp: count_slots_def)
qed simp

lemma count_slots_pos: "i < length xs \<Longrightarrow> P (xs ! i) \<Longrightarrow> 0 < count_slots P xs"
  by (auto simp: count_slots_def filter_empty_conv)

lemma count_slots_zero: "count_slots P xs = 0 \<longleftrightarrow> (\<forall>x \<in> set xs. \<not> P x)"
  by (auto simp: count_slots_def filter_empty_conv)

section \<open>Chunks of a list\<close>

fun chunks :: "nat \<Rightarrow> nat \<Rightarrow> 'a list \<Rightarrow> 'a list list" where
  "chunks k 0 xs = []"
| "chunks k (Suc n) xs = take k xs # chunks k n (drop k xs)"

lemma length_chunks [simp]: "length (chunks k n xs) = n"
  by (induction n arbitrary: xs) auto

lemma chunks_nth: "i < n \<Longrightarrow> chunks k n xs ! i = take k (drop (i * k) xs)"
  by (induction n arbitrary: xs i) (auto simp: nth_Cons add.commute split: nat.splits)

lemma concat_chunks: "concat (chunks k n xs) = take (n * k) xs"
  by (induction n arbitrary: xs) (auto simp: take_add)

lemma chunks_all_full: "n * k \<le> length xs \<Longrightarrow> c \<in> set (chunks k n xs) \<Longrightarrow> length c = k"
proof (induction n arbitrary: xs)
  case (Suc n)
  then have "n * k \<le> length (drop k xs)" by simp
  from Suc.IH [OF this] Suc.prems show ?case by auto
qed simp

text \<open>A concatenation of which one part is not empty.\<close>

lemma concat_single: "k < length xs \<Longrightarrow> (\<And>j. j < length xs \<Longrightarrow> j \<noteq> k \<Longrightarrow> f (xs ! j) = []) \<Longrightarrow> concat (map f xs) = f (xs ! k)"
proof (induction xs arbitrary: k)
  case (Cons x xs)
  show ?case
  proof (cases k)
    case 0
    have "f y = []" if "y \<in> set xs" for y using that Cons.prems(2) [of "Suc j" for j] 0 by (auto simp: in_set_conv_nth)
    then show ?thesis by (simp add: 0)
  next
    case (Suc k')
    have "f x = []" using Cons.prems(2) [of 0] Suc by simp
    moreover have "concat (map f xs) = f (xs ! k')"
      using Cons.prems Suc by (intro Cons.IH) (use Cons.prems(2) [of "Suc j" for j] in auto)
    ultimately show ?thesis by (simp add: Suc)
  qed
qed simp

end
