(* ===== verification/C_Lib.thy ===== *)
theory C_Lib
  imports Prelude
begin

text \<open>
  What the sources use of the C standard library on text: NUL-terminated strings, the number
  conversions of \<open>snprintf\<close> (\<open>%u\<close>, \<open>%d\<close>, \<open>%llu\<close>, \<open>%02x\<close>, \<open>%04x\<close>), \<open>strtoull\<close>, \<open>strtoul\<close>, \<open>strtol\<close> and
  \<open>inet_pton\<close>. Text is a \<open>string\<close>, one character per byte; \<open>unsigned long\<close> and \<open>long\<close> have 64 bits
  (the LP64 Linux targets of the daemon).
\<close>

section \<open>NUL-terminated strings\<close>

text \<open>The C string that starts a byte array: everything before the first NUL.\<close>

definition cstr :: "string \<Rightarrow> string" where
  "cstr s = takeWhile (\<lambda>c. c \<noteq> CHR 0x00) s"

text \<open>\<open>snprintf(buf, cap, ...)\<close>: the formatted text cut to what fits before the NUL.\<close>

definition snprintf :: "nat \<Rightarrow> string \<Rightarrow> string" where
  "snprintf cap s = take (cap - 1) s"

lemma length_snprintf: "0 < cap \<Longrightarrow> length (snprintf cap s) < cap"
  by (simp add: snprintf_def)

lemma snprintf_fits: "length s < cap \<Longrightarrow> snprintf cap s = s"
  by (simp add: snprintf_def)

lemma cstr_no_nul: "CHR 0x00 \<notin> set (cstr s)"
  by (auto simp: cstr_def dest: set_takeWhileD)

lemma cstr_id: "CHR 0x00 \<notin> set s \<Longrightarrow> cstr s = s"
  unfolding cstr_def by (subst takeWhile_eq_all_conv) auto

lemma length_cstr: "length (cstr s) \<le> length s"
  by (simp add: cstr_def length_takeWhile_le)

section \<open>Characters\<close>

definition isspace :: "char \<Rightarrow> bool" where
  "isspace c \<longleftrightarrow> c = CHR 0x20 \<or> (9 \<le> (of_char c :: nat) \<and> (of_char c :: nat) \<le> 13)"

definition isdigit :: "char \<Rightarrow> bool" where
  "isdigit c \<longleftrightarrow> 48 \<le> (of_char c :: nat) \<and> (of_char c :: nat) \<le> 57"

definition tolower :: "char \<Rightarrow> char" where
  "tolower c = (if 65 \<le> (of_char c :: nat) \<and> (of_char c :: nat) \<le> 90
     then char_of ((of_char c :: nat) + 32) else c)"

definition strcasecmp_eq :: "string \<Rightarrow> string \<Rightarrow> bool" where
  "strcasecmp_eq a b \<longleftrightarrow> map tolower a = map tolower b"

definition digit_val :: "char \<Rightarrow> nat" where
  "digit_val c = of_char c - 48"

definition digit_char :: "nat \<Rightarrow> char" where
  "digit_char n = char_of (48 + n)"

definition hex_char :: "nat \<Rightarrow> char" where
  "hex_char n = (if n < 10 then char_of (48 + n) else char_of (87 + n))"

lemma of_char_lt_256: "(of_char c :: nat) < 256"
proof -
  have "(of_char c :: nat) mod 256 = of_char c" by simp
  then show ?thesis using mod_less_divisor [of 256 "of_char c :: nat"] by linarith
qed

lemma unat_of_char: "unat (of_char c :: u8) = of_char c"
proof -
  have "(of_char c :: u8) = of_nat (of_char c)" by (rule of_nat_of_char [symmetric])
  then show ?thesis using of_char_lt_256 [of c] by (simp only: unat_of_nat) (simp add: take_bit_nat_eq_self)
qed

lemma isdigit_digit_char: "n < 10 \<Longrightarrow> isdigit (digit_char n)"
  by (simp add: isdigit_def digit_char_def)

lemma digit_val_digit_char: "n < 10 \<Longrightarrow> digit_val (digit_char n) = n"
  by (simp add: digit_val_def digit_char_def)

lemma isdigit_not_space: "isdigit c \<Longrightarrow> \<not> isspace c"
  by (auto simp: isdigit_def isspace_def)

section \<open>Printing numbers\<close>

fun show_nat :: "nat \<Rightarrow> string" where
  "show_nat n = (if n < 10 then [digit_char n] else show_nat (n div 10) @ [digit_char (n mod 10)])"

declare show_nat.simps [simp del]

text \<open>\<open>%u\<close> and \<open>%llu\<close> print an unsigned word, \<open>%d\<close> a signed integer.\<close>

definition fmt_u :: "'a::len word \<Rightarrow> string" where
  "fmt_u w = show_nat (unat w)"

definition fmt_d :: "int \<Rightarrow> string" where
  "fmt_d i = (if i < 0 then CHR ''-'' # show_nat (nat (- i)) else show_nat (nat i))"

text \<open>\<open>%02x\<close>-style printing: \<open>k\<close> lower-case hexadecimal digits of a number below \<open>16 ^ k\<close>.\<close>

fun show_hex :: "nat \<Rightarrow> nat \<Rightarrow> string" where
  "show_hex 0 n = []"
| "show_hex (Suc k) n = show_hex k (n div 16) @ [hex_char (n mod 16)]"

lemma length_show_hex [simp]: "length (show_hex k n) = k"
  by (induction k arbitrary: n) auto

lemma show_nat_isdigit: "\<forall>c \<in> set (show_nat n). isdigit c"
proof (induction n rule: show_nat.induct)
  case (1 n)
  then show ?case by (subst show_nat.simps) (auto simp: isdigit_digit_char)
qed

lemma show_nat_nonempty: "show_nat n \<noteq> []"
  by (subst show_nat.simps) simp

section \<open>Reading numbers\<close>

definition dec_value :: "string \<Rightarrow> nat" where
  "dec_value ds = foldl (\<lambda>a c. 10 * a + digit_val c) 0 ds"

lemma dec_value_snoc: "dec_value (ds @ [c]) = 10 * dec_value ds + digit_val c"
  by (simp add: dec_value_def)

lemma dec_value_show_nat [simp]: "dec_value (show_nat n) = n"
proof (induction n rule: show_nat.induct)
  case (1 n)
  show ?case
  proof (cases "n < 10")
    case True
    then show ?thesis by (subst show_nat.simps) (simp add: dec_value_def digit_val_digit_char)
  next
    case False
    then show ?thesis
      by (subst show_nat.simps) (simp add: 1 dec_value_snoc digit_val_digit_char)
  qed
qed

fun strip_sign :: "string \<Rightarrow> bool \<times> string" where
  "strip_sign (c # s) = (if c = CHR ''-'' then (True, s) else if c = CHR ''+'' then (False, s) else (False, c # s))"
| "strip_sign [] = (False, [])"

text \<open>
  \<open>strtoull(s, NULL, 10)\<close>: the value and whether \<open>errno\<close> became \<open>ERANGE\<close>. A leading minus negates the
  unsigned result; no digits give 0. On LP64 \<open>strtoul\<close> is the same function.
\<close>

definition strtoull :: "string \<Rightarrow> u64 \<times> bool" where
  "strtoull s =
     (let (neg, r) = strip_sign (dropWhile isspace s);
          v = dec_value (takeWhile isdigit r)
      in if 2 ^ 64 \<le> v then (- 1, True)
         else (if neg then - of_nat v else of_nat v, False))"

text \<open>\<open>strtol(s, NULL, 10)\<close>, saturating at \<open>LONG_MIN\<close> and \<open>LONG_MAX\<close>; a cast to \<open>int\<close> keeps the low 32 bits.\<close>

definition strtol :: "string \<Rightarrow> int" where
  "strtol s =
     (let (neg, r) = strip_sign (dropWhile isspace s);
          v = int (dec_value (takeWhile isdigit r))
      in if neg then (if 2 ^ 63 < v then - (2 ^ 63) else - v)
         else (if 2 ^ 63 \<le> v then 2 ^ 63 - 1 else v))"

definition to_int32 :: "int \<Rightarrow> int" where
  "to_int32 v = sint (of_int v :: 32 word)"

lemma dropWhile_isspace_show_nat: "dropWhile isspace (show_nat n) = show_nat n"
  using show_nat_isdigit [of n] show_nat_nonempty [of n]
  by (cases "show_nat n") (auto dest: isdigit_not_space)

lemma strip_sign_show_nat: "strip_sign (show_nat n) = (False, show_nat n)"
  using show_nat_isdigit [of n] show_nat_nonempty [of n]
  by (cases "show_nat n") (auto simp: isdigit_def)

lemma takeWhile_isdigit_show_nat: "takeWhile isdigit (show_nat n) = show_nat n"
  using show_nat_isdigit [of n] by (simp add: takeWhile_eq_all_conv)

lemmas parse_shown = dropWhile_isspace_show_nat strip_sign_show_nat takeWhile_isdigit_show_nat

lemma strtoull_fmt_u: "strtoull (fmt_u (w :: u64)) = (w, False)"
proof -
  have "unat w < 2 ^ 64" using unsigned_less [of w] by simp
  then show ?thesis by (simp add: strtoull_def fmt_u_def parse_shown)
qed

lemma strtoull_show_nat: "n < 2 ^ 64 \<Longrightarrow> strtoull (show_nat n) = (of_nat n, False)"
  by (simp add: strtoull_def parse_shown)

lemma strtol_fmt_d:
  assumes "- (2 ^ 63) \<le> i" and "i < 2 ^ 63"
  shows "strtol (fmt_d i) = i"
proof (cases "i < 0")
  case True
  with assms have "nat (- i) \<le> nat 9223372036854775808" by (intro nat_mono) simp
  then have "\<not> 9223372036854775808 < nat (- i)" by simp
  with True show ?thesis
    by (simp add: strtol_def fmt_d_def parse_shown isspace_def)
next
  case False
  with assms have "nat i < nat 9223372036854775808" by (intro nat_mono_iff [THEN iffD2]) simp_all
  then have "\<not> 9223372036854775808 \<le> nat i" by simp
  with False show ?thesis
    by (simp add: strtol_def fmt_d_def parse_shown)
qed

lemma to_int32_id: "- (2 ^ 31) \<le> i \<Longrightarrow> i < 2 ^ 31 \<Longrightarrow> to_int32 i = i"
  by (simp add: to_int32_def signed_of_int signed_take_bit_int_eq_self)

section \<open>IPv4 addresses\<close>

text \<open>
  \<open>inet_pton(AF_INET, s, ...)\<close>: exactly four decimal octets separated by dots, each at most 255 and
  without a leading zero; the result is the address as the number whose big-endian bytes go on the wire.
\<close>

fun split_dots :: "string \<Rightarrow> string list" where
  "split_dots [] = [[]]"
| "split_dots (c # s) =
     (if c = CHR ''.'' then [] # split_dots s
      else case split_dots s of [] \<Rightarrow> [[c]] | p # ps \<Rightarrow> (c # p) # ps)"

definition octet_ok :: "string \<Rightarrow> bool" where
  "octet_ok p \<longleftrightarrow> p \<noteq> [] \<and> length p \<le> 3 \<and> list_all isdigit p \<and> dec_value p \<le> 255
     \<and> (length p = 1 \<or> hd p \<noteq> CHR ''0'')"

definition inet_pton :: "string \<Rightarrow> u32 option" where
  "inet_pton s =
     (case split_dots s of
        [a, b, c, d] \<Rightarrow>
          if list_all octet_ok [a, b, c, d]
          then Some (from_be32 (map (\<lambda>p. of_nat (dec_value p)) [a, b, c, d])) else None
      | _ \<Rightarrow> None)"

definition inet_ntop :: "u32 \<Rightarrow> string" where
  "inet_ntop a =
     (case be32 a of
        [p, q, r, s] \<Rightarrow> fmt_u p @ ''.'' @ fmt_u q @ ''.'' @ fmt_u r @ ''.'' @ fmt_u s
      | _ \<Rightarrow> [])"

end
