(* ===== verification/C_Double.thy ===== *)
theory C_Double
  imports C_Lib Complex_Main
begin

text \<open>
  The C type \<open>double\<close> as IEEE 754 binary64: a finite value is a rational number, every operation
  rounds its exact result to the nearest representable value, ties to even, with gradual underflow
  and overflow to an infinity. The two zeros are one value: nothing in the sources prints or divides
  by a zero whose sign could matter. \<open>float\<close> is the same scheme with 24 bits. Also here: \<open>strtod\<close> and
  the conversions \<open>%.1f\<close> and \<open>%.2f\<close> of \<open>snprintf\<close>, which print the exact value of the double.
\<close>

section \<open>Rounding\<close>

text \<open>Nearest integer, ties to even.\<close>

definition rne :: "rat \<Rightarrow> int" where
  "rne x = (let f = \<lfloor>x\<rfloor>; d = x - of_int f in
     if d < 1 / 2 then f else if 1 / 2 < d then f + 1 else if even f then f else f + 1)"

lemma rne_dist: "\<bar>of_int (rne x) - x\<bar> \<le> 1 / 2"
proof -
  have f: "of_int \<lfloor>x\<rfloor> \<le> x" and g: "x < of_int \<lfloor>x\<rfloor> + 1" by linarith+
  define d where "d = x - of_int \<lfloor>x\<rfloor>"
  have r: "rne x = (if d < 1 / 2 then \<lfloor>x\<rfloor> else if 1 / 2 < d then \<lfloor>x\<rfloor> + 1
      else if even \<lfloor>x\<rfloor> then \<lfloor>x\<rfloor> else \<lfloor>x\<rfloor> + 1)"
    by (simp only: rne_def Let_def d_def)
  consider (down) "rne x = \<lfloor>x\<rfloor>" "d \<le> 1 / 2" | (up) "rne x = \<lfloor>x\<rfloor> + 1" "1 / 2 \<le> d"
    using r by (cases d "1 / 2 :: rat" rule: linorder_cases) (auto split: if_splits)
  then show ?thesis
  proof cases
    case down
    with f show ?thesis by (simp only: d_def abs_le_iff) linarith
  next
    case up
    with g show ?thesis by (simp only: d_def abs_le_iff of_int_add of_int_1) linarith
  qed
qed

lemma rne_of_int [simp]: "rne (of_int k) = k"
  by (simp add: rne_def)

lemma int_eq_near: "\<bar>of_int j - (x::rat)\<bar> \<le> 1 / 2 \<Longrightarrow> \<bar>of_int k - x\<bar> < 1 / 2 \<Longrightarrow> j = k"
proof -
  assume "\<bar>of_int j - x\<bar> \<le> 1 / 2" and "\<bar>of_int k - x\<bar> < 1 / 2"
  then have "\<bar>of_int j - of_int k\<bar> < (1::rat)" by linarith
  then have "\<bar>of_int (j - k)\<bar> < (1::rat)" by simp
  then show "j = k" by linarith
qed

lemma rne_eqI: "\<bar>of_int k - x\<bar> < 1 / 2 \<Longrightarrow> rne x = k"
  using rne_dist by (rule int_eq_near)

text \<open>Binary exponent: the number of halvings or doublings that bring a positive value into \<open>[1, 2)\<close>.\<close>

fun ilog2 :: "nat \<Rightarrow> nat" where
  "ilog2 n = (if n < 2 then 0 else Suc (ilog2 (n div 2)))"

declare ilog2.simps [simp del]

lemma ilog2_bounds: "0 < n \<Longrightarrow> 2 ^ ilog2 n \<le> n \<and> n < 2 ^ Suc (ilog2 n)"
proof (induction n rule: ilog2.induct)
  case (1 n)
  show ?case
  proof (cases "n < 2")
    case True
    with 1(2) show ?thesis by (subst (1 2) ilog2.simps) auto
  next
    case False
    then have "2 ^ ilog2 (n div 2) \<le> n div 2 \<and> n div 2 < 2 ^ Suc (ilog2 (n div 2))"
      using 1(1) by simp
    then have "2 * 2 ^ ilog2 (n div 2) \<le> n \<and> n < 2 * 2 ^ Suc (ilog2 (n div 2))" by auto
    with False show ?thesis by (subst (1 2) ilog2.simps) simp
  qed
qed

definition rat_exp :: "rat \<Rightarrow> int" where
  "rat_exp x =
     (let (p, q) = quotient_of \<bar>x\<bar>; e = int (ilog2 (nat p)) - int (ilog2 (nat q))
      in if 2 powi e \<le> \<bar>x\<bar> then e else e - 1)"

lemma powi_nat_diff: "(2::rat) powi (int a - int b) = 2 ^ a / 2 ^ b"
  by (simp add: power_int_diff)

lemma powi_succ: "(2::rat) powi (e + 1) = 2 * 2 powi e"
  by (simp add: power_int_add)

lemma powi_pred: "2 * (2::rat) powi (e - 1) = 2 powi e"
  using powi_succ [of "e - 1"] by simp

text \<open>The exponent is the right one: the value lies between two consecutive powers of two.\<close>

lemma rat_exp_bounds:
  assumes "x \<noteq> 0"
  shows "2 powi rat_exp x \<le> \<bar>x\<bar>" and "\<bar>x\<bar> < 2 powi (rat_exp x + 1)"
proof -
  obtain p q where pq: "quotient_of \<bar>x\<bar> = (p, q)" by (cases "quotient_of \<bar>x\<bar>")
  have q: "0 < q" using quotient_of_denom_pos [OF pq] .
  have x: "\<bar>x\<bar> = of_int p / of_int q" using quotient_of_div [OF pq] .
  have "0 < \<bar>x\<bar>" using assms by simp
  with q have p: "0 < p" by (simp add: x zero_less_divide_iff)
  define a where "a = ilog2 (nat p)"
  define b where "b = ilog2 (nat q)"
  define e where "e = int a - int b"
  have pb: "2 ^ a \<le> p" "p < 2 * 2 ^ a" and qb: "2 ^ b \<le> q" "q < 2 * 2 ^ b"
    using ilog2_bounds [of "nat p"] ilog2_bounds [of "nat q"] p q
    by (auto simp: a_def b_def nat_less_iff le_nat_iff)
  have up_r: "i < 2 * 2 ^ n \<Longrightarrow> of_int i < (2::rat) * 2 ^ n" for i :: int and n
    by (drule of_int_less_iff [where 'a = rat, THEN iffD2]) simp
  have lo_r: "2 ^ n \<le> i \<Longrightarrow> (2::rat) ^ n \<le> of_int i" for i :: int and n
    by (drule of_int_le_iff [where 'a = rat, THEN iffD2]) simp
  have pr: "(2::rat) ^ a \<le> of_int p" "of_int p < (2::rat) * 2 ^ a"
    and qr: "(2::rat) ^ b \<le> of_int q" "of_int q < (2::rat) * 2 ^ b"
    using pb qb by (simp_all add: up_r lo_r)
  have e2: "2 powi e = (2::rat) ^ a / 2 ^ b" by (simp add: e_def powi_nat_diff)
  have up: "\<bar>x\<bar> < 2 * 2 powi e"
  proof -
    have "of_int p / of_int q < (2 * 2 ^ a) / (2::rat) ^ b"
      using pr qr p by (intro frac_less) auto
    then show ?thesis by (simp add: x e2)
  qed
  have lo: "2 powi e < 2 * \<bar>x\<bar>"
  proof -
    have "(2::rat) ^ a / (2 * 2 ^ b) < of_int p / of_int q"
      using pr qr p q by (intro frac_less2) auto
    then show ?thesis by (simp add: x e2)
  qed
  have re: "rat_exp x = (if 2 powi e \<le> \<bar>x\<bar> then e else e - 1)"
    by (simp add: rat_exp_def pq a_def b_def e_def)
  show "2 powi rat_exp x \<le> \<bar>x\<bar>"
    using lo powi_pred [of e] by (auto simp: re)
  show "\<bar>x\<bar> < 2 powi (rat_exp x + 1)"
    using up powi_pred [of e] by (auto simp: re powi_succ)
qed

text \<open>
  Rounding to \<open>p\<close> significant bits with smallest quantum \<open>2 powi q\<close>: the exact value is rounded to a
  multiple of the quantum of its binade.
\<close>

definition round_to :: "nat \<Rightarrow> int \<Rightarrow> rat \<Rightarrow> rat" where
  "round_to p q x =
     (if x = 0 then 0
      else let u = 2 powi max q (rat_exp x + 1 - int p) in of_int (rne (x / u)) * u)"

lemma round_to_error:
  assumes "x \<noteq> 0" and "q \<le> rat_exp x + 1 - int p" and "0 < p"
  shows "\<bar>round_to p q x - x\<bar> \<le> \<bar>x\<bar> / 2 ^ p"
proof -
  define u :: rat where "u = 2 powi (rat_exp x + 1 - int p)"
  have u: "0 < u" by (simp add: u_def)
  have "2 powi (rat_exp x + 1 - int p) = 2 powi (rat_exp x + 1) / (2::rat) ^ p"
    by (simp add: power_int_diff)
  then have "u * 2 ^ p = 2 * 2 powi rat_exp x" by (simp add: u_def powi_succ)
  with rat_exp_bounds(1) [OF assms(1)] have ux: "u / 2 \<le> \<bar>x\<bar> / 2 ^ p"
    by (simp add: field_simps)
  have "\<bar>of_int (rne (x / u)) - x / u\<bar> \<le> 1 / 2" by (rule rne_dist)
  then have "\<bar>of_int (rne (x / u)) - x / u\<bar> * u \<le> 1 / 2 * u"
    using u by (intro mult_right_mono) auto
  then have "\<bar>(of_int (rne (x / u)) - x / u) * u\<bar> \<le> u / 2"
    using u by (simp add: abs_mult)
  then have "\<bar>of_int (rne (x / u)) * u - x\<bar> \<le> u / 2"
    using u by (simp add: left_diff_distrib)
  with ux have "\<bar>of_int (rne (x / u)) * u - x\<bar> \<le> \<bar>x\<bar> / 2 ^ p" by (rule order_trans [rotated])
  then show ?thesis using assms by (simp add: round_to_def u_def max_absorb2 Let_def)
qed

section \<open>Values and operations\<close>

datatype double = Fin rat | Inf bool | NaN

text \<open>The largest finite binary64 is below \<open>2 ^ 1024\<close>; a rounded result that reaches it overflows.\<close>

definition fl :: "rat \<Rightarrow> double" where
  "fl x = (let r = round_to 53 (- 1074) x in if 2 ^ 1024 \<le> \<bar>r\<bar> then Inf (r < 0) else Fin r)"

fun dneg :: "double \<Rightarrow> double" where
  "dneg (Fin x) = Fin (- x)"
| "dneg (Inf s) = Inf (\<not> s)"
| "dneg NaN = NaN"

fun dadd :: "double \<Rightarrow> double \<Rightarrow> double" where
  "dadd (Fin x) (Fin y) = fl (x + y)"
| "dadd (Inf s) (Inf t) = (if s = t then Inf s else NaN)"
| "dadd (Inf s) (Fin y) = Inf s"
| "dadd (Fin x) (Inf t) = Inf t"
| "dadd _ _ = NaN"

definition dsub :: "double \<Rightarrow> double \<Rightarrow> double" where
  "dsub x y = dadd x (dneg y)"

fun dmul :: "double \<Rightarrow> double \<Rightarrow> double" where
  "dmul (Fin x) (Fin y) = fl (x * y)"
| "dmul (Inf s) (Inf t) = Inf (s \<noteq> t)"
| "dmul (Inf s) (Fin y) = (if y = 0 then NaN else Inf (s \<noteq> (y < 0)))"
| "dmul (Fin x) (Inf t) = (if x = 0 then NaN else Inf (t \<noteq> (x < 0)))"
| "dmul _ _ = NaN"

text \<open>Division; the sources divide by non-zero constants and by positive counts only.\<close>

fun ddiv :: "double \<Rightarrow> double \<Rightarrow> double" where
  "ddiv (Fin x) (Fin y) = (if y = 0 then (if x = 0 then NaN else Inf (x < 0)) else fl (x / y))"
| "ddiv (Inf s) (Fin y) = Inf (s \<noteq> (y < 0))"
| "ddiv (Fin x) (Inf t) = Fin 0"
| "ddiv _ _ = NaN"

fun dless :: "double \<Rightarrow> double \<Rightarrow> bool" where
  "dless (Fin x) (Fin y) = (x < y)"
| "dless (Inf s) (Inf t) = (s \<and> \<not> t)"
| "dless (Inf s) (Fin y) = s"
| "dless (Fin x) (Inf t) = (\<not> t)"
| "dless _ _ = False"

fun dfabs :: "double \<Rightarrow> double" where
  "dfabs (Fin x) = Fin \<bar>x\<bar>"
| "dfabs (Inf s) = Inf False"
| "dfabs NaN = NaN"

text \<open>\<open>a == b\<close> on doubles: false as soon as one side is not a number.\<close>

definition deq :: "double \<Rightarrow> double \<Rightarrow> bool" where
  "deq x y \<longleftrightarrow> x = y \<and> x \<noteq> NaN"

text \<open>Conversion to an integer truncates towards zero; \<open>round\<close> rounds halves away from zero.\<close>

definition trunc :: "rat \<Rightarrow> int" where
  "trunc x = (if x < 0 then - \<lfloor>- x\<rfloor> else \<lfloor>x\<rfloor>)"

definition round_away :: "rat \<Rightarrow> int" where
  "round_away x = (if x < 0 then - \<lfloor>- x + 1 / 2\<rfloor> else \<lfloor>x + 1 / 2\<rfloor>)"

lemma round_away_dist: "\<bar>of_int (round_away x) - x\<bar> \<le> 1 / 2"
proof (cases "x < 0")
  case True
  define k where "k = \<lfloor>- x + 1 / 2\<rfloor>"
  have "of_int k \<le> - x + 1 / 2" and "- x + 1 / 2 < of_int k + 1"
    unfolding k_def by linarith+
  moreover have "round_away x = - k" using True by (simp only: round_away_def k_def if_True)
  ultimately show ?thesis by (simp only: abs_le_iff of_int_minus) linarith
next
  case False
  define k where "k = \<lfloor>x + 1 / 2\<rfloor>"
  have "of_int k \<le> x + 1 / 2" and "x + 1 / 2 < of_int k + 1"
    unfolding k_def by linarith+
  moreover have "round_away x = k" using False by (simp only: round_away_def k_def if_False)
  ultimately show ?thesis by (simp only: abs_le_iff) linarith
qed

lemma round_away_eqI: "\<bar>of_int k - x\<bar> < 1 / 2 \<Longrightarrow> round_away x = k"
  using round_away_dist by (rule int_eq_near)

definition of_int_d :: "int \<Rightarrow> double" where
  "of_int_d i = fl (of_int i)"


section \<open>Error bounds\<close>

lemma powi_less_imp: "(2::rat) powi a < 2 powi b \<Longrightarrow> a < b"
  by (rule ccontr) (use power_int_increasing [of b a "2::rat"] in auto)

lemma rat_exp_ge: "x \<noteq> 0 \<Longrightarrow> 2 powi k \<le> \<bar>x\<bar> \<Longrightarrow> k \<le> rat_exp x"
proof -
  assume "x \<noteq> 0" and "2 powi k \<le> \<bar>x\<bar>"
  then have "(2::rat) powi k < 2 powi (rat_exp x + 1)"
    using rat_exp_bounds(2) by (rule_tac order.strict_trans1)
  then have "k < rat_exp x + 1" by (rule powi_less_imp)
  then show ?thesis by simp
qed

lemma rat_exp_less: "x \<noteq> 0 \<Longrightarrow> \<bar>x\<bar> < 2 powi k \<Longrightarrow> rat_exp x < k"
proof -
  assume "x \<noteq> 0" and "\<bar>x\<bar> < 2 powi k"
  then have "(2::rat) powi rat_exp x < 2 powi k"
    using rat_exp_bounds(1) by (rule_tac order.strict_trans1)
  then show ?thesis by (rule powi_less_imp)
qed

text \<open>Inside the normal range an operation is exact up to one part in \<open>2 ^ 53\<close>.\<close>

lemma fl_near:
  assumes "x \<noteq> 0" and "1 / 2 ^ 1000 \<le> \<bar>x\<bar>" and "\<bar>x\<bar> \<le> 2 ^ 1000"
  obtains r where "fl x = Fin r" and "\<bar>r - x\<bar> \<le> \<bar>x\<bar> / 2 ^ 53"
proof -
  have "2 powi (- 1000) \<le> \<bar>x\<bar>" using assms(2) by (simp add: power_int_minus field_simps)
  then have e: "- 1000 \<le> rat_exp x" by (rule rat_exp_ge [OF assms(1)])
  define r where "r = round_to 53 (- 1074) x"
  have err: "\<bar>r - x\<bar> \<le> \<bar>x\<bar> / 2 ^ 53"
    unfolding r_def using e by (intro round_to_error assms(1)) auto
  then have "\<bar>r\<bar> \<le> 2 * \<bar>x\<bar>" by (simp add: field_simps abs_le_iff abs_if split: if_splits)
  also have "\<dots> \<le> 2 * 2 ^ 1000" using assms(3) by simp
  also have "\<dots> < (2::rat) ^ 1024" by simp
  finally have "fl x = Fin r" by (simp add: fl_def r_def Let_def)
  from this err show ?thesis by (rule that)
qed

lemma fl_of_int: "\<bar>i\<bar> < 2 ^ 53 \<Longrightarrow> fl (of_int i) = Fin (of_int i)"
proof (cases "i = 0")
  case False
  assume i: "\<bar>i\<bar> < 2 ^ 53"
  define e where "e = rat_exp (of_int i)"
  have i53: "\<bar>of_int i :: rat\<bar> < 2 ^ 53"
  proof -
    have "of_int \<bar>i\<bar> < (of_int (2 ^ 53) :: rat)" using i by (simp only: of_int_less_iff)
    then show ?thesis by simp
  qed
  then have "\<bar>of_int i :: rat\<bar> < 2 powi 53" by simp
  then have hi: "e < 53" unfolding e_def using False by (intro rat_exp_less) auto
  have "1 \<le> \<bar>i\<bar>" using False by simp
  then have "of_int 1 \<le> (of_int \<bar>i\<bar> :: rat)" by (simp only: of_int_le_iff)
  then have "2 powi 0 \<le> \<bar>of_int i :: rat\<bar>" by simp
  then have lo: "0 \<le> e" unfolding e_def using False by (intro rat_exp_ge) auto
  define k where "k = nat (52 - e)"
  have k: "max (- 1074) (e + 1 - int 53) = - int k" using hi lo by (simp add: k_def)
  have u: "(2::rat) powi (- int k) = 1 / 2 ^ k" by (simp add: power_int_minus inverse_eq_divide)
  have "of_int i / (1 / 2 ^ k) = (of_int (i * 2 ^ k) :: rat)" by simp
  then have "round_to 53 (- 1074) (of_int i) = of_int (i * 2 ^ k) * (1 / 2 ^ k)"
    using False by (simp only: round_to_def e_def [symmetric] k u Let_def rne_of_int of_int_eq_0_iff if_False)
  then have "round_to 53 (- 1074) (of_int i) = of_int i" by simp
  moreover have "\<bar>of_int i :: rat\<bar> < 2 ^ 1024"
    using i53 by (rule order.strict_trans) simp
  ultimately show ?thesis by (simp add: fl_def Let_def)
qed (simp add: fl_def round_to_def)

section \<open>Reading and printing doubles\<close>

definition isxdigit :: "char \<Rightarrow> bool" where
  "isxdigit c \<longleftrightarrow> isdigit c \<or> (97 \<le> (of_char (tolower c) :: nat) \<and> (of_char (tolower c) :: nat) \<le> 102)"

definition xdigit_val :: "char \<Rightarrow> nat" where
  "xdigit_val c = (if isdigit c then digit_val c else of_char (tolower c) - 87)"

definition base_value :: "nat \<Rightarrow> (char \<Rightarrow> nat) \<Rightarrow> string \<Rightarrow> nat" where
  "base_value b f ds = foldl (\<lambda>a c. b * a + f c) 0 ds"

text \<open>An optional exponent: the letter, an optional sign and at least one digit, else nothing.\<close>

definition read_exponent :: "char \<Rightarrow> string \<Rightarrow> int" where
  "read_exponent letter s =
     (case s of
        [] \<Rightarrow> 0
      | c # r \<Rightarrow>
          if tolower c = letter then
            (let (neg, t) = strip_sign r; ds = takeWhile isdigit t
             in if ds = [] then 0 else if neg then - int (dec_value ds) else int (dec_value ds))
          else 0)"

text \<open>
  Digits with an optional point in base \<open>b\<close>, then an exponent in base \<open>eb\<close>: the exact value, or nothing when
  there is no digit at all.
\<close>

definition read_number :: "nat \<Rightarrow> (char \<Rightarrow> bool) \<Rightarrow> (char \<Rightarrow> nat) \<Rightarrow> char \<Rightarrow> nat \<Rightarrow> string \<Rightarrow> rat option" where
  "read_number b isd val letter eb s =
     (let ip = takeWhile isd s; r = dropWhile isd s;
          (fp, r') = (case r of c # t \<Rightarrow> if c = CHR ''.'' then (takeWhile isd t, dropWhile isd t) else ([], r)
                     | [] \<Rightarrow> ([], r))
      in if ip = [] \<and> fp = [] then None
         else Some (of_nat (base_value b val (ip @ fp)) / of_nat b ^ length fp
                    * of_nat eb powi read_exponent letter r'))"

text \<open>
  \<open>strtod(s, NULL)\<close> in the C locale: white space, a sign, then \<open>inf\<close>, \<open>nan\<close>, a hexadecimal or a decimal
  number, correctly rounded; anything else reads as zero.
\<close>

definition strtod :: "string \<Rightarrow> double" where
  "strtod s =
     (let (neg, r) = strip_sign (dropWhile isspace s);
          low = map tolower r;
          v = (if take 3 low = ''inf'' then Inf False
               else if take 3 low = ''nan'' then NaN
               else case (if take 2 low = ''0x'' then read_number 16 isxdigit xdigit_val (CHR ''p'') 2 (drop 2 r) else None) of
                      Some x \<Rightarrow> fl x
                    | None \<Rightarrow> (case read_number 10 isdigit digit_val (CHR ''e'') 10 r of
                                Some x \<Rightarrow> fl x | None \<Rightarrow> Fin 0))
      in if neg then dneg v else v)"

text \<open>\<open>%.df\<close>: the exact value rounded to \<open>d\<close> decimals, ties to even, sign kept.\<close>

fun pad_zero :: "nat \<Rightarrow> string \<Rightarrow> string" where
  "pad_zero k s = replicate (k - length s) (CHR ''0'') @ s"

definition fmt_f :: "nat \<Rightarrow> double \<Rightarrow> string" where
  "fmt_f d x =
     (case x of
        Fin q \<Rightarrow>
          (let n = nat (rne (\<bar>q\<bar> * 10 ^ d))
           in (if q < 0 then ''-'' else []) @ show_nat (n div 10 ^ d)
              @ (if d = 0 then [] else ''.'' @ pad_zero d (show_nat (n mod 10 ^ d))))
      | Inf s \<Rightarrow> (if s then ''-inf'' else ''inf'')
      | NaN \<Rightarrow> ''nan'')"

section \<open>Rounding in every range\<close>

text \<open>Without a lower bound the error is also at most the smallest quantum.\<close>

lemma round_to_close: "0 < p \<Longrightarrow> \<bar>round_to p q x - x\<bar> \<le> \<bar>x\<bar> / 2 ^ p + 2 powi q"
proof (cases "x = 0 \<or> q \<le> rat_exp x + 1 - int p")
  case True
  assume "0 < p"
  with True have "\<bar>round_to p q x - x\<bar> \<le> \<bar>x\<bar> / 2 ^ p"
    using round_to_error [of x q p] by (cases "x = 0") (auto simp: round_to_def)
  moreover have "(0 :: rat) \<le> 2 powi q" by simp
  ultimately show ?thesis by linarith
next
  case False
  define u :: rat where "u = 2 powi q"
  have u: "0 < u" by (simp add: u_def)
  have r: "round_to p q x = of_int (rne (x / u)) * u" using False by (simp add: round_to_def u_def Let_def max_absorb1)
  have "\<bar>of_int (rne (x / u)) - x / u\<bar> * u \<le> 1 / 2 * u" using u rne_dist [of "x / u"] by (intro mult_right_mono) auto
  then have "\<bar>(of_int (rne (x / u)) - x / u) * u\<bar> \<le> u / 2" using u by (simp add: abs_mult)
  then have "\<bar>round_to p q x - x\<bar> \<le> u / 2" using u by (simp add: r left_diff_distrib)
  moreover have "0 \<le> \<bar>x\<bar> / 2 ^ p" by simp
  ultimately show ?thesis using u unfolding u_def [symmetric] by linarith
qed

lemma fl_close: "fl x = Fin r \<Longrightarrow> \<bar>r - x\<bar> \<le> \<bar>x\<bar> / 2 + 1 / 2"
proof -
  assume "fl x = Fin r"
  then have "r = round_to 53 (- 1074) x" by (simp add: fl_def Let_def split: if_splits)
  then have "\<bar>r - x\<bar> \<le> \<bar>x\<bar> / 2 ^ 53 + 2 powi (- 1074)" using round_to_close [of 53 "- 1074" x] by simp
  moreover have "\<bar>x\<bar> / 2 ^ 53 \<le> \<bar>x\<bar> / 2" by (rule divide_left_mono) auto
  moreover have "(2 :: rat) powi (- 1074) \<le> 1 / 2" by (simp add: power_int_minus)
  ultimately show ?thesis by linarith
qed

lemma fl_small: "\<bar>x\<bar> \<le> 2 ^ 40 \<Longrightarrow> \<exists>r. fl x = Fin r \<and> \<bar>r\<bar> \<le> 2 ^ 41"
proof -
  assume x: "\<bar>x\<bar> \<le> 2 ^ 40"
  define r where "r = round_to 53 (- 1074) x"
  have "\<bar>r - x\<bar> \<le> \<bar>x\<bar> / 2 ^ 53 + 2 powi (- 1074)" using round_to_close [of 53 "- 1074" x] by (simp add: r_def)
  moreover have "\<bar>x\<bar> / 2 ^ 53 \<le> \<bar>x\<bar> / 2" by (rule divide_left_mono) auto
  moreover have "(2 :: rat) powi (- 1074) \<le> 1 / 2" by (simp add: power_int_minus)
  ultimately have "\<bar>r - x\<bar> \<le> \<bar>x\<bar> / 2 + 1 / 2" by linarith
  moreover have "\<bar>x\<bar> \<le> 1099511627776" using x by simp
  ultimately have "\<bar>r\<bar> \<le> 2199023255552" by linarith
  then have r: "\<bar>r\<bar> \<le> 2 ^ 41" by simp
  moreover have "(2 :: rat) ^ 41 < 2 ^ 1024" by (rule power_strict_increasing) simp_all
  ultimately have "fl x = Fin r" unfolding fl_def r_def [symmetric] Let_def by simp
  with r show ?thesis by blast
qed

section \<open>Rounding is symmetric\<close>

lemma rne_minus: "rne (- x) = - rne x"
proof (cases "x = of_int \<lfloor>x\<rfloor>")
  case True
  then obtain k where "x = of_int k" by blast
  then show ?thesis using rne_of_int [of "- k"] by simp
next
  case False
  define f where "f = \<lfloor>x\<rfloor>"
  have f: "of_int f < x" "x < of_int f + 1" using False of_int_floor_le [of x] unfolding f_def by linarith+
  then have "\<lfloor>- x\<rfloor> = - f - 1" by (simp add: floor_eq_iff)
  moreover have "\<lfloor>x\<rfloor> = f" by (simp add: f_def)
  ultimately show ?thesis by (auto simp: rne_def Let_def)
qed

lemma round_to_minus: "round_to p q (- x) = - round_to p q x"
proof -
  have "rat_exp (- x) = rat_exp x" by (simp add: rat_exp_def)
  then show ?thesis by (simp add: round_to_def rne_minus Let_def)
qed

lemma fl_minus: "fl (- x) = dneg (fl x)"
proof -
  define r where "r = round_to 53 (- 1074) x"
  have "(0 :: rat) < 2 ^ 1024" by (rule zero_less_power) simp
  then have "(- r < 0) = (\<not> r < 0)" if "2 ^ 1024 \<le> \<bar>r\<bar>" using that by linarith
  then show ?thesis unfolding fl_def Let_def round_to_minus abs_minus_cancel r_def [symmetric] by (simp only: dneg.simps split: if_split) blast
qed

end
