(* ===== verification/Config.thy ===== *)
theory Config
  imports C_Double
begin

text \<open>
  The compile-time configuration of \<open>config.h\<close>: protocol identity, ports and limits, the sampling modes
  with their frequency ranges and sample-rate lists, and the constants of the VITA-49 packets and of the
  ADC monitor.
\<close>

section \<open>Identity and limits\<close>

definition CP_PORT_DEFAULT :: u16 where "CP_PORT_DEFAULT = 4620"

definition VITA_SRC_PORT_DEFAULT :: u16 where "VITA_SRC_PORT_DEFAULT = 4621"

definition MAX_SESSIONS :: nat where "MAX_SESSIONS = 4"

definition MAX_MSG_BYTES :: nat where "MAX_MSG_BYTES = 65536"

definition MAX_JSON_TOKENS :: nat where "MAX_JSON_TOKENS = 256"

definition PROTO_NAME :: string where "PROTO_NAME = ''SDR-SLC Control Plane''"

definition PROTO_VERSION :: string where "PROTO_VERSION = ''1.0''"

definition MANUFACTURER :: string where "MANUFACTURER = ''IXChange BV''"

definition HW_REVISION :: string where "HW_REVISION = ''RTL-SDR-v4''"

definition SLC_DAEMON_NAME :: string where "SLC_DAEMON_NAME = ''sdr-slc-rtld''"

definition SLC_DAEMON_VERSION :: string where "SLC_DAEMON_VERSION = ''1.0''"

definition SLC_FW_STRING :: string where "SLC_FW_STRING = SLC_DAEMON_NAME @ ''/'' @ SLC_DAEMON_VERSION"

definition SLC_CP_RELEASE :: string where "SLC_CP_RELEASE = ''1.3''"

definition SLC_VITA_RELEASE :: string where "SLC_VITA_RELEASE = ''1.2''"

definition MODEL_NAME :: string where "MODEL_NAME = ''RTL-SDR SDR-SLC Bridge''"

definition CAP_SCHEMA_VERSION :: int where "CAP_SCHEMA_VERSION = 2"

definition RX_TIER :: int where "RX_TIER = 2"

section \<open>Sampling modes\<close>

datatype sampling_mode_t = SAMPLING_NORMAL | SAMPLING_DIRECT_I | SAMPLING_DIRECT_Q

definition RTL_DEFAULT_FREQ :: u32 where "RTL_DEFAULT_FREQ = 7000000"

definition RTL_DEFAULT_GAIN :: int where "RTL_DEFAULT_GAIN = 200"

definition RTL_DEFAULT_RATE_NORMAL :: u32 where "RTL_DEFAULT_RATE_NORMAL = 2048000"

definition RTL_DEFAULT_RATE_DIRECT :: u32 where "RTL_DEFAULT_RATE_DIRECT = 1024000"

definition RTL_SAMPLE_RATES_NORMAL :: "u32 list" where
  "RTL_SAMPLE_RATES_NORMAL = [250000, 1024000, 1536000, 1800000, 2048000, 2400000]"

definition RTL_SAMPLE_RATES_DIRECT :: "u32 list" where
  "RTL_SAMPLE_RATES_DIRECT = [250000, 512000, 1024000, 2048000]"

definition RTL_FREQ_MIN_NORMAL :: u64 where "RTL_FREQ_MIN_NORMAL = 500000"

definition RTL_FREQ_MAX_NORMAL :: u64 where "RTL_FREQ_MAX_NORMAL = 1766000000"

definition RTL_FREQ_MIN_DIRECT :: u64 where "RTL_FREQ_MIN_DIRECT = 100000"

definition RTL_FREQ_MAX_DIRECT :: u64 where "RTL_FREQ_MAX_DIRECT = 30000000"

section \<open>VITA-49 stream\<close>

definition VITA_SAMPLES_PER_PKT :: nat where "VITA_SAMPLES_PER_PKT = 256"

definition RTL_ASYNC_BUF_LEN :: nat where "RTL_ASYNC_BUF_LEN = 16384"

definition VITA_CIF0_CHANGED :: u32 where "VITA_CIF0_CHANGED = 0x80000000"

definition VITA_CIF0_REF_LEVEL :: u32 where "VITA_CIF0_REF_LEVEL = 0x01000000"

definition VITA_CIF0_PAYLOAD_FORMAT :: u32 where "VITA_CIF0_PAYLOAD_FORMAT = 0x00008000"

definition VITA_CIF0_BASE :: u32 where
  "VITA_CIF0_BASE = (VITA_CIF0_REF_LEVEL OR VITA_CIF0_PAYLOAD_FORMAT)"

definition VITA_PAYLOAD_FMT_COMPLEX :: u32 where "VITA_PAYLOAD_FMT_COMPLEX = 0x300001C7"

definition VITA_PAYLOAD_FMT_REAL :: u32 where "VITA_PAYLOAD_FMT_REAL = 0x100001C7"

definition VITA_CTX_PKT_SIZE_WORDS :: u32 where "VITA_CTX_PKT_SIZE_WORDS = 6"

section \<open>Calibration and ADC monitor\<close>

definition RTL_REF_LEVEL_DBM_AT_0DB :: double where "RTL_REF_LEVEL_DBM_AT_0DB = Fin (- 10)"

definition RTL_REF_LEVEL_ACCURACY_DB :: double where "RTL_REF_LEVEL_ACCURACY_DB = Fin 8"

definition RTL_U8_ZERO_POINT_DEFAULT :: double where "RTL_U8_ZERO_POINT_DEFAULT = fl (1274 / 10)"

definition RTL_BIAS_TEE_VOLTS :: double where "RTL_BIAS_TEE_VOLTS = Fin 5"

definition RTL_ADC_FULL_SCALE :: double where "RTL_ADC_FULL_SCALE = Fin (255 / 2)"

definition RTL_ADC_STRIDE :: nat where "RTL_ADC_STRIDE = 8"

definition RTL_ADC_CLIP_LOW :: int where "RTL_ADC_CLIP_LOW = 1"

definition RTL_ADC_CLIP_HIGH :: int where "RTL_ADC_CLIP_HIGH = 254"

definition RTL_ADC_CLIP_PPM_TRIGGER :: u32 where "RTL_ADC_CLIP_PPM_TRIGGER = 100"

definition ADC_OVERLOAD_MIN_GAP_MS :: u64 where "ADC_OVERLOAD_MIN_GAP_MS = 1000"

definition RING_SLOTS :: u32 where "RING_SLOTS = 2048"

definition RING_MASK :: u32 where "RING_MASK = RING_SLOTS - 1"

text \<open>The sizing constraint stated in \<open>config.h\<close>: a USB buffer is a whole number of packets and of USB blocks.\<close>

lemma async_buffer_is_whole_packets:
  "RTL_ASYNC_BUF_LEN mod (2 * VITA_SAMPLES_PER_PKT) = 0 \<and> RTL_ASYNC_BUF_LEN mod 512 = 0"
  by (simp add: RTL_ASYNC_BUF_LEN_def VITA_SAMPLES_PER_PKT_def)

end
