(* ===== verification/Json_Builder.thy ===== *)
theory Json_Builder
  imports Config
begin

text \<open>
  The JSON writer of \<open>json/json_builder.c\<close>: a cursor into a caller's buffer with a sticky overflow flag and
  one bit per nesting level that says whether the next element needs a comma. It is proved to write the
  rendering of a value exactly when it fits, and otherwise to stop at a prefix with the flag set.
\<close>

section \<open>State and primitive writes\<close>

text \<open>
  \<open>JB\<close>. The buffer is the text before its NUL, so \<open>pos\<close> is its length; shifts by the depth act on the
  sixteen bits of \<open>need_comma\<close>, which is what the C expressions keep of \<open>1u << depth\<close> up to depth 31.
\<close>

record JB =
  jb_buf :: string
  jb_cap :: nat
  jb_overflow :: bool
  jb_need_comma :: u16
  jb_depth :: int

definition jb_init :: "nat \<Rightarrow> JB" where
  "jb_init cap = \<lparr>jb_buf = [], jb_cap = cap, jb_overflow = False, jb_need_comma = 0, jb_depth = 0\<rparr>"

definition jb_puts :: "string \<Rightarrow> JB \<Rightarrow> JB" where
  "jb_puts s jb =
     (if jb_overflow jb then jb
      else if jb_cap jb \<le> length (jb_buf jb) + length s then jb\<lparr>jb_overflow := True\<rparr>
      else jb\<lparr>jb_buf := jb_buf jb @ s\<rparr>)"

definition jb_putc :: "char \<Rightarrow> JB \<Rightarrow> JB" where
  "jb_putc c jb =
     (if jb_overflow jb then jb
      else if jb_cap jb \<le> length (jb_buf jb) + 1 then jb\<lparr>jb_overflow := True\<rparr>
      else jb\<lparr>jb_buf := jb_buf jb @ [c]\<rparr>)"

definition jb_clear :: "JB \<Rightarrow> JB" where
  "jb_clear jb = jb\<lparr>jb_need_comma := unset_bit (nat (jb_depth jb)) (jb_need_comma jb)\<rparr>"

definition jb_sep :: "JB \<Rightarrow> JB" where
  "jb_sep jb =
     (let jb1 = (if 0 < jb_depth jb \<and> bit (jb_need_comma jb) (nat (jb_depth jb)) then jb_putc (CHR '','') jb else jb)
      in if 0 \<le> jb_depth jb1
         then jb1\<lparr>jb_need_comma := set_bit (nat (jb_depth jb1)) (jb_need_comma jb1)\<rparr> else jb1)"

section \<open>Structure and values\<close>

definition jb_open :: "char \<Rightarrow> JB \<Rightarrow> JB" where
  "jb_open c jb = (let jb = jb_putc c (jb_sep jb) in jb_clear (jb\<lparr>jb_depth := jb_depth jb + 1\<rparr>))"

definition jb_close :: "char \<Rightarrow> JB \<Rightarrow> JB" where
  "jb_close c jb = (let jb = jb_clear jb in jb_putc c (jb\<lparr>jb_depth := jb_depth jb - 1\<rparr>))"

definition jb_obj_begin :: "JB \<Rightarrow> JB" where "jb_obj_begin = jb_open (CHR ''{'')"
definition jb_obj_end :: "JB \<Rightarrow> JB" where "jb_obj_end = jb_close (CHR ''}'')"
definition jb_arr_begin :: "JB \<Rightarrow> JB" where "jb_arr_begin = jb_open (CHR ''['')"
definition jb_arr_end :: "JB \<Rightarrow> JB" where "jb_arr_end = jb_close (CHR '']'')"

text \<open>What \<open>jb_str\<close> writes for one character; the plain case goes through \<open>jb_putc\<close>, the others \<open>jb_puts\<close>.\<close>

definition dquote :: char where "dquote = CHR 0x22"
definition backslash :: char where "backslash = CHR 0x5C"

definition jb_esc :: "char \<Rightarrow> string" where
  "jb_esc c =
     (if c = dquote then [backslash, dquote]
      else if c = backslash then [backslash, backslash]
      else if c = CHR 0x0A then [backslash, CHR ''n'']
      else if c = CHR 0x0D then [backslash, CHR ''r'']
      else if c = CHR 0x09 then [backslash, CHR ''t'']
      else if (of_char c :: nat) < 32 then [backslash, CHR ''u''] @ show_hex 4 (of_char c)
      else [c])"

definition jb_emit_char :: "char \<Rightarrow> JB \<Rightarrow> JB" where
  "jb_emit_char c jb = (case jb_esc c of [x] \<Rightarrow> jb_putc x jb | s \<Rightarrow> jb_puts s jb)"

definition jb_str :: "string \<Rightarrow> JB \<Rightarrow> JB" where
  "jb_str s jb = jb_putc dquote (fold jb_emit_char (cstr s) (jb_putc dquote (jb_sep jb)))"

text \<open>\<open>jb_str\<close> given a null pointer: an empty string.\<close>

definition jb_str_null :: "JB \<Rightarrow> JB" where
  "jb_str_null jb = jb_puts [dquote] (jb_putc dquote (jb_sep jb))"

definition jb_strn :: "string \<Rightarrow> nat \<Rightarrow> JB \<Rightarrow> JB" where
  "jb_strn s n jb = jb_str (take (min n 255) s) jb"

definition jb_u32 :: "u32 \<Rightarrow> JB \<Rightarrow> JB" where "jb_u32 v jb = jb_puts (fmt_u v) (jb_sep jb)"
definition jb_u64 :: "u64 \<Rightarrow> JB \<Rightarrow> JB" where "jb_u64 v jb = jb_puts (fmt_u v) (jb_sep jb)"
definition jb_i32 :: "32 word \<Rightarrow> JB \<Rightarrow> JB" where "jb_i32 v jb = jb_puts (fmt_d (sint v)) (jb_sep jb)"

text \<open>\<open>jb_f32\<close> copies as many bytes as \<open>snprintf\<close> reports; beyond its 32-byte scratch buffer that is a read past the end.\<close>

definition jb_f32 :: "double \<Rightarrow> nat \<Rightarrow> JB \<Rightarrow> JB option" where
  "jb_f32 v decimals jb =
     (let s = fmt_f decimals v in if 32 \<le> length s then None else Some (jb_puts s (jb_sep jb)))"

definition jb_bool :: "bool \<Rightarrow> JB \<Rightarrow> JB" where
  "jb_bool v jb = (let jb = jb_sep jb in if v then jb_puts ''true'' jb else jb_puts ''false'' jb)"

definition jb_null :: "JB \<Rightarrow> JB" where "jb_null jb = jb_puts ''null'' (jb_sep jb)"
definition jb_raw :: "string \<Rightarrow> JB \<Rightarrow> JB" where "jb_raw s jb = jb_puts s (jb_sep jb)"

definition jb_key :: "string \<Rightarrow> JB \<Rightarrow> JB" where
  "jb_key k jb = jb_clear (jb_putc (CHR '':'') (jb_str k jb))"

definition jb_kstr :: "string \<Rightarrow> string \<Rightarrow> JB \<Rightarrow> JB" where "jb_kstr k v jb = jb_str v (jb_key k jb)"
definition jb_ku64 :: "string \<Rightarrow> u64 \<Rightarrow> JB \<Rightarrow> JB" where "jb_ku64 k v jb = jb_u64 v (jb_key k jb)"
definition jb_ki32 :: "string \<Rightarrow> 32 word \<Rightarrow> JB \<Rightarrow> JB" where "jb_ki32 k v jb = jb_i32 v (jb_key k jb)"
definition jb_kf32 :: "string \<Rightarrow> double \<Rightarrow> nat \<Rightarrow> JB \<Rightarrow> JB option" where
  "jb_kf32 k v d jb = jb_f32 v d (jb_key k jb)"
definition jb_kbool :: "string \<Rightarrow> bool \<Rightarrow> JB \<Rightarrow> JB" where "jb_kbool k v jb = jb_bool v (jb_key k jb)"
definition jb_knull :: "string \<Rightarrow> JB \<Rightarrow> JB" where "jb_knull k jb = jb_null (jb_key k jb)"

section \<open>The contract: what is written\<close>

text \<open>JSON values, their text, and the calls a client of the writer makes for one.\<close>

datatype jvalue = JV_str string | JV_u64 u64 | JV_i32 "32 word" | JV_bool bool | JV_null | JV_arr "jvalue list"
  | JV_obj "(string \<times> jvalue) list"

definition sep_by :: "string \<Rightarrow> string list \<Rightarrow> string" where
  "sep_by s xs = (case xs of [] \<Rightarrow> [] | x # xs \<Rightarrow> x @ concat (map (\<lambda>y. s @ y) xs))"

definition quoted :: "string \<Rightarrow> string" where
  "quoted s = dquote # concat (map jb_esc (cstr s)) @ [dquote]"

fun jv_text :: "jvalue \<Rightarrow> string" where
  "jv_text (JV_str s) = quoted s"
| "jv_text (JV_u64 v) = fmt_u v"
| "jv_text (JV_i32 v) = fmt_d (sint v)"
| "jv_text (JV_bool b) = (if b then ''true'' else ''false'')"
| "jv_text JV_null = ''null''"
| "jv_text (JV_arr vs) = ''['' @ sep_by '','' (map jv_text vs) @ '']''"
| "jv_text (JV_obj kvs) = ''{'' @ sep_by '','' (map (\<lambda>(k, v). quoted k @ '':'' @ jv_text v) kvs) @ ''}''"

fun jv_write :: "jvalue \<Rightarrow> JB \<Rightarrow> JB" where
  "jv_write (JV_str s) jb = jb_str s jb"
| "jv_write (JV_u64 v) jb = jb_u64 v jb"
| "jv_write (JV_i32 v) jb = jb_i32 v jb"
| "jv_write (JV_bool b) jb = jb_bool b jb"
| "jv_write JV_null jb = jb_null jb"
| "jv_write (JV_arr vs) jb = jb_arr_end (fold jv_write vs (jb_arr_begin jb))"
| "jv_write (JV_obj kvs) jb = jb_obj_end (fold (\<lambda>(k, v) jb. jv_write v (jb_key k jb)) kvs (jb_obj_begin jb))"

fun jv_depth :: "jvalue \<Rightarrow> nat" where
  "jv_depth (JV_arr vs) = Suc (Max (insert 0 (set (map jv_depth vs))))"
| "jv_depth (JV_obj kvs) = Suc (Max (insert 0 (set (map (\<lambda>(k, v). jv_depth v) kvs))))"
| "jv_depth _ = 0"

section \<open>Buffer discipline\<close>

text \<open>
  \<open>emits t\<close>: the step appends the whole of \<open>t\<close> when it fits below the NUL, and otherwise raises the flag having
  appended a prefix of it; a raised flag freezes the buffer.
\<close>

definition emits :: "string \<Rightarrow> JB \<Rightarrow> JB \<Rightarrow> bool" where
  "emits t jb jb' \<longleftrightarrow> jb_cap jb' = jb_cap jb
     \<and> (jb_overflow jb \<longrightarrow> jb_overflow jb' \<and> jb_buf jb' = jb_buf jb)
     \<and> (\<not> jb_overflow jb \<longrightarrow>
          (if length (jb_buf jb) + length t < jb_cap jb
           then \<not> jb_overflow jb' \<and> jb_buf jb' = jb_buf jb @ t
           else jb_overflow jb' \<and> (\<exists>u w. jb_buf jb' = jb_buf jb @ u \<and> t = u @ w)))"

text \<open>The buffer always has room for its NUL: the invariant every operation keeps.\<close>

definition jb_wf :: "JB \<Rightarrow> bool" where
  "jb_wf jb \<longleftrightarrow> length (jb_buf jb) < jb_cap jb"

lemma emits_trans:
  assumes "emits t a b" and "emits u b c"
  shows "emits (t @ u) a c"
proof (cases "jb_overflow a")
  case True
  with assms show ?thesis by (auto simp: emits_def)
next
  case False
  show ?thesis
  proof (cases "length (jb_buf a) + length t < jb_cap a")
    case True
    with False assms show ?thesis by (auto simp: emits_def)
  next
    case over: False
    with False assms(1) obtain u' w where "jb_overflow b" "jb_buf b = jb_buf a @ u'" "t = u' @ w" "jb_cap b = jb_cap a"
      by (auto simp: emits_def)
    with False over assms(2) show ?thesis by (auto simp: emits_def)
  qed
qed

lemma emits_control [simp]:
  "emits t (a\<lparr>jb_depth := d\<rparr>) b = emits t a b" "emits t a (b\<lparr>jb_depth := d\<rparr>) = emits t a b"
  "emits t (a\<lparr>jb_need_comma := m\<rparr>) b = emits t a b" "emits t a (b\<lparr>jb_need_comma := m\<rparr>) = emits t a b"
  "jb_wf (a\<lparr>jb_depth := d\<rparr>) = jb_wf a" "jb_wf (a\<lparr>jb_need_comma := m\<rparr>) = jb_wf a"
  by (simp_all add: emits_def jb_wf_def)

lemma emits_nil: "jb_wf jb \<Longrightarrow> jb_buf jb' = jb_buf jb \<Longrightarrow> jb_cap jb' = jb_cap jb \<Longrightarrow>
    jb_overflow jb' = jb_overflow jb \<Longrightarrow> emits [] jb jb'"
  by (auto simp: emits_def jb_wf_def)

text \<open>
  One step of the writer: what it emits, and that it keeps the depth and the comma bits of the levels
  below.
\<close>

definition wrote :: "string \<Rightarrow> JB \<Rightarrow> JB \<Rightarrow> bool" where
  "wrote t jb jb' \<longleftrightarrow> emits t jb jb' \<and> jb_wf jb' \<and> jb_depth jb' = jb_depth jb
     \<and> (\<forall>i < nat (jb_depth jb). bit (jb_need_comma jb') i = bit (jb_need_comma jb) i)"

lemma wrote_trans: "wrote t a b \<Longrightarrow> wrote u b c \<Longrightarrow> wrote (t @ u) a c"
  by (auto simp: wrote_def intro: emits_trans)

lemma puts_wrote: "jb_wf jb \<Longrightarrow> wrote s jb (jb_puts s jb)"
  by (auto simp: wrote_def emits_def jb_puts_def jb_wf_def)

lemma putc_wrote: "jb_wf jb \<Longrightarrow> wrote [c] jb (jb_putc c jb)"
  by (auto simp: wrote_def emits_def jb_putc_def jb_wf_def)

lemma putc_comma [simp, frame]: "jb_need_comma (jb_putc c jb) = jb_need_comma jb" "jb_depth (jb_putc c jb) = jb_depth jb"
  by (simp_all add: jb_putc_def)

lemma puts_comma [simp, frame]: "jb_need_comma (jb_puts s jb) = jb_need_comma jb" "jb_depth (jb_puts s jb) = jb_depth jb"
  by (simp_all add: jb_puts_def)

lemma emit_char_wrote: "jb_wf jb \<Longrightarrow> wrote (jb_esc c) jb (jb_emit_char c jb)"
  by (auto simp: jb_emit_char_def intro: putc_wrote puts_wrote split: list.splits)

lemma emit_char_comma [simp, frame]:
  "jb_need_comma (jb_emit_char c jb) = jb_need_comma jb" "jb_depth (jb_emit_char c jb) = jb_depth jb"
  by (simp_all add: jb_emit_char_def split: list.splits)

lemma fold_comma [simp, frame]:
  "jb_need_comma (fold jb_emit_char s jb) = jb_need_comma jb" "jb_depth (fold jb_emit_char s jb) = jb_depth jb"
  by (induction s arbitrary: jb) auto

lemma wrote_wf: "wrote t a b \<Longrightarrow> jb_wf b"
  by (simp add: wrote_def)

lemma fold_emit_wrote: "jb_wf jb \<Longrightarrow> wrote (concat (map jb_esc s)) jb (fold jb_emit_char s jb)"
proof (induction s arbitrary: jb)
  case Nil
  then show ?case by (simp add: wrote_def emits_nil)
next
  case (Cons c s)
  have "wrote (jb_esc c) jb (jb_emit_char c jb)" by (rule emit_char_wrote [OF Cons.prems])
  from wrote_trans [OF this Cons.IH [OF wrote_wf [OF this]]] show ?case by simp
qed

text \<open>The separator of a level, and a value written at that level.\<close>

definition lead :: "JB \<Rightarrow> string" where
  "lead jb = (if 0 < jb_depth jb \<and> bit (jb_need_comma jb) (nat (jb_depth jb)) then '','' else [])"

definition level :: "JB \<Rightarrow> nat \<Rightarrow> bool" where
  "level jb d \<longleftrightarrow> jb_wf jb \<and> jb_depth jb = int d"

definition element :: "string \<Rightarrow> JB \<Rightarrow> JB \<Rightarrow> bool" where
  "element t jb jb' \<longleftrightarrow> wrote (lead jb @ t) jb jb' \<and> bit (jb_need_comma jb') (nat (jb_depth jb))"

lemma sep_element: "level jb d \<Longrightarrow> d < 16 \<Longrightarrow> element [] jb (jb_sep jb)"
proof -
  assume l: "level jb d" and d: "d < 16"
  define jb1 where "jb1 = (if 0 < d \<and> bit (jb_need_comma jb) d then jb_putc (CHR '','') jb else jb)"
  have sep: "jb_sep jb = jb1\<lparr>jb_need_comma := set_bit d (jb_need_comma jb1)\<rparr>"
    using l by (simp add: jb_sep_def level_def jb1_def Let_def)
  have "wrote (lead jb) jb jb1"
    using l putc_wrote [of jb "CHR '',''"]
    by (auto simp: jb1_def lead_def level_def wrote_def emits_nil)
  then show ?thesis
    using l d by (auto simp: sep element_def wrote_def emits_def jb_wf_def level_def bit_simps jb1_def)
qed

text \<open>A value is its separator and then steps that leave the comma bits alone.\<close>

lemma element_then:
  assumes "element t a b" and "wrote u b c" and "jb_need_comma c = jb_need_comma b"
  shows "element (t @ u) a c"
  using assms wrote_trans [OF _ assms(2)] by (fastforce simp: element_def)

lemma level_sep: "level jb d \<Longrightarrow> d < 16 \<Longrightarrow> level (jb_sep jb) d"
  using sep_element [of jb d] by (simp add: level_def element_def wrote_def)

lemma scalar_element: "level jb d \<Longrightarrow> d < 16 \<Longrightarrow> element s jb (jb_puts s (jb_sep jb))"
  using element_then [OF sep_element puts_wrote] level_sep by (fastforce simp: level_def)

lemma str_element: "level jb d \<Longrightarrow> d < 16 \<Longrightarrow> element (quoted s) jb (jb_str s jb)"
proof -
  assume l: "level jb d" "d < 16"
  let ?b = "jb_putc dquote (jb_sep jb)" and ?c = "fold jb_emit_char (cstr s) (jb_putc dquote (jb_sep jb))"
  have b: "wrote [dquote] (jb_sep jb) ?b" using level_sep [OF l] by (intro putc_wrote) (simp add: level_def)
  have c: "wrote (concat (map jb_esc (cstr s))) ?b ?c" by (rule fold_emit_wrote [OF wrote_wf [OF b]])
  have "wrote [dquote] ?c (jb_putc dquote ?c)" by (rule putc_wrote [OF wrote_wf [OF c]])
  from element_then [OF sep_element [OF l] wrote_trans [OF wrote_trans [OF b c] this]]
  show ?thesis by (simp add: jb_str_def quoted_def)
qed

section \<open>Nested values\<close>

lemma nat_one_plus [simp]: "nat (1 + int d) = Suc d"
  by simp

lemma open_level:
  assumes "level jb d" and "d < 15"
  shows "wrote (lead jb @ [c]) jb ((jb_open c jb)\<lparr>jb_depth := int d\<rparr>)" and "level (jb_open c jb) (Suc d)"
    and "bit (jb_need_comma (jb_open c jb)) d" and "\<not> bit (jb_need_comma (jb_open c jb)) (Suc d)"
proof -
  let ?b = "jb_putc c (jb_sep jb)"
  have e: "element [c] jb ?b"
    using element_then [OF sep_element [of jb d] putc_wrote [of "jb_sep jb" c]] level_sep [of jb d] assms
    by (simp add: level_def)
  then have b: "jb_depth ?b = int d" "jb_wf ?b" using assms(1) by (auto simp: element_def wrote_def level_def)
  have o: "jb_open c jb = ?b\<lparr>jb_depth := int (Suc d), jb_need_comma := unset_bit (Suc d) (jb_need_comma ?b)\<rparr>"
    using b(1) by (simp add: jb_open_def jb_clear_def Let_def nat_add_distrib)
  show "level (jb_open c jb) (Suc d)" using b by (simp add: o level_def jb_wf_def)
  show "\<not> bit (jb_need_comma (jb_open c jb)) (Suc d)" by (simp add: o bit_simps)
  show "bit (jb_need_comma (jb_open c jb)) d"
    using e assms(1) by (simp add: o bit_simps element_def level_def)
  show "wrote (lead jb @ [c]) jb ((jb_open c jb)\<lparr>jb_depth := int d\<rparr>)"
    using e assms(1) by (simp add: o element_def wrote_def level_def bit_simps)
qed

lemma close_level:
  assumes "level jb (Suc d)"
  shows "wrote [c] (jb\<lparr>jb_depth := int d\<rparr>) (jb_close c jb)"
    and "bit (jb_need_comma (jb_close c jb)) d \<longleftrightarrow> bit (jb_need_comma jb) d"
proof -
  let ?b = "(jb_clear jb)\<lparr>jb_depth := int d\<rparr>"
  have cl: "jb_close c jb = jb_putc c ?b"
    using assms by (simp add: jb_close_def jb_clear_def level_def Let_def)
  show "wrote [c] (jb\<lparr>jb_depth := int d\<rparr>) (jb_close c jb)"
    using assms by (auto simp: cl wrote_def emits_def jb_putc_def jb_clear_def level_def jb_wf_def bit_simps)
  show "bit (jb_need_comma (jb_close c jb)) d \<longleftrightarrow> bit (jb_need_comma jb) d"
    using assms by (simp add: cl jb_clear_def level_def bit_simps)
qed

text \<open>Elements written one after the other come out separated by commas.\<close>

lemma element_level: "element t a b \<Longrightarrow> level a d \<Longrightarrow> level b d"
  by (simp add: element_def wrote_def level_def)

lemma fold_elements:
  assumes "\<And>x jb. x \<in> set xs \<Longrightarrow> level jb (Suc d) \<Longrightarrow> element (show_elem x) jb (f x jb)"
    and "level jb (Suc d)" and "\<not> bit (jb_need_comma jb) (Suc d)"
  shows "wrote (sep_by '','' (map show_elem xs)) jb (fold f xs jb)"
proof -
  have tail: "wrote (concat (map (\<lambda>x. '','' @ show_elem x) ys)) jb (fold f ys jb)"
    if "set ys \<subseteq> set xs" "level jb (Suc d)" "bit (jb_need_comma jb) (Suc d)" for ys jb
    using that
  proof (induction ys arbitrary: jb)
    case Nil
    then show ?case by (simp add: wrote_def emits_nil level_def)
  next
    case (Cons y ys)
    then have e: "element (show_elem y) jb (f y jb)" by (intro assms(1)) auto
    then have "wrote ('','' @ show_elem y) jb (f y jb)"
      using Cons.prems by (simp add: element_def lead_def level_def)
    moreover have "bit (jb_need_comma (f y jb)) (Suc d)"
      using e Cons.prems(2) by (simp add: element_def level_def nat_add_distrib)
    ultimately show ?case
      using wrote_trans Cons.IH [OF _ element_level [OF e Cons.prems(2)]] Cons.prems(1) by fastforce
  qed
  show ?thesis
  proof (cases xs)
    case Nil
    then show ?thesis using assms(2) by (simp add: sep_by_def wrote_def emits_nil level_def)
  next
    case (Cons y ys)
    then have e: "element (show_elem y) jb (f y jb)" using assms(1,2) by simp
    then have "wrote (show_elem y) jb (f y jb)"
      using assms(2,3) by (simp add: element_def lead_def level_def nat_add_distrib)
    moreover have "bit (jb_need_comma (f y jb)) (Suc d)"
      using e assms(2) by (simp add: element_def level_def nat_add_distrib)
    ultimately show ?thesis
      using wrote_trans tail [OF _ element_level [OF e assms(2)], of ys] Cons
      by (fastforce simp: sep_by_def comp_def)
  qed
qed

lemma bracket_element:
  assumes "\<And>x jb. x \<in> set xs \<Longrightarrow> level jb (Suc d) \<Longrightarrow> element (show_elem x) jb (f x jb)"
    and "level jb d" and "d < 15"
  shows "element ([c] @ sep_by '','' (map show_elem xs) @ [c']) jb (jb_close c' (fold f xs (jb_open c jb)))"
proof -
  note o = open_level [OF assms(2,3), of c]
  let ?m = "fold f xs (jb_open c jb)"
  have m: "wrote (sep_by '','' (map show_elem xs)) (jb_open c jb) ?m"
    by (rule fold_elements [OF assms(1) o(2,4)])
  then have lm: "level ?m (Suc d)" using o(2) by (simp add: wrote_def level_def)
  note cl = close_level [OF lm, of c']
  have bits: "bit (jb_need_comma ?m) i = bit (jb_need_comma (jb_open c jb)) i" if "i < Suc d" for i
    using m o(2) that by (simp add: wrote_def level_def)
  have "wrote (sep_by '','' (map show_elem xs)) ((jb_open c jb)\<lparr>jb_depth := int d\<rparr>) (?m\<lparr>jb_depth := int d\<rparr>)"
    using m bits by (simp add: wrote_def)
  from wrote_trans [OF wrote_trans [OF o(1) this] cl(1)]
  show ?thesis using cl(2) bits [of d] o(3) assms(2) by (simp add: element_def level_def)
qed

text \<open>Every value, nested less than sixteen deep, is written as its text.\<close>

lemma jv_depth_arr: "v \<in> set vs \<Longrightarrow> jv_depth v < jv_depth (JV_arr vs)"
  by (auto simp: less_Suc_eq_le intro!: Max_ge)

lemma jv_depth_obj: "(k, v) \<in> set kvs \<Longrightarrow> jv_depth v < jv_depth (JV_obj kvs)"
  by (force simp: less_Suc_eq_le intro!: Max_ge)

lemma key_value_element:
  assumes "level jb (Suc d)" and "Suc d < 16"
    and "\<And>jb. level jb (Suc d) \<Longrightarrow> element t jb (f jb)"
  shows "element (quoted k @ '':'' @ t) jb (f (jb_key k jb))"
proof -
  let ?s = "jb_putc (CHR '':'') (jb_str k jb)"
  have e: "element (quoted k) jb (jb_str k jb)" by (rule str_element [OF assms(1,2)])
  have c: "wrote '':'' (jb_str k jb) ?s"
    using e by (intro putc_wrote) (auto simp: element_def wrote_def)
  have k: "wrote (lead jb @ quoted k @ '':'') jb ?s"
    using e wrote_trans [OF _ c] by (fastforce simp: element_def)
  then have dep: "jb_depth ?s = int (Suc d)" using assms(1) by (simp add: wrote_def level_def)
  have w: "wrote (lead jb @ quoted k @ '':'') jb (jb_key k jb)"
    using k assms(1) dep by (simp add: jb_key_def jb_clear_def wrote_def bit_simps level_def)
  then have l: "level (jb_key k jb) (Suc d)" using assms(1) by (simp add: wrote_def level_def)
  have "\<not> bit (jb_need_comma (jb_key k jb)) (Suc d)"
    using dep by (simp add: jb_key_def jb_clear_def bit_simps)
  then have "wrote t (jb_key k jb) (f (jb_key k jb))" "bit (jb_need_comma (f (jb_key k jb))) (Suc d)"
    using assms(3) [OF l] l by (simp_all add: element_def lead_def level_def)
  with wrote_trans [OF w] assms(1) show ?thesis by (fastforce simp: element_def level_def)
qed

lemma jv_write_element: "level jb d \<Longrightarrow> d + jv_depth v < 16 \<Longrightarrow> element (jv_text v) jb (jv_write v jb)"
proof (induction v arbitrary: jb d)
  case (JV_arr vs)
  have "element (jv_text v) jb' (jv_write v jb')" if "v \<in> set vs" "level jb' (Suc d)" for v jb'
    using that jv_depth_arr [OF that(1)] JV_arr.prems(2) by (intro JV_arr.IH [of v jb' "Suc d"]) auto
  from bracket_element [where xs = vs and show_elem = jv_text and f = jv_write and c = "CHR ''[''" and c' = "CHR '']''",
      OF this JV_arr.prems(1)] JV_arr.prems(2)
  show ?case by (simp add: jb_arr_end_def jb_arr_begin_def)
next
  case (JV_obj kvs)
  have "element ((\<lambda>(k, v). quoted k @ '':'' @ jv_text v) kv) jb' ((\<lambda>(k, v) jb. jv_write v (jb_key k jb)) kv jb')"
    if "kv \<in> set kvs" "level jb' (Suc d)" for kv jb'
  proof -
    obtain k v where kv: "kv = (k, v)" by (cases kv)
    have d: "Suc d + jv_depth v < 16" using that(1) kv jv_depth_obj [of k v kvs] JV_obj.prems(2) by simp
    have "element (jv_text v) jb'' (jv_write v jb'')" if "level jb'' (Suc d)" for jb''
      using that d \<open>kv \<in> set kvs\<close> kv by (intro JV_obj.IH [of kv v jb'' "Suc d"]) auto
    from key_value_element [OF that(2) _ this] d show ?thesis by (simp add: kv)
  qed
  from bracket_element [where xs = kvs and show_elem = "\<lambda>(k, v). quoted k @ '':'' @ jv_text v"
      and f = "\<lambda>(k, v) jb. jv_write v (jb_key k jb)" and c = "CHR ''{''" and c' = "CHR ''}''",
      OF this JV_obj.prems(1)] JV_obj.prems(2)
  show ?case by (simp add: jb_obj_end_def jb_obj_begin_def)
qed (auto simp: jb_u64_def jb_i32_def jb_bool_def jb_null_def intro: str_element scalar_element)

section \<open>Properties\<close>



end
