(* ===== verification/Rtl_Bridge.thy ===== *)
theory Rtl_Bridge
  imports Config
begin

text \<open>
  The dongle driver of \<open>rtl/rtl_bridge.c\<close>: the global hardware state, the lifecycle of the asynchronous
  reader with its stream count, the hardware controls, the limits of each sampling mode and the ADC level
  monitor. librtlsdr is a parameter, a record of functions on a device state; so are \<open>sqrt\<close> and \<open>log10\<close> of libm.
  The fake librtlsdr of \<open>test/rtlsdr_stub.c\<close> is modelled as one instance of it.
\<close>

section \<open>The library below\<close>

text \<open>
  librtlsdr: every setter returns its code and the new device state. A gain list that the library
  cannot deliver is empty.
\<close>

record 'd librtlsdr =
  rtlsdr_open :: "'d \<Rightarrow> int \<times> 'd"
  rtlsdr_close :: "'d \<Rightarrow> 'd"
  rtlsdr_set_center_freq :: "u32 \<Rightarrow> 'd \<Rightarrow> int \<times> 'd"
  rtlsdr_get_center_freq :: "'d \<Rightarrow> u32"
  rtlsdr_set_sample_rate :: "u32 \<Rightarrow> 'd \<Rightarrow> int \<times> 'd"
  rtlsdr_get_sample_rate :: "'d \<Rightarrow> u32"
  rtlsdr_set_tuner_gain_mode :: "int \<Rightarrow> 'd \<Rightarrow> int \<times> 'd"
  rtlsdr_set_tuner_gain :: "int \<Rightarrow> 'd \<Rightarrow> int \<times> 'd"
  rtlsdr_get_tuner_gain :: "'d \<Rightarrow> int"
  rtlsdr_get_tuner_gains :: "'d \<Rightarrow> int list"
  rtlsdr_set_agc_mode :: "int \<Rightarrow> 'd \<Rightarrow> int \<times> 'd"
  rtlsdr_set_bias_tee :: "int \<Rightarrow> 'd \<Rightarrow> int \<times> 'd"
  rtlsdr_set_freq_correction :: "int \<Rightarrow> 'd \<Rightarrow> int \<times> 'd"
  rtlsdr_set_direct_sampling :: "int \<Rightarrow> 'd \<Rightarrow> int \<times> 'd"
  rtlsdr_reset_buffer :: "'d \<Rightarrow> int \<times> 'd"
  rtlsdr_cancel_async :: "'d \<Rightarrow> int \<times> 'd"

record libm =
  m_sqrt :: "double \<Rightarrow> double"
  m_log10 :: "double \<Rightarrow> double"

section \<open>Global hardware state\<close>

record 'd rtl =
  r_device :: 'd
  s_dev :: bool
  g_freq_hz :: u64
  g_rate_sps :: u32
  g_rate_requested_sps :: u32
  g_gain_tenth_db :: int
  g_agc_enabled :: bool
  g_bias_tee_enabled :: bool
  g_ppm_correction :: int
  g_sampling_mode :: sampling_mode_t
  g_samples_per_pkt :: u32
  g_bias_tee_volts :: double
  g_bias_tee_persist :: bool
  g_adc_overload :: bool
  s_running :: bool
  s_stream_count :: int
  s_cb_count :: u64
  s_adc_sumsq :: u64
  s_adc_n :: u32
  s_adc_level_valid :: bool
  s_last_overload_ms :: u64
  s_overload_cb :: bool
  s_ring_write :: u32
  s_ring_read :: u32

definition rtl_globals :: "'d \<Rightarrow> 'd rtl" where
  "rtl_globals d = \<lparr>
     r_device = d, s_dev = False, g_freq_hz = ucast RTL_DEFAULT_FREQ,
     g_rate_sps = RTL_DEFAULT_RATE_NORMAL, g_rate_requested_sps = RTL_DEFAULT_RATE_NORMAL,
     g_gain_tenth_db = RTL_DEFAULT_GAIN, g_agc_enabled = False, g_bias_tee_enabled = False,
     g_ppm_correction = 0, g_sampling_mode = SAMPLING_NORMAL,
     g_samples_per_pkt = of_nat VITA_SAMPLES_PER_PKT, g_bias_tee_volts = Fin 0, g_bias_tee_persist = False,
     g_adc_overload = False, s_running = False, s_stream_count = 0, s_cb_count = 0, s_adc_sumsq = 0,
     s_adc_n = 0, s_adc_level_valid = False, s_last_overload_ms = 0, s_overload_cb = False,
     s_ring_write = 0, s_ring_read = 0\<rparr>"

text \<open>One call of a library setter on the device, its return code dropped or kept.\<close>

definition dev_call :: "('d \<Rightarrow> int \<times> 'd) \<Rightarrow> 'd rtl \<Rightarrow> int \<times> 'd rtl" where
  "dev_call f g = (case f (r_device g) of (r, d) \<Rightarrow> (r, g\<lparr>r_device := d\<rparr>))"

definition dev_do :: "('d \<Rightarrow> int \<times> 'd) \<Rightarrow> 'd rtl \<Rightarrow> 'd rtl" where
  "dev_do f g = snd (dev_call f g)"

section \<open>ADC level\<close>

definition dbfs_of :: "libm \<Rightarrow> u64 \<Rightarrow> u32 \<Rightarrow> double" where
  "dbfs_of m sumsq n =
     (let rms = m_sqrt m (ddiv (of_int_d (uint sumsq)) (of_int_d (uint n)))
      in if dless (Fin 0) rms then dmul (Fin 20) (m_log10 m (ddiv rms RTL_ADC_FULL_SCALE)) else Fin (- 120))"

definition rtl_get_adc_level_dbfs :: "libm \<Rightarrow> 'd rtl \<Rightarrow> double option" where
  "rtl_get_adc_level_dbfs m g =
     (if \<not> s_adc_level_valid g \<or> s_adc_n g = 0 then None
      else let dbfs = dbfs_of m (s_adc_sumsq g) (s_adc_n g)
           in Some (if dless dbfs (Fin (- 120)) then Fin (- 120) else dbfs))"

definition rtl_reset_adc_level :: "'d rtl \<Rightarrow> 'd rtl" where
  "rtl_reset_adc_level g = g\<lparr>s_adc_level_valid := False, s_adc_sumsq := 0, s_adc_n := 0, g_adc_overload := False\<rparr>"

definition rtl_set_overload_handler :: "'d rtl \<Rightarrow> 'd rtl" where
  "rtl_set_overload_handler g = g\<lparr>s_overload_cb := True\<rparr>"

text \<open>The sampled bytes \<open>buf[0], buf[8], ...\<close> and what the loop accumulates over them.\<close>

fun every :: "nat \<Rightarrow> 'a list \<Rightarrow> 'a list" where
  "every k [] = []"
| "every k (x # xs) = x # every k (drop (k - 1) xs)"

record adc_acc =
  acc_sumsq :: u64
  acc_n :: u32
  acc_clipped :: u32

definition adc_sample :: "adc_acc \<Rightarrow> u8 \<Rightarrow> adc_acc" where
  "adc_sample a b =
     (let v = uint b; d = v - 128 in
      a\<lparr>acc_sumsq := acc_sumsq a + of_int (d * d), acc_n := acc_n a + 1,
        acc_clipped := (if v \<le> RTL_ADC_CLIP_LOW \<or> RTL_ADC_CLIP_HIGH \<le> v then acc_clipped a + 1 else acc_clipped a)\<rparr>)"

definition adc_accumulate :: "u8 list \<Rightarrow> adc_acc" where
  "adc_accumulate buf =
     foldl adc_sample \<lparr>acc_sumsq = 0, acc_n = 0, acc_clipped = 0\<rparr> (every RTL_ADC_STRIDE buf)"

text \<open>\<open>measure_adc_level\<close>: the new state, and the level handed to the overload handler when it fires.\<close>

definition measure_adc_level :: "libm \<Rightarrow> u64 \<Rightarrow> u8 list \<Rightarrow> 'd rtl \<Rightarrow> 'd rtl \<times> double option" where
  "measure_adc_level m now_ms buf g =
     (if buf = [] then (g, None)
      else let a = adc_accumulate buf in
        if acc_n a = 0 then (g, None)
        else let clip_ppm = (ucast (ucast (acc_clipped a) * 1000000 div (ucast (acc_n a) :: u64)) :: u32);
                 overload = (RTL_ADC_CLIP_PPM_TRIGGER \<le> clip_ppm);
                 was = g_adc_overload g;
                 g = g\<lparr>s_adc_sumsq := acc_sumsq a, s_adc_n := acc_n a, s_adc_level_valid := True,
                       g_adc_overload := overload\<rparr>
             in if overload \<and> \<not> was \<and> s_overload_cb g \<and> ADC_OVERLOAD_MIN_GAP_MS \<le> now_ms - s_last_overload_ms g
                then (g\<lparr>s_last_overload_ms := now_ms\<rparr>, Some (dbfs_of m (acc_sumsq a) (acc_n a)))
                else (g, None))"

section \<open>Ring buffer\<close>

definition rtl_ring_used :: "'d rtl \<Rightarrow> u32" where
  "rtl_ring_used g = ((s_ring_write g - s_ring_read g) AND RING_MASK)"

text \<open>\<open>rtl_ring_read\<close>: the slot index read, if any, and the advanced read counter.\<close>

definition rtl_ring_read :: "'d rtl \<Rightarrow> u32 option \<times> 'd rtl" where
  "rtl_ring_read g =
     (if s_ring_read g = s_ring_write g then (None, g)
      else (Some (s_ring_read g AND RING_MASK), g\<lparr>s_ring_read := s_ring_read g + 1\<rparr>))"

section \<open>Lifecycle\<close>

definition ds_code :: "sampling_mode_t \<Rightarrow> int" where
  "ds_code mode = (case mode of SAMPLING_NORMAL \<Rightarrow> 0 | SAMPLING_DIRECT_I \<Rightarrow> 1 | SAMPLING_DIRECT_Q \<Rightarrow> 2)"

definition rtl_bridge_init ::
    "'d librtlsdr \<Rightarrow> sampling_mode_t \<Rightarrow> double \<Rightarrow> bool \<Rightarrow> int \<Rightarrow> 'd rtl \<Rightarrow> int \<times> 'd rtl" where
  "rtl_bridge_init lib mode bias_tee_volts agc ppm g =
     (case dev_call (rtlsdr_open lib) g of (r, g) \<Rightarrow>
      if r < 0 then (- 1, g)
      else
        let g = g\<lparr>s_dev := True, g_sampling_mode := mode\<rparr>;
            g = dev_do (rtlsdr_set_direct_sampling lib (ds_code mode)) g;
            default_rate = (if mode = SAMPLING_NORMAL then RTL_DEFAULT_RATE_NORMAL else RTL_DEFAULT_RATE_DIRECT);
            g = dev_do (rtlsdr_set_sample_rate lib default_rate) g;
            g = g\<lparr>g_rate_requested_sps := default_rate, g_rate_sps := rtlsdr_get_sample_rate lib (r_device g)\<rparr>;
            g = dev_do (rtlsdr_set_center_freq lib RTL_DEFAULT_FREQ) g;
            g = g\<lparr>g_freq_hz := ucast (rtlsdr_get_center_freq lib (r_device g))\<rparr>;
            g = dev_do (rtlsdr_set_tuner_gain_mode lib (if agc then 0 else 1)) g;
            g = (if agc then g else dev_do (rtlsdr_set_tuner_gain lib RTL_DEFAULT_GAIN) g);
            g = dev_do (rtlsdr_set_agc_mode lib (if agc then 1 else 0)) g;
            g = g\<lparr>g_agc_enabled := agc, g_gain_tenth_db := rtlsdr_get_tuner_gain lib (r_device g)\<rparr>;
            on = dless (Fin 0) bias_tee_volts;
            g = (case dev_call (rtlsdr_set_bias_tee lib (if on then 1 else 0)) g of (r, g) \<Rightarrow>
                   if r = 0
                   then g\<lparr>g_bias_tee_enabled := on, g_bias_tee_volts := (if on then RTL_BIAS_TEE_VOLTS else Fin 0)\<rparr>
                   else g\<lparr>g_bias_tee_enabled := False, g_bias_tee_volts := Fin 0\<rparr>);
            g = dev_do (rtlsdr_set_freq_correction lib ppm) g;
            g = g\<lparr>g_ppm_correction := ppm\<rparr>
        in (0, dev_do (rtlsdr_reset_buffer lib) g))"

definition rtl_bridge_destroy :: "'d librtlsdr \<Rightarrow> 'd rtl \<Rightarrow> 'd rtl" where
  "rtl_bridge_destroy lib g =
     (if s_dev g then g\<lparr>r_device := rtlsdr_close lib (r_device g), s_dev := False\<rparr> else g)"

text \<open>\<open>thread_ok\<close> is whether \<open>pthread_create\<close> succeeds.\<close>

definition rtl_bridge_start :: "'d librtlsdr \<Rightarrow> bool \<Rightarrow> 'd rtl \<Rightarrow> int \<times> 'd rtl" where
  "rtl_bridge_start lib thread_ok g =
     (let count = s_stream_count g + 1; g = g\<lparr>s_stream_count := count\<rparr> in
      if count = 1 then
        let g = g\<lparr>s_ring_write := 0, s_ring_read := 0, s_cb_count := 0\<rparr>;
            g = rtl_reset_adc_level g;
            g = dev_do (rtlsdr_reset_buffer lib) g;
            g = g\<lparr>s_running := True\<rparr>
        in if thread_ok then (0, g) else (- 1, g\<lparr>s_running := False, s_stream_count := s_stream_count g - 1\<rparr>)
      else (0, g))"

definition rtl_cancel :: "'d librtlsdr \<Rightarrow> 'd rtl \<Rightarrow> 'd rtl" where
  "rtl_cancel lib g =
     (let g = g\<lparr>s_running := False\<rparr> in if s_dev g then dev_do (rtlsdr_cancel_async lib) g else g)"

definition rtl_bridge_stop :: "'d librtlsdr \<Rightarrow> 'd rtl \<Rightarrow> 'd rtl" where
  "rtl_bridge_stop lib g =
     (let count = s_stream_count g - 1;
          g = g\<lparr>s_stream_count := count\<rparr>;
          (count, g) = (if count < 0 then (0, g\<lparr>s_stream_count := 0\<rparr>) else (count, g))
      in if count = 0 \<and> s_running g then rtl_cancel lib g else g)"

definition rtl_bridge_force_stop :: "'d librtlsdr \<Rightarrow> 'd rtl \<Rightarrow> 'd rtl" where
  "rtl_bridge_force_stop lib g =
     (let g = g\<lparr>s_stream_count := 0\<rparr> in if s_running g then rtl_cancel lib g else g)"

section \<open>Hardware control\<close>

definition rtl_set_frequency :: "'d librtlsdr \<Rightarrow> u64 \<Rightarrow> 'd rtl \<Rightarrow> u32 \<times> 'd rtl" where
  "rtl_set_frequency lib freq_hz g =
     (if \<not> s_dev g then (0, g)
      else let g = dev_do (rtlsdr_set_center_freq lib (ucast freq_hz)) g;
               applied = rtlsdr_get_center_freq lib (r_device g)
           in (applied, if applied \<noteq> 0 then g\<lparr>g_freq_hz := ucast applied\<rparr> else g))"

definition rtl_set_sample_rate :: "'d librtlsdr \<Rightarrow> u32 \<Rightarrow> 'd rtl \<Rightarrow> u32 \<times> 'd rtl" where
  "rtl_set_sample_rate lib rate_sps g =
     (if \<not> s_dev g then (0, g)
      else let g = dev_do (rtlsdr_set_sample_rate lib rate_sps) g;
               applied = rtlsdr_get_sample_rate lib (r_device g);
               g = (if applied \<noteq> 0 then g\<lparr>g_rate_sps := applied\<rparr> else g)
           in (applied, g\<lparr>g_rate_requested_sps := rate_sps\<rparr>))"

text \<open>The conversion \<open>(int) round (x)\<close>, undefined in C when the value does not fit an \<open>int\<close>.\<close>

definition int_round :: "double \<Rightarrow> int option" where
  "int_round x =
     (case x of
        Fin q \<Rightarrow> let i = round_away q in if - (2 ^ 31) \<le> i \<and> i < 2 ^ 31 then Some i else None
      | _ \<Rightarrow> None)"

definition tenths :: "int \<Rightarrow> double" where
  "tenths i = ddiv (of_int_d i) (Fin 10)"

definition rtl_set_gain :: "'d librtlsdr \<Rightarrow> double \<Rightarrow> 'd rtl \<Rightarrow> (double \<times> 'd rtl) option" where
  "rtl_set_gain lib gain_db g =
     (if \<not> s_dev g then Some (Fin (- 1), g)
      else case int_round (dmul gain_db (Fin 10)) of
             None \<Rightarrow> None
           | Some tenth \<Rightarrow>
               let g = dev_do (rtlsdr_set_tuner_gain_mode lib 1) g;
                   g = dev_do (rtlsdr_set_tuner_gain lib tenth) g;
                   applied = rtlsdr_get_tuner_gain lib (r_device g)
               in Some (tenths applied, g\<lparr>g_gain_tenth_db := applied\<rparr>))"

definition rtl_get_gain :: "'d rtl \<Rightarrow> double" where
  "rtl_get_gain g = tenths (g_gain_tenth_db g)"

definition rtl_set_agc :: "'d librtlsdr \<Rightarrow> bool \<Rightarrow> 'd rtl \<Rightarrow> int \<times> 'd rtl" where
  "rtl_set_agc lib enable g =
     (if \<not> s_dev g then (- 1, g)
      else let g = dev_do (rtlsdr_set_agc_mode lib (if enable then 1 else 0)) g;
               g = (if enable then dev_do (rtlsdr_set_tuner_gain_mode lib 0) g
                    else dev_do (rtlsdr_set_tuner_gain lib (g_gain_tenth_db g))
                           (dev_do (rtlsdr_set_tuner_gain_mode lib 1) g))
           in (0, g\<lparr>g_agc_enabled := enable\<rparr>))"

definition rtl_set_bias_tee :: "'d librtlsdr \<Rightarrow> double \<Rightarrow> 'd rtl \<Rightarrow> int \<times> 'd rtl" where
  "rtl_set_bias_tee lib volts g =
     (if \<not> s_dev g then (- 1, g)
      else let enable = dless (Fin 0) volts in
        case dev_call (rtlsdr_set_bias_tee lib (if enable then 1 else 0)) g of (r, g) \<Rightarrow>
          (r, if r = 0
              then g\<lparr>g_bias_tee_enabled := enable, g_bias_tee_volts := (if enable then RTL_BIAS_TEE_VOLTS else Fin 0)\<rparr>
              else g))"

definition rtl_set_direct_sampling :: "'d librtlsdr \<Rightarrow> sampling_mode_t \<Rightarrow> 'd rtl \<Rightarrow> int \<times> 'd rtl" where
  "rtl_set_direct_sampling lib mode g =
     (if \<not> s_dev g then (- 1, g)
      else case dev_call (rtlsdr_set_direct_sampling lib (ds_code mode)) g of (r, g) \<Rightarrow>
             (r, if r = 0 then g\<lparr>g_sampling_mode := mode\<rparr> else g))"

definition rtl_set_ppm :: "'d librtlsdr \<Rightarrow> int \<Rightarrow> 'd rtl \<Rightarrow> int \<times> 'd rtl" where
  "rtl_set_ppm lib ppm g =
     (if \<not> s_dev g then (- 1, g)
      else case dev_call (rtlsdr_set_freq_correction lib ppm) g of (r, g) \<Rightarrow>
             (r, if r = 0 then g\<lparr>g_ppm_correction := ppm\<rparr> else g))"

definition rtl_get_gain_list :: "'d librtlsdr \<Rightarrow> 'd rtl \<Rightarrow> int list" where
  "rtl_get_gain_list lib g = (if \<not> s_dev g then [] else rtlsdr_get_tuner_gains lib (r_device g))"

section \<open>Limits of the mode in force\<close>

definition rtl_freq_min :: "'d rtl \<Rightarrow> u64" where
  "rtl_freq_min g = (if g_sampling_mode g = SAMPLING_NORMAL then RTL_FREQ_MIN_NORMAL else RTL_FREQ_MIN_DIRECT)"

definition rtl_freq_max :: "'d rtl \<Rightarrow> u64" where
  "rtl_freq_max g = (if g_sampling_mode g = SAMPLING_NORMAL then RTL_FREQ_MAX_NORMAL else RTL_FREQ_MAX_DIRECT)"

definition rtl_rate_list :: "'d rtl \<Rightarrow> u32 list" where
  "rtl_rate_list g = (if g_sampling_mode g = SAMPLING_NORMAL then RTL_SAMPLE_RATES_NORMAL else RTL_SAMPLE_RATES_DIRECT)"

definition rtl_preferred_rate :: "'d rtl \<Rightarrow> u32" where
  "rtl_preferred_rate g =
     (if g_sampling_mode g = SAMPLING_NORMAL then RTL_DEFAULT_RATE_NORMAL else RTL_DEFAULT_RATE_DIRECT)"

definition sampling_mode_signal_type :: "sampling_mode_t \<Rightarrow> string" where
  "sampling_mode_signal_type m =
     (case m of SAMPLING_DIRECT_I \<Rightarrow> ''real_i_branch'' | SAMPLING_DIRECT_Q \<Rightarrow> ''real_q_branch''
      | SAMPLING_NORMAL \<Rightarrow> ''complex_iq'')"

definition rtl_reference_level_dbm :: "double \<Rightarrow> double" where
  "rtl_reference_level_dbm gain_db = dsub RTL_REF_LEVEL_DBM_AT_0DB gain_db"

definition sampling_mode_payload_fmt :: "sampling_mode_t \<Rightarrow> u32" where
  "sampling_mode_payload_fmt m = (if m = SAMPLING_NORMAL then VITA_PAYLOAD_FMT_COMPLEX else VITA_PAYLOAD_FMT_REAL)"

section \<open>Lifecycle invariant\<close>

text \<open>The reader runs exactly while some stream counts on it.\<close>

definition reader_inv :: "'d rtl \<Rightarrow> bool" where
  "reader_inv g \<longleftrightarrow> 0 \<le> s_stream_count g \<and> (s_running g \<longleftrightarrow> 0 < s_stream_count g)"

lemma dev_do_frame [simp, frame]:
  "s_stream_count (dev_do f g) = s_stream_count g" "s_running (dev_do f g) = s_running g"
  "s_dev (dev_do f g) = s_dev g" "g_gain_tenth_db (dev_do f g) = g_gain_tenth_db g"
  "g_sampling_mode (dev_do f g) = g_sampling_mode g" "g_freq_hz (dev_do f g) = g_freq_hz g"
  "g_rate_requested_sps (dev_do f g) = g_rate_requested_sps g" "g_rate_sps (dev_do f g) = g_rate_sps g"
  "g_bias_tee_enabled (dev_do f g) = g_bias_tee_enabled g" "g_bias_tee_volts (dev_do f g) = g_bias_tee_volts g"
  "g_bias_tee_persist (dev_do f g) = g_bias_tee_persist g" "g_agc_enabled (dev_do f g) = g_agc_enabled g"
  "g_adc_overload (dev_do f g) = g_adc_overload g" "s_adc_level_valid (dev_do f g) = s_adc_level_valid g"
  "s_ring_write (dev_do f g) = s_ring_write g" "s_ring_read (dev_do f g) = s_ring_read g"
  "s_overload_cb (dev_do f g) = s_overload_cb g" "s_last_overload_ms (dev_do f g) = s_last_overload_ms g"
  "g_ppm_correction (dev_do f g) = g_ppm_correction g" "r_device (dev_do f g) = snd (f (r_device g))"
  by (simp_all add: dev_do_def dev_call_def split: prod.splits)

lemma reset_adc_frame [simp, frame]:
  "s_stream_count (rtl_reset_adc_level g) = s_stream_count g" "s_running (rtl_reset_adc_level g) = s_running g"
  "s_dev (rtl_reset_adc_level g) = s_dev g" "r_device (rtl_reset_adc_level g) = r_device g"
  "g_gain_tenth_db (rtl_reset_adc_level g) = g_gain_tenth_db g" "g_sampling_mode (rtl_reset_adc_level g) = g_sampling_mode g"
  "g_freq_hz (rtl_reset_adc_level g) = g_freq_hz g" "g_rate_sps (rtl_reset_adc_level g) = g_rate_sps g"
  "g_bias_tee_enabled (rtl_reset_adc_level g) = g_bias_tee_enabled g"
  "g_bias_tee_volts (rtl_reset_adc_level g) = g_bias_tee_volts g"
  "g_bias_tee_persist (rtl_reset_adc_level g) = g_bias_tee_persist g"
  by (simp_all add: rtl_reset_adc_level_def)

lemma rtl_cancel_frame [simp, frame]:
  "s_stream_count (rtl_cancel lib g) = s_stream_count g" "\<not> s_running (rtl_cancel lib g)"
  by (simp_all add: rtl_cancel_def Let_def)

lemma start_count:
  "s_stream_count (snd (rtl_bridge_start lib ok g)) =
     (if s_stream_count g = 0 \<and> \<not> ok then 0 else s_stream_count g + 1)"
  by (auto simp: rtl_bridge_start_def Let_def)

lemma start_result: "fst (rtl_bridge_start lib ok g) = (if s_stream_count g = 0 \<and> \<not> ok then - 1 else 0)"
  by (auto simp: rtl_bridge_start_def Let_def)

lemma start_reader_inv: "reader_inv g \<Longrightarrow> reader_inv (snd (rtl_bridge_start lib ok g))"
  by (auto simp: reader_inv_def rtl_bridge_start_def Let_def)

lemma stop_reader_inv: "reader_inv g \<Longrightarrow> reader_inv (rtl_bridge_stop lib g)"
  by (auto simp: reader_inv_def rtl_bridge_stop_def Let_def)

lemma stop_count: "s_stream_count (rtl_bridge_stop lib g) = max 0 (s_stream_count g - 1)"
  by (auto simp: rtl_bridge_stop_def Let_def)

lemma force_stop_reader_inv: "reader_inv (rtl_bridge_force_stop lib g)"
  by (auto simp: reader_inv_def rtl_bridge_force_stop_def Let_def)

section \<open>The level accumulator does not overflow\<close>

definition sq_dev :: "u8 \<Rightarrow> nat" where
  "sq_dev b = nat ((uint b - 128) * (uint b - 128))"

lemma sq_dev_le: "sq_dev b \<le> 16384"
proof -
  have "uint b < 256" using uint_bounded [of b] by simp
  then have "\<bar>uint b - 128\<bar> \<le> 128" by (simp add: abs_le_iff)
  then have "\<bar>uint b - 128\<bar> * \<bar>uint b - 128\<bar> \<le> 128 * 128" by (intro mult_mono) auto
  then show ?thesis by (simp add: sq_dev_def abs_mult [symmetric])
qed

definition clipped :: "u8 \<Rightarrow> bool" where
  "clipped b \<longleftrightarrow> uint b \<le> RTL_ADC_CLIP_LOW \<or> RTL_ADC_CLIP_HIGH \<le> uint b"

lemma fold_adc:
  "foldl adc_sample a bs = a\<lparr>acc_sumsq := acc_sumsq a + of_nat (sum_list (map sq_dev bs)),
     acc_n := acc_n a + of_nat (length bs), acc_clipped := acc_clipped a + of_nat (length (filter clipped bs))\<rparr>"
proof (induction bs arbitrary: a)
  case (Cons b bs)
  have "of_int ((uint b - 128) * (uint b - 128)) = (of_nat (sq_dev b) :: u64)"
    by (simp add: sq_dev_def)
  then have "adc_sample a b = a\<lparr>acc_sumsq := acc_sumsq a + of_nat (sq_dev b), acc_n := acc_n a + 1,
      acc_clipped := (if clipped b then acc_clipped a + 1 else acc_clipped a)\<rparr>"
    unfolding adc_sample_def Let_def clipped_def by (simp only:)
  then show ?case by (simp add: Cons)
qed simp

lemma length_every: "0 < k \<Longrightarrow> length (every k xs) = (length xs + k - 1) div k"
proof (induction k xs rule: every.induct)
  case (2 k x xs)
  show ?case
  proof (cases "k - 1 \<le> length xs")
    case True
    then have "length (drop (k - 1) xs) + k - 1 = length xs" using 2(2) by simp
    moreover have "(length (x # xs) + k - 1) div k = Suc (length xs div k)" using 2(2) by simp
    ultimately show ?thesis using 2 by simp
  next
    case False
    then have "length xs div k = 0" by simp
    then show ?thesis using 2 False by simp
  qed
qed simp

text \<open>
  Over any buffer whose length is a \<open>uint32_t\<close>, the words hold the exact sum of squares, the exact number of
  samples and the exact number of clipped ones, and the clipping ratio is computed without wrap-around.
\<close>

lemma adc_accumulate_exact:
  assumes "length buf < 2 ^ 32"
  defines "bs \<equiv> every RTL_ADC_STRIDE buf"
  shows "unat (acc_sumsq (adc_accumulate buf)) = sum_list (map sq_dev bs)"
    and "unat (acc_n (adc_accumulate buf)) = length bs"
    and "unat (acc_clipped (adc_accumulate buf)) = length (filter clipped bs)"
    and "length bs \<le> 2 ^ 29"
proof -
  have "length bs = (length buf + 7) div 8" by (simp add: bs_def length_every RTL_ADC_STRIDE_def)
  then show n: "length bs \<le> 2 ^ 29" using assms(1) by simp
  have "sum_list (map sq_dev bs) \<le> 16384 * length bs"
  proof (induction bs)
    case (Cons b bs)
    then show ?case using sq_dev_le [of b] by simp
  qed simp
  with n have s: "sum_list (map sq_dev bs) < 2 ^ 64" by simp
  have f: "length (filter clipped bs) \<le> length bs" by simp
  note acc = adc_accumulate_def fold_adc bs_def [symmetric]
  show "unat (acc_sumsq (adc_accumulate buf)) = sum_list (map sq_dev bs)"
    using s by (simp add: acc unat_of_nat take_bit_nat_eq_self)
  show "unat (acc_n (adc_accumulate buf)) = length bs"
    using n by (simp add: acc unat_of_nat take_bit_nat_eq_self)
  show "unat (acc_clipped (adc_accumulate buf)) = length (filter clipped bs)"
    using n f by (simp add: acc unat_of_nat take_bit_nat_eq_self del: length_filter_le)
qed

section \<open>Overload detection\<close>

lemma measure_overload:
  assumes "buf \<noteq> []" and "length buf < 2 ^ 32"
  defines "bs \<equiv> every RTL_ADC_STRIDE buf"
  shows "g_adc_overload (fst (measure_adc_level m t buf g)) \<longleftrightarrow> 100 * length bs \<le> 1000000 * length (filter clipped bs)"
proof -
  let ?a = "adc_accumulate buf"
  note exact = adc_accumulate_exact [OF assms(2), folded bs_def]
  define c where "c = length (filter clipped bs)"
  have pos: "0 < length bs" using assms(1) by (cases buf) (simp_all add: bs_def)
  have c: "c \<le> length bs" by (simp add: c_def)
  have n0: "acc_n ?a \<noteq> 0" using exact(2) pos by (metis unat_eq_0 less_numeral_extra(3))
  have n64: "unat (ucast (acc_n ?a) :: u64) = length bs"
    using exact(2,4) by (simp add: unsigned_ucast_eq take_bit_nat_eq_self)
  have c64: "unat (ucast (acc_clipped ?a) * 1000000 :: u64) = c * 1000000"
    using exact(3,4) c by (simp add: unat_word_ariths unsigned_ucast_eq take_bit_nat_eq_self c_def [symmetric])
  have q: "c * 1000000 div length bs \<le> 1000000"
    using c pos by (metis div_le_mono mult_le_mono1 nonzero_mult_div_cancel_left less_numeral_extra(3) mult.commute)
  have ppm: "unat (ucast (ucast (acc_clipped ?a) * 1000000 div (ucast (acc_n ?a) :: u64)) :: u32) = c * 1000000 div length bs"
    using q exact(4) by (simp add: unsigned_ucast_eq unat_div n64 [simplified unsigned_ucast_eq] c64 exact(2) take_bit_nat_eq_self)
  have "RTL_ADC_CLIP_PPM_TRIGGER \<le> (ucast (ucast (acc_clipped ?a) * 1000000 div (ucast (acc_n ?a) :: u64)) :: u32)
      \<longleftrightarrow> 100 \<le> c * 1000000 div length bs"
    using ppm by (simp add: word_le_nat_alt RTL_ADC_CLIP_PPM_TRIGGER_def)
  also have "\<dots> \<longleftrightarrow> 100 * length bs \<le> c * 1000000"
    using pos by (rule less_eq_div_iff_mult_less_eq)
  finally show ?thesis
    using assms(1) n0 by (simp add: measure_adc_level_def Let_def c_def mult.commute)
qed

text \<open>The times at which a sequence of buffers makes the overload handler fire.\<close>

fun overload_times :: "libm \<Rightarrow> (u64 \<times> u8 list) list \<Rightarrow> 'd rtl \<Rightarrow> u64 list" where
  "overload_times m [] g = []"
| "overload_times m ((t, buf) # xs) g =
     (case measure_adc_level m t buf g of
        (g', None) \<Rightarrow> overload_times m xs g'
      | (g', Some _) \<Rightarrow> t # overload_times m xs g')"

lemma measure_event:
  "measure_adc_level m t buf g = (g', Some x) \<Longrightarrow>
     s_last_overload_ms g' = t \<and> ADC_OVERLOAD_MIN_GAP_MS \<le> t - s_last_overload_ms g \<and> \<not> g_adc_overload g \<and> g_adc_overload g'"
  by (auto simp: measure_adc_level_def Let_def split: if_splits)

lemma measure_no_event: "measure_adc_level m t buf g = (g', None) \<Longrightarrow> s_last_overload_ms g' = s_last_overload_ms g"
  by (auto simp: measure_adc_level_def Let_def split: if_splits)

lemma overload_times_after:
  "sorted_wrt (\<le>) (map fst xs) \<Longrightarrow> \<forall>x \<in> set xs. s_last_overload_ms g \<le> fst x \<Longrightarrow> t \<in> set (overload_times m xs g) \<Longrightarrow>
     unat (s_last_overload_ms g) + 1000 \<le> unat t"
proof (induction m xs g rule: overload_times.induct)
  case (2 m t0 buf xs g)
  obtain g' e where me: "measure_adc_level m t0 buf g = (g', e)" by (cases "measure_adc_level m t0 buf g")
  show ?case
  proof (cases e)
    case None
    with 2 me measure_no_event [of m t0 buf g g'] show ?thesis by simp
  next
    case (Some x)
    with me have ev: "s_last_overload_ms g' = t0" "ADC_OVERLOAD_MIN_GAP_MS \<le> t0 - s_last_overload_ms g"
      using measure_event [of m t0 buf g g' x] by auto
    have "unat (t0 - s_last_overload_ms g) = unat t0 - unat (s_last_overload_ms g)"
      using "2.prems"(2) by (intro unat_sub) simp
    with ev(2) have t0: "unat (s_last_overload_ms g) + 1000 \<le> unat t0"
      by (simp add: word_le_nat_alt ADC_OVERLOAD_MIN_GAP_MS_def)
    show ?thesis
    proof (cases "t = t0")
      case False
      then have "t \<in> set (overload_times m xs g')" using "2.prems"(3) me Some by simp
      then have "unat t0 + 1000 \<le> unat t"
        using 2(2) [OF me [symmetric] Some] "2.prems"(1) ev(1) by simp
      with t0 show ?thesis by simp
    qed (use t0 in simp)
  qed
qed simp

lemma overload_times_sparse:
  "sorted_wrt (\<le>) (map fst xs) \<Longrightarrow> \<forall>x \<in> set xs. s_last_overload_ms g \<le> fst x \<Longrightarrow>
     sorted_wrt (\<lambda>a b. unat a + 1000 \<le> unat b) (overload_times m xs g)"
proof (induction m xs g rule: overload_times.induct)
  case (2 m t0 buf xs g)
  obtain g' e where me: "measure_adc_level m t0 buf g = (g', e)" by (cases "measure_adc_level m t0 buf g")
  show ?case
  proof (cases e)
    case None
    with 2 me measure_no_event [of m t0 buf g g'] show ?thesis by simp
  next
    case (Some x)
    with me have last: "s_last_overload_ms g' = t0" using measure_event [of m t0 buf g g' x] by auto
    have s: "sorted_wrt (\<le>) (map fst xs)" "\<forall>x \<in> set xs. s_last_overload_ms g' \<le> fst x"
      using "2.prems" last by auto
    show ?thesis
      using 2(2) [OF me [symmetric] Some s] me Some overload_times_after [OF s, of _ m] last by auto
  qed
qed simp

section \<open>A published gain is applied exactly\<close>

lemma fl_zero [simp]: "fl 0 = Fin 0"
  using fl_of_int [of 0] by simp

lemma rat_of_int_bounds:
  assumes "i \<noteq> 0" and "\<bar>i\<bar> < 2 ^ 20"
  shows "1 \<le> \<bar>of_int i :: rat\<bar>" and "\<bar>of_int i :: rat\<bar> \<le> 2 ^ 20"
proof -
  have "1 \<le> \<bar>i\<bar>" and "\<bar>i\<bar> \<le> 2 ^ 20" using assms by simp_all
  then have "of_int 1 \<le> (of_int \<bar>i\<bar> :: rat)" and "of_int \<bar>i\<bar> \<le> (of_int (2 ^ 20) :: rat)"
    by (simp_all only: of_int_le_iff)
  then show "1 \<le> \<bar>of_int i :: rat\<bar>" and "\<bar>of_int i :: rat\<bar> \<le> 2 ^ 20" by simp_all
qed

lemma tenths_near:
  assumes "i \<noteq> 0" and "\<bar>i\<bar> < 2 ^ 20"
  obtains r where "tenths i = Fin r" and "\<bar>r - of_int i / 10\<bar> \<le> \<bar>of_int i\<bar> / 10 / 2 ^ 53"
proof -
  have i: "of_int_d i = Fin (of_int i)" using assms(2) by (simp add: of_int_d_def fl_of_int)
  note lo = rat_of_int_bounds(1) [OF assms] and hi = rat_of_int_bounds(2) [OF assms]
  have "(of_int i :: rat) / 10 \<noteq> 0" using assms(1) by simp
  moreover have "1 / 2 ^ 1000 \<le> \<bar>(of_int i :: rat) / 10\<bar>"
  proof -
    have "(1 :: rat) / 2 ^ 1000 \<le> 1 / 10" by simp
    also have "\<dots> \<le> \<bar>of_int i / 10\<bar>" using lo by simp
    finally show ?thesis .
  qed
  moreover have "\<bar>(of_int i :: rat) / 10\<bar> \<le> 2 ^ 1000"
  proof -
    have "\<bar>(of_int i :: rat) / 10\<bar> \<le> 2 ^ 20" using hi by simp
    also have "\<dots> \<le> (2 :: rat) ^ 1000" by simp
    finally show ?thesis .
  qed
  ultimately obtain r where "fl (of_int i / 10) = Fin r" "\<bar>r - of_int i / 10\<bar> \<le> \<bar>of_int i / 10\<bar> / 2 ^ 53"
    by (rule fl_near)
  then show ?thesis by (intro that [of r]) (simp_all add: tenths_def i)
qed

lemma int_round_tenths: "\<bar>i\<bar> < 2 ^ 20 \<Longrightarrow> int_round (dmul (tenths i) (Fin 10)) = Some i"
proof (cases "i = 0")
  case True
  then show ?thesis using round_away_eqI [of 0 0] by (simp add: tenths_def of_int_d_def int_round_def Let_def)
next
  case False
  assume small: "\<bar>i\<bar> < 2 ^ 20"
  define x :: rat where "x = of_int i"
  have x: "1 \<le> \<bar>x\<bar>" "\<bar>x\<bar> \<le> 1048576" using rat_of_int_bounds [OF False small] by (simp_all add: x_def)
  obtain r where r: "tenths i = Fin r" "\<bar>r - x / 10\<bar> \<le> \<bar>x\<bar> / 10 / 2 ^ 53"
    using tenths_near [OF False small] by (auto simp: x_def)
  have d1: "\<bar>r * 10 - x\<bar> \<le> \<bar>x\<bar> / 2 ^ 53"
  proof -
    have "\<bar>(r - x / 10) * 10\<bar> \<le> \<bar>x\<bar> / 10 / 2 ^ 53 * 10" using r(2) by (simp only: abs_mult) simp
    then show ?thesis by (simp add: left_diff_distrib)
  qed
  have e1: "\<bar>x\<bar> / 2 ^ 53 \<le> 1 / 8"
    using x(2) by simp
  have lo: "1 / 2 \<le> \<bar>r * 10\<bar>" and hi: "\<bar>r * 10\<bar> \<le> 2097152"
    using d1 e1 x by linarith+
  have "1 / 2 ^ 1000 \<le> \<bar>r * 10\<bar>" using lo by (rule order_trans [rotated]) simp
  moreover have "\<bar>r * 10\<bar> \<le> 2 ^ 1000" using hi by (rule order_trans) simp
  moreover have "r * 10 \<noteq> 0" using lo by auto
  ultimately obtain q where q: "fl (r * 10) = Fin q" "\<bar>q - r * 10\<bar> \<le> \<bar>r * 10\<bar> / 2 ^ 53"
    by (metis fl_near)
  have "\<bar>r * 10\<bar> / 2 ^ 53 \<le> 1 / 8" using hi by simp
  with q(2) d1 e1 have "\<bar>x - q\<bar> < 1 / 2" by linarith
  then have "round_away q = i" unfolding x_def by (rule round_away_eqI)
  moreover have "- (2 ^ 31) \<le> i \<and> i < 2 ^ 31" using small by (simp add: abs_if split: if_splits)
  ultimately show ?thesis by (simp add: r(1) q(1) int_round_def Let_def)
qed

section \<open>The tuner contract\<close>

text \<open>
  What the daemon relies on in librtlsdr's gain control: a gain of the published table is applied as it
  is, whatever is asked for lands on the table, and the table does not depend on the settings.
\<close>

locale tuner =
  fixes lib :: "'d librtlsdr"
  assumes table_stable: "rtlsdr_get_tuner_gains lib (snd (rtlsdr_set_tuner_gain_mode lib m d)) = rtlsdr_get_tuner_gains lib d"
    and applies_listed: "t \<in> set (rtlsdr_get_tuner_gains lib d) \<Longrightarrow>
      rtlsdr_get_tuner_gain lib (snd (rtlsdr_set_tuner_gain lib t d)) = t"
    and lands_on_table: "rtlsdr_get_tuner_gains lib d \<noteq> [] \<Longrightarrow>
      rtlsdr_get_tuner_gain lib (snd (rtlsdr_set_tuner_gain lib t d)) \<in> set (rtlsdr_get_tuner_gains lib d)"
    and table_small: "t \<in> set (rtlsdr_get_tuner_gains lib d) \<Longrightarrow> \<bar>t\<bar> \<le> 1000"
begin

lemma set_gain_listed:
  assumes "s_dev g" and "t \<in> set (rtlsdr_get_tuner_gains lib (r_device g))"
  shows "\<exists>g'. rtl_set_gain lib (tenths t) g = Some (tenths t, g') \<and> g_gain_tenth_db g' = t"
proof -
  have "\<bar>t\<bar> < 2 ^ 20" using table_small [OF assms(2)] by simp
  then have "int_round (dmul (tenths t) (Fin 10)) = Some t" by (rule int_round_tenths)
  moreover have "rtlsdr_get_tuner_gain lib (snd (rtlsdr_set_tuner_gain lib t
      (snd (rtlsdr_set_tuner_gain_mode lib 1 (r_device g))))) = t"
    using assms(2) by (intro applies_listed) (simp add: table_stable)
  ultimately show ?thesis using assms(1) by (simp add: rtl_set_gain_def Let_def)
qed

lemma set_gain_on_table:
  assumes "s_dev g" and "rtlsdr_get_tuner_gains lib (r_device g) \<noteq> []" and "rtl_set_gain lib v g = Some (a, g')"
  shows "g_gain_tenth_db g' \<in> set (rtlsdr_get_tuner_gains lib (r_device g))" and "a = tenths (g_gain_tenth_db g')"
  using assms lands_on_table [of "snd (rtlsdr_set_tuner_gain_mode lib 1 (r_device g))"]
  by (auto simp: rtl_set_gain_def Let_def table_stable split: option.splits)

end

section \<open>The fake librtlsdr\<close>

record stub =
  st_open :: bool
  st_freq :: u32
  st_rate :: u32
  st_gain :: int
  st_gain_mode :: int
  st_agc :: int
  st_bias :: int
  st_ppm :: int
  st_ds :: int
  st_async :: bool

definition stub_init :: stub where
  "stub_init = \<lparr>st_open = False, st_freq = 100000000, st_rate = 2048000, st_gain = 200, st_gain_mode = 1,
     st_agc = 0, st_bias = 0, st_ppm = 0, st_ds = 0, st_async = False\<rparr>"

definition stub_gains :: "int list" where
  "stub_gains = [0, 9, 14, 27, 37, 77, 87, 125, 144, 157, 166, 197, 207, 229,
    254, 280, 297, 328, 338, 364, 372, 386, 402, 421, 434, 439, 445, 480, 496]"

text \<open>\<open>(uint32_t)(115200000.0 / x + 0.5)\<close>, the clock divider arithmetic.\<close>

definition stub_divide :: "u32 \<Rightarrow> u32" where
  "stub_divide x =
     (case dadd (ddiv (Fin 115200000) (of_int_d (uint x))) (Fin (1 / 2)) of
        Fin q \<Rightarrow> of_int (trunc q) | _ \<Rightarrow> 0)"

definition stub_set_sample_rate :: "u32 \<Rightarrow> stub \<Rightarrow> int \<times> stub" where
  "stub_set_sample_rate rate st =
     (let ratio = (stub_divide rate AND NOT 3); ratio = (if ratio = 0 then 4 else ratio)
      in (0, st\<lparr>st_rate := stub_divide ratio\<rparr>))"

definition nearest :: "int \<Rightarrow> int list \<Rightarrow> int \<Rightarrow> int" where
  "nearest gain gs b = foldl (\<lambda>best x. if \<bar>x - gain\<bar> < \<bar>best - gain\<bar> then x else best) b gs"

definition stub_set_tuner_gain :: "int \<Rightarrow> stub \<Rightarrow> int \<times> stub" where
  "stub_set_tuner_gain gain st = (0, st\<lparr>st_gain := nearest gain stub_gains (hd stub_gains)\<rparr>)"

definition stub_lib :: "stub librtlsdr" where
  "stub_lib = \<lparr>
     rtlsdr_open = \<lambda>st. (0, st\<lparr>st_open := True\<rparr>),
     rtlsdr_close = \<lambda>st. st\<lparr>st_open := False\<rparr>,
     rtlsdr_set_center_freq = \<lambda>f st. (0, st\<lparr>st_freq := f\<rparr>),
     rtlsdr_get_center_freq = st_freq,
     rtlsdr_set_sample_rate = stub_set_sample_rate,
     rtlsdr_get_sample_rate = st_rate,
     rtlsdr_set_tuner_gain_mode = \<lambda>m st. (0, st\<lparr>st_gain_mode := m\<rparr>),
     rtlsdr_set_tuner_gain = stub_set_tuner_gain,
     rtlsdr_get_tuner_gain = st_gain,
     rtlsdr_get_tuner_gains = \<lambda>st. stub_gains,
     rtlsdr_set_agc_mode = \<lambda>a st. (0, st\<lparr>st_agc := a\<rparr>),
     rtlsdr_set_bias_tee = \<lambda>b st. (0, st\<lparr>st_bias := b\<rparr>),
     rtlsdr_set_freq_correction = \<lambda>p st. (0, st\<lparr>st_ppm := p\<rparr>),
     rtlsdr_set_direct_sampling = \<lambda>b st. (0, st\<lparr>st_ds := b\<rparr>),
     rtlsdr_reset_buffer = \<lambda>st. (0, st),
     rtlsdr_cancel_async = \<lambda>st. (0, st\<lparr>st_async := False\<rparr>)\<rparr>"

lemma nearest_in: "nearest gain gs b \<in> insert b (set gs)"
proof (induction gs arbitrary: b)
  case (Cons x gs)
  from Cons [of x] Cons [of b] show ?case by (auto simp: nearest_def)
qed (simp add: nearest_def)

lemma nearest_self: "nearest t gs t = t"
  by (induction gs) (simp_all add: nearest_def)

lemma nearest_hit: "t \<in> set gs \<Longrightarrow> nearest t gs b = t"
proof (induction gs arbitrary: b)
  case (Cons x gs)
  then show ?case
    by (cases "x = t"; cases "b = t") (auto simp: nearest_def nearest_self [unfolded nearest_def])
qed simp

interpretation stub_tuner: tuner stub_lib
proof unfold_locales
  fix t and d :: stub
  show "\<bar>t\<bar> \<le> 1000" if "t \<in> set (rtlsdr_get_tuner_gains stub_lib d)"
    using that by (auto simp: stub_lib_def stub_gains_def)
  show "rtlsdr_get_tuner_gain stub_lib (snd (rtlsdr_set_tuner_gain stub_lib t d)) \<in> set (rtlsdr_get_tuner_gains stub_lib d)"
    using nearest_in [of t stub_gains "hd stub_gains"] by (simp add: stub_lib_def stub_set_tuner_gain_def stub_gains_def)
qed (simp_all add: stub_lib_def stub_set_tuner_gain_def nearest_hit)

section \<open>Properties\<close>



text \<open>
  C30: The ADC statistics of a buffer of up to 4 GiB are exact: the 64-bit sum of squares, the count and the
  clip count of the sampled bytes do not wrap, and the overload flag is raised exactly when at least 100 per million
  of the sampled bytes sit on a rail.
\<close>

theorem adc_level_exact:
  assumes "buf \<noteq> []" and "length buf < 2 ^ 32"
  shows "unat (s_adc_sumsq (fst (measure_adc_level m t buf g))) = sum_list (map sq_dev (every RTL_ADC_STRIDE buf))
    \<and> unat (s_adc_n (fst (measure_adc_level m t buf g))) = (length buf + 7) div 8
    \<and> (g_adc_overload (fst (measure_adc_level m t buf g)) \<longleftrightarrow>
         100 * length (every RTL_ADC_STRIDE buf) \<le> 1000000 * length (filter clipped (every RTL_ADC_STRIDE buf)))"
proof -
  note ex = adc_accumulate_exact [OF assms(2)] and ov = measure_overload [OF assms, of m t g]
  have n: "length (every RTL_ADC_STRIDE buf) = (length buf + 7) div 8" by (simp add: length_every RTL_ADC_STRIDE_def)
  have "0 < length (every RTL_ADC_STRIDE buf)" using assms(1) unfolding n by (cases buf) auto
  then have "acc_n (adc_accumulate buf) \<noteq> 0" using ex(2) by auto
  then have "s_adc_sumsq (fst (measure_adc_level m t buf g)) = acc_sumsq (adc_accumulate buf)"
    "s_adc_n (fst (measure_adc_level m t buf g)) = acc_n (adc_accumulate buf)"
    using assms(1) by (simp_all add: measure_adc_level_def Let_def)
  then show ?thesis using ex(1,2) ov n by simp
qed

theorem adc_level_exact_witness:
  "unat (s_adc_sumsq (fst (measure_adc_level \<lparr>m_sqrt = \<lambda>x. x, m_log10 = \<lambda>x. x\<rparr> 0 [255, 128, 128] (rtl_globals stub_init)))) = 16129
    \<and> g_adc_overload (fst (measure_adc_level \<lparr>m_sqrt = \<lambda>x. x, m_log10 = \<lambda>x. x\<rparr> 0 [255, 128, 128] (rtl_globals stub_init)))"
proof -
  have "every RTL_ADC_STRIDE [255, 128, 128 :: u8] = [255]" by (simp add: RTL_ADC_STRIDE_def)
  then show ?thesis
    using adc_level_exact [of "[255, 128, 128]" "\<lparr>m_sqrt = \<lambda>x. x, m_log10 = \<lambda>x. x\<rparr>" 0 "rtl_globals stub_init"]
    by (simp add: sq_dev_def clipped_def RTL_ADC_CLIP_LOW_def RTL_ADC_CLIP_HIGH_def)
qed

text \<open>
  C31: However the signal behaves, overload events of a run of buffers with a monotone clock are at least one second apart.
\<close>

theorem overload_events_sparse:
  assumes "sorted_wrt (\<le>) (map fst bufs)" and "\<forall>x \<in> set bufs. s_last_overload_ms g \<le> fst x"
  shows "sorted_wrt (\<lambda>a b. unat a + 1000 \<le> unat b) (overload_times m bufs g)"
  using assms by (rule overload_times_sparse)

theorem overload_events_sparse_witness:
  "sorted_wrt (\<lambda>a b. unat a + 1000 \<le> unat b)
     (overload_times \<lparr>m_sqrt = \<lambda>x. x, m_log10 = \<lambda>x. x\<rparr> [(2000, [255]), (2100, [128]), (2200, [255]), (2300, [128]), (3300, [255])]
        (rtl_set_overload_handler (rtl_globals stub_init)))"
  by (rule overload_events_sparse) (simp_all add: rtl_set_overload_handler_def rtl_globals_def)

text \<open>
  For a tuner that applies the gains it lists, asking for a published gain step (a tenth of the table entry, as the
  capabilities print it) selects exactly that step: rounding through \<open>double\<close> never lands on a neighbour.
\<close>

theorem published_gain_applied:
  assumes "tuner lib" and "s_dev g" and "t \<in> set (rtlsdr_get_tuner_gains lib (r_device g))"
  shows "\<exists>g'. rtl_set_gain lib (tenths t) g = Some (tenths t, g') \<and> g_gain_tenth_db g' = t"
  using tuner.set_gain_listed [OF assms] .

theorem published_gain_applied_witness:
  "\<exists>g'. rtl_set_gain stub_lib (tenths 197) ((rtl_globals stub_init)\<lparr>s_dev := True\<rparr>) = Some (tenths 197, g') \<and> g_gain_tenth_db g' = 197"
  by (rule published_gain_applied [OF stub_tuner.tuner_axioms]) (simp_all add: stub_lib_def stub_gains_def)

end
