(* ===== verification/Vita_Tx.thy ===== *)
theory Vita_Tx
  imports Rtl_Bridge
begin

text \<open>
  The VITA-49 sender of \<open>vita/vita_tx.c\<close>: the packet builders, the table of stream sessions with their packet
  and sample counters, the emission of Context packets, and the USB callback that turns a buffer into IF Data
  packets. A datagram is what is handed to the socket: destination address, port and bytes.
\<close>

section \<open>Constants and session table\<close>

definition VRT_IF_DATA_BASE :: u32 where "VRT_IF_DATA_BASE = 0x18600000"
definition CLASS_ID_W0 :: u32 where "CLASS_ID_W0 = 0x00402814"
definition CLASS_ID_W1 :: u32 where "CLASS_ID_W1 = 0x00000001"
definition VRT_CTX_HDR_BASE :: u32 where "VRT_CTX_HDR_BASE = 0x40000000"
definition MAX_VITA_SESSIONS :: nat where "MAX_VITA_SESSIONS = 4"
definition VITA_HDR_BYTES :: nat where "VITA_HDR_BYTES = 28"
definition VITA_MMSG_MAX_PKTS :: nat where "VITA_MMSG_MAX_PKTS = 1024"

datatype iq_format_t = IQ_FMT_INT16 | IQ_FMT_U8

record VitaSession =
  vs_active :: bool
  vs_stream_id :: string
  vs_vita_stream_id :: u32
  vs_dest_ip :: u32
  vs_dest_port :: u16
  vs_fmt :: iq_format_t
  vs_payload_fmt_word0 :: u32
  vs_if_pkt_count :: u8
  vs_ctx_pkt_count :: u8
  vs_ctx_sent :: bool
  vs_ctx_last_ref_word :: u32
  vs_ctx_last_pf_word0 :: u32
  vs_sample_count :: u64
  vs_cb_count :: u64
  vs_epoch_at_start :: u32
  vs_rate_hz_anchor :: u64

text \<open>The zeroed entry \<open>memset\<close> leaves; \<open>IQ_FMT_INT16\<close> is the enumerator 0.\<close>

definition vita_zero :: VitaSession where
  "vita_zero = \<lparr>vs_active = False, vs_stream_id = [], vs_vita_stream_id = 0, vs_dest_ip = 0, vs_dest_port = 0,
     vs_fmt = IQ_FMT_INT16, vs_payload_fmt_word0 = 0, vs_if_pkt_count = 0, vs_ctx_pkt_count = 0,
     vs_ctx_sent = False, vs_ctx_last_ref_word = 0, vs_ctx_last_pf_word0 = 0, vs_sample_count = 0,
     vs_cb_count = 0, vs_epoch_at_start = 0, vs_rate_hz_anchor = 0\<rparr>"

record vita =
  vt_sessions :: "VitaSession list"
  vt_sock :: bool
  vt_context_enabled :: bool

type_synonym datagram = "u32 \<times> u16 \<times> u8 list"

section \<open>Sample conversion\<close>

text \<open>Single precision: round to 24 bits. The values here are far from the limits of the format.\<close>

definition flt :: "rat \<Rightarrow> rat" where
  "flt x = round_to 24 (- 149) x"

definition u8_sample :: "u8 \<Rightarrow> int" where
  "u8_sample u =
     (let f = flt (flt (of_int (uint u) - flt (1274 / 10)) * flt (flt 32767 / flt 128));
          f = (if 32767 < f then 32767 else f);
          f = (if f < - 32768 then - 32768 else f)
      in trunc f)"

text \<open>The half-word \<open>u8_to_int16_be\<close> returns: the two octets of the sample exchanged.\<close>

definition u8_to_int16_be :: "u8 \<Rightarrow> u16" where
  "u8_to_int16_be u =
     (let v = (of_int (u8_sample u) :: u16)
      in (push_bit 8 (v AND 0xFF) OR (drop_bit 8 v AND 0xFF)))"

text \<open>A half-word stored by a little-endian host.\<close>

definition le16 :: "u16 \<Rightarrow> u8 list" where
  "le16 w = [ucast w, ucast (drop_bit 8 w)]"

section \<open>Packet builders\<close>

definition if_payload_words :: "u16 \<Rightarrow> iq_format_t \<Rightarrow> u16" where
  "if_payload_words num_pairs fmt =
     (case fmt of IQ_FMT_INT16 \<Rightarrow> num_pairs | IQ_FMT_U8 \<Rightarrow> of_nat ((unat (num_pairs * 2) + 3) div 4))"

definition if_header :: "u8 \<Rightarrow> u16 \<Rightarrow> u32" where
  "if_header pkt_count pkt_size =
     (VRT_IF_DATA_BASE OR push_bit 16 (ucast (pkt_count AND 0xF)) OR ucast pkt_size)"

definition if_payload :: "u8 list \<Rightarrow> u16 \<Rightarrow> iq_format_t \<Rightarrow> u8 list" where
  "if_payload iq num_pairs fmt =
     (let n = 2 * unat num_pairs in
      case fmt of
        IQ_FMT_INT16 \<Rightarrow> concat (map (\<lambda>u. le16 (u8_to_int16_be u)) (take n iq))
      | IQ_FMT_U8 \<Rightarrow> take n iq @ (if n mod 4 \<noteq> 0 then replicate (4 - n mod 4) 0 else []))"

definition vita_build_if_data_packet ::
    "u32 \<Rightarrow> u8 \<Rightarrow> u32 \<Rightarrow> u64 \<Rightarrow> u8 list \<Rightarrow> u16 \<Rightarrow> iq_format_t \<Rightarrow> u8 list" where
  "vita_build_if_data_packet stream_id pkt_count tsi tsf_picos iq num_pairs fmt =
     concat (map be32
       [if_header pkt_count (7 + if_payload_words num_pairs fmt), stream_id, CLASS_ID_W0, CLASS_ID_W1, tsi,
        ucast (drop_bit 32 tsf_picos), ucast (tsf_picos AND 0xFFFFFFFF)])
     @ if_payload iq num_pairs fmt"

text \<open>
  \<open>vita_encode_reference_level\<close>: Q9.7 with halves away from zero, through double arithmetic. The daemon never
  passes a value that is not a number.
\<close>

definition clamp_q :: "double \<Rightarrow> double" where
  "clamp_q x =
     (let x = (if dless (Fin 32767) x then Fin 32767 else x)
      in if dless x (Fin (- 32768)) then Fin (- 32768) else x)"

definition vita_encode_reference_level :: "double \<Rightarrow> u32" where
  "vita_encode_reference_level dbm =
     (let scaled = clamp_q (dmul dbm (Fin 128));
          q = (case (if dless scaled (Fin 0) then dsub scaled (Fin (1 / 2)) else dadd scaled (Fin (1 / 2))) of
                 Fin r \<Rightarrow> trunc r | _ \<Rightarrow> 0)
      in ucast (of_int q :: u16))"

definition vita_build_context_packet :: "u32 \<Rightarrow> u8 \<Rightarrow> u32 \<Rightarrow> double \<Rightarrow> bool \<Rightarrow> u8 list" where
  "vita_build_context_packet stream_id pkt_count payload_fmt_word0 reference_level_dbm changed =
     (let cif0 = (VITA_CIF0_BASE OR (if changed then VITA_CIF0_CHANGED else 0));
          hdr = (VRT_CTX_HDR_BASE OR push_bit 16 (ucast (pkt_count AND 0xF)) OR VITA_CTX_PKT_SIZE_WORDS)
      in concat (map be32 [hdr, stream_id, cif0, vita_encode_reference_level reference_level_dbm,
                           payload_fmt_word0, 0]))"

section \<open>Context packets\<close>

definition vita_set_context_packets :: "bool \<Rightarrow> vita \<Rightarrow> vita" where
  "vita_set_context_packets enable v = v\<lparr>vt_context_enabled := enable\<rparr>"

text \<open>
  \<open>send_context_locked\<close> for one table entry: the entry afterwards and the packet, if any; \<open>gain\<close> is
  \<open>g_gain_tenth_db\<close>. A packet for a closed socket goes nowhere, but the counters still move.
\<close>

definition context_entry :: "bool \<Rightarrow> bool \<Rightarrow> int \<Rightarrow> VitaSession \<Rightarrow> VitaSession \<times> datagram list" where
  "context_entry sock enabled gain sess =
     (if \<not> vs_active sess \<or> \<not> enabled then (sess, [])
      else let ref_dbm = rtl_reference_level_dbm (tenths gain);
               ref_word = vita_encode_reference_level ref_dbm;
               changed = (\<not> vs_ctx_sent sess \<or> ref_word \<noteq> vs_ctx_last_ref_word sess
                          \<or> vs_payload_fmt_word0 sess \<noteq> vs_ctx_last_pf_word0 sess);
               pkt = vita_build_context_packet (vs_vita_stream_id sess) (vs_ctx_pkt_count sess)
                       (vs_payload_fmt_word0 sess) ref_dbm changed
           in (sess\<lparr>vs_ctx_pkt_count := (vs_ctx_pkt_count sess + 1) AND 0xF, vs_ctx_sent := True,
                    vs_ctx_last_ref_word := ref_word, vs_ctx_last_pf_word0 := vs_payload_fmt_word0 sess\<rparr>,
               if sock then [(vs_dest_ip sess, vs_dest_port sess, pkt)] else []))"

definition send_context_locked :: "int \<Rightarrow> nat \<Rightarrow> vita \<Rightarrow> vita \<times> datagram list" where
  "send_context_locked gain token v =
     (case context_entry (vt_sock v) (vt_context_enabled v) gain (vt_sessions v ! token) of
        (sess, ds) \<Rightarrow> (v\<lparr>vt_sessions := (vt_sessions v)[token := sess]\<rparr>, ds))"

definition vita_send_context_packet :: "int \<Rightarrow> int \<Rightarrow> vita \<Rightarrow> vita \<times> datagram list" where
  "vita_send_context_packet gain token v =
     (if token < 0 \<or> int MAX_VITA_SESSIONS \<le> token \<or> \<not> vt_sock v then (v, [])
      else send_context_locked gain (nat token) v)"

text \<open>\<open>vita_send_context_all\<close>: the loop over the table.\<close>

fun context_loop :: "int \<Rightarrow> nat list \<Rightarrow> vita \<Rightarrow> vita \<times> datagram list" where
  "context_loop gain [] v = (v, [])"
| "context_loop gain (i # is) v =
     (let (v, ds) = (if vs_active (vt_sessions v ! i) then send_context_locked gain i v else (v, []));
          (v, ds') = context_loop gain is v
      in (v, ds @ ds'))"

definition vita_send_context_all :: "int \<Rightarrow> vita \<Rightarrow> vita \<times> datagram list" where
  "vita_send_context_all gain v =
     (if \<not> vt_sock v then (v, []) else context_loop gain [0..<MAX_VITA_SESSIONS] v)"

section \<open>The USB callback\<close>

definition tsi_of :: "VitaSession \<Rightarrow> u32" where
  "tsi_of sess =
     vs_epoch_at_start sess
       + ucast (if vs_rate_hz_anchor sess \<noteq> 0 then vs_sample_count sess div vs_rate_hz_anchor sess else 0)"

definition tsf_of :: "VitaSession \<Rightarrow> u64" where
  "tsf_of sess =
     (if vs_rate_hz_anchor sess \<noteq> 0
      then ((vs_sample_count sess mod vs_rate_hz_anchor sess) * 1000000000000) div vs_rate_hz_anchor sess else 0)"

text \<open>One pass of the build loop: the packet of one chunk and the advanced counters.\<close>

definition send_chunk :: "VitaSession \<Rightarrow> u8 list \<Rightarrow> VitaSession \<times> datagram" where
  "send_chunk sess chunk =
     (sess\<lparr>vs_if_pkt_count := (vs_if_pkt_count sess + 1) AND 0xF,
           vs_sample_count := vs_sample_count sess + of_nat VITA_SAMPLES_PER_PKT\<rparr>,
      (vs_dest_ip sess, vs_dest_port sess,
       vita_build_if_data_packet (vs_vita_stream_id sess) (vs_if_pkt_count sess) (tsi_of sess) (tsf_of sess)
         chunk (of_nat VITA_SAMPLES_PER_PKT) (vs_fmt sess)))"

fun send_chunks :: "VitaSession \<Rightarrow> u8 list list \<Rightarrow> VitaSession \<times> datagram list" where
  "send_chunks sess [] = (sess, [])"
| "send_chunks sess (c # cs) =
     (let (sess, d) = send_chunk sess c; (sess, ds) = send_chunks sess cs in (sess, d # ds))"

definition bytes_per_pkt :: nat where "bytes_per_pkt = VITA_SAMPLES_PER_PKT * 2"

definition num_pkts :: "nat \<Rightarrow> nat" where
  "num_pkts len = min (len div bytes_per_pkt) VITA_MMSG_MAX_PKTS"

definition callback_entry :: "u8 list \<Rightarrow> VitaSession \<Rightarrow> VitaSession \<times> datagram list" where
  "callback_entry buf sess =
     (if \<not> vs_active sess then (sess, [])
      else let (sess, ds) = send_chunks sess (chunks bytes_per_pkt (num_pkts (length buf)) buf)
           in (sess\<lparr>vs_cb_count := vs_cb_count sess + 1\<rparr>, ds))"

definition vita_send_callback :: "u8 list \<Rightarrow> vita \<Rightarrow> vita \<times> datagram list" where
  "vita_send_callback buf v =
     (if \<not> vt_sock v \<or> num_pkts (length buf) = 0 then (v, [])
      else let rs = map (callback_entry buf) (vt_sessions v)
           in (v\<lparr>vt_sessions := map fst rs\<rparr>, concat (map snd rs)))"

section \<open>Session registration\<close>

text \<open>\<open>now\<close> is \<open>time(NULL)\<close> and \<open>rate\<close> is \<open>g_rate_sps\<close>; the result is the token, \<open>-1\<close> when the table is full.\<close>

definition vita_new_session ::
    "u32 \<Rightarrow> u32 \<Rightarrow> string \<Rightarrow> u32 \<Rightarrow> u32 \<Rightarrow> u16 \<Rightarrow> iq_format_t \<Rightarrow> u32 \<Rightarrow> VitaSession \<Rightarrow> VitaSession" where
  "vita_new_session now rate stream_id vita_stream_id dest_ip dest_port fmt payload_fmt_word0 s =
     s\<lparr>vs_active := True, vs_vita_stream_id := vita_stream_id, vs_dest_ip := dest_ip, vs_dest_port := dest_port,
       vs_fmt := fmt, vs_payload_fmt_word0 := payload_fmt_word0, vs_if_pkt_count := 0, vs_ctx_pkt_count := 0,
       vs_ctx_sent := False, vs_sample_count := 0, vs_cb_count := 0, vs_epoch_at_start := now,
       vs_rate_hz_anchor := ucast rate, vs_stream_id := snprintf 32 stream_id\<rparr>"

definition vita_session_add ::
    "int \<Rightarrow> u32 \<Rightarrow> u32 \<Rightarrow> string \<Rightarrow> u32 \<Rightarrow> u32 \<Rightarrow> u16 \<Rightarrow> iq_format_t \<Rightarrow> u32 \<Rightarrow> vita
       \<Rightarrow> int \<times> vita \<times> datagram list" where
  "vita_session_add gain now rate stream_id vita_stream_id dest_ip dest_port fmt payload_fmt_word0 v =
     (case find_slot (\<lambda>s. \<not> vs_active s) (vt_sessions v) of
        None \<Rightarrow> (- 1, v, [])
      | Some i \<Rightarrow>
          let s = vita_new_session now rate stream_id vita_stream_id dest_ip dest_port fmt payload_fmt_word0
                    (vt_sessions v ! i);
              (v, ds) = send_context_locked gain i (v\<lparr>vt_sessions := (vt_sessions v)[i := s]\<rparr>)
          in (int i, v, ds))"

definition vita_update_payload_format :: "u32 \<Rightarrow> vita \<Rightarrow> vita" where
  "vita_update_payload_format w v =
     v\<lparr>vt_sessions := map (\<lambda>s. if vs_active s then s\<lparr>vs_payload_fmt_word0 := w\<rparr> else s) (vt_sessions v)\<rparr>"

definition vita_session_remove :: "int \<Rightarrow> vita \<Rightarrow> vita" where
  "vita_session_remove token v =
     (if token < 0 \<or> int MAX_VITA_SESSIONS \<le> token then v
      else v\<lparr>vt_sessions := (vt_sessions v)[nat token := vita_zero]\<rparr>)"

section \<open>Lifecycle\<close>

text \<open>\<open>socket_ok\<close> is whether \<open>socket\<close> succeeds; a failed \<open>bind\<close> is only logged.\<close>

definition vita_tx_init :: "bool \<Rightarrow> vita \<Rightarrow> int \<times> vita" where
  "vita_tx_init socket_ok v =
     (let v = v\<lparr>vt_sessions := replicate MAX_VITA_SESSIONS vita_zero, vt_sock := socket_ok\<rparr>
      in (if socket_ok then 0 else - 1, v))"

definition vita_tx_destroy :: "vita \<Rightarrow> vita" where
  "vita_tx_destroy v = v\<lparr>vt_sock := False\<rparr>"

definition vita_globals :: vita where
  "vita_globals = \<lparr>vt_sessions = replicate MAX_VITA_SESSIONS vita_zero, vt_sock = False, vt_context_enabled = True\<rparr>"

section \<open>Header fields\<close>

lemma if_base_shift: "VRT_IF_DATA_BASE = push_bit 20 0x186"
  by (simp add: VRT_IF_DATA_BASE_def push_bit_eq_mult)

lemma ctx_base_shift: "VRT_CTX_HDR_BASE = push_bit 30 1"
  by (simp add: VRT_CTX_HDR_BASE_def push_bit_eq_mult)

lemma if_base_bits: "n < 20 \<Longrightarrow> \<not> bit VRT_IF_DATA_BASE n"
  unfolding if_base_shift by (simp only: bit_push_bit_iff) auto

lemma high_bits: "LENGTH('a::len) \<le> n \<Longrightarrow> \<not> bit (w :: 'a word) n"
  using bit_imp_le_length by fastforce

lemma nibble_mask: "(0xF :: u32) = mask 4" "(0xF :: u8) = mask 4" "(0xFFFFFFFF :: u64) = mask 32"
  by (simp_all add: mask_eq_exp_minus_1)

lemma if_header_size: "ucast (if_header c sz) = (sz :: u16)"
  unfolding if_header_def by (rule bit_word_eqI) (auto simp: bit_simps if_base_bits)

lemma if_header_count: "ucast (drop_bit 16 (if_header c sz) AND 0xF) = (c AND 0xF :: u8)"
  unfolding if_header_def nibble_mask by (rule bit_word_eqI) (auto simp: bit_simps if_base_bits high_bits)

lemma if_header_type: "drop_bit 28 (if_header c sz) = 1"
proof -
  have "drop_bit 28 (if_header c sz) = drop_bit 28 VRT_IF_DATA_BASE"
    unfolding if_header_def nibble_mask by (rule bit_word_eqI) (auto simp: bit_simps high_bits)
  then show ?thesis by (simp add: VRT_IF_DATA_BASE_def drop_bit_eq_div)
qed

lemma if_payload_length:
  assumes "2 * unat n \<le> length iq" and "unat n < 2 ^ 14"
  shows "length (if_payload iq n fmt) = 4 * unat (if_payload_words n fmt)"
proof (cases fmt)
  case IQ_FMT_INT16
  have "length (concat (map (\<lambda>u. le16 (u8_to_int16_be u)) xs)) = 2 * length xs" for xs
    by (induction xs) (auto simp: le16_def)
  then show ?thesis using assms(1) by (simp add: IQ_FMT_INT16 if_payload_def if_payload_words_def Let_def min_absorb2)
next
  case IQ_FMT_U8
  have "unat (n * 2) = 2 * unat n" using assms(2) by (simp add: unat_word_ariths)
  then have w: "unat (if_payload_words n fmt) = (2 * unat n + 3) div 4"
    using assms(2) by (simp add: IQ_FMT_U8 if_payload_words_def unat_of_nat take_bit_nat_eq_self)
  define k where "k = 2 * unat n"
  have "length (if_payload iq n fmt) = k + (if k mod 4 \<noteq> 0 then 4 - k mod 4 else 0)"
    using assms(1) by (simp add: IQ_FMT_U8 if_payload_def Let_def k_def)
  also have "\<dots> = 4 * ((k + 3) div 4)" by presburger
  finally show ?thesis by (simp add: w k_def)
qed

text \<open>The size field of the header counts the words of the packet, header included.\<close>

lemma if_packet_size:
  assumes "2 * unat n \<le> length iq" and "unat n < 2 ^ 14"
  shows "length (vita_build_if_data_packet sid c tsi tsf iq n fmt) = 4 * unat (7 + if_payload_words n fmt)"
proof -
  have "unat (if_payload_words n fmt) < 2 ^ 14 + 1"
    using assms(2) by (cases fmt) (auto simp: if_payload_words_def unat_of_nat take_bit_nat_eq_self unat_word_ariths)
  then have "unat (7 + if_payload_words n fmt) = 7 + unat (if_payload_words n fmt)"
    by (simp add: unat_word_ariths)
  then show ?thesis
    using if_payload_length [OF assms, of fmt] by (simp add: vita_build_if_data_packet_def)
qed

lemma tsf_words:
  "push_bit 32 (ucast (ucast (drop_bit 32 t) :: u32)) OR ucast (ucast (t AND 0xFFFFFFFF) :: u32) = (t :: u64)"
  unfolding nibble_mask by (rule bit_word_eqI) (auto simp: bit_simps)

section \<open>Timestamps\<close>

text \<open>
  With a rate of at most 18 MS/s the product of the fraction with \<open>10 ^ 12\<close> stays below \<open>2 ^ 64\<close>, so the
  stamp is the sample count divided by the rate, exact to the picosecond.
\<close>

definition stamp_ps :: "VitaSession \<Rightarrow> nat" where
  "stamp_ps sess = (unat (tsi_of sess) - unat (vs_epoch_at_start sess)) * 10 ^ 12 + unat (tsf_of sess)"

lemma tsf_exact:
  assumes "vs_rate_hz_anchor sess \<noteq> 0" and "unat (vs_rate_hz_anchor sess) \<le> 18000000"
  shows "unat (tsf_of sess) = (unat (vs_sample_count sess) mod unat (vs_rate_hz_anchor sess)) * 10 ^ 12
           div unat (vs_rate_hz_anchor sess)"
    and "unat (tsf_of sess) < 10 ^ 12"
proof -
  let ?r = "unat (vs_rate_hz_anchor sess)" and ?c = "unat (vs_sample_count sess)"
  have r: "0 < ?r" using assms(1) by (simp add: unat_gt_0)
  then have m: "?c mod ?r < ?r" by simp
  then have "(?c mod ?r) * 10 ^ 12 < 18000000 * 10 ^ 12"
    using assms(2) by (intro mult_strict_right_mono) auto
  then have "(?c mod ?r) * 1000000000000 < 2 ^ 64" by simp
  then have p: "unat ((vs_sample_count sess mod vs_rate_hz_anchor sess) * 1000000000000) = (?c mod ?r) * 1000000000000"
    by (simp add: unat_word_ariths unat_mod)
  then show f: "unat (tsf_of sess) = (?c mod ?r) * 10 ^ 12 div ?r"
    using assms(1) by (simp add: tsf_of_def unat_div)
  have "(?c mod ?r) * 10 ^ 12 < 10 ^ 12 * ?r" using m by (simp add: mult.commute)
  then show "unat (tsf_of sess) < 10 ^ 12" unfolding f by (rule div_less_iff_less_mult [OF r, THEN iffD2])
qed

lemma stamp_exact:
  assumes r0: "vs_rate_hz_anchor sess \<noteq> 0" and r: "unat (vs_rate_hz_anchor sess) \<le> 18000000"
    and no_wrap: "unat (vs_epoch_at_start sess) + unat (vs_sample_count sess) div unat (vs_rate_hz_anchor sess) < 2 ^ 32"
  shows "stamp_ps sess = unat (vs_sample_count sess) * 10 ^ 12 div unat (vs_rate_hz_anchor sess)"
proof -
  let ?r = "unat (vs_rate_hz_anchor sess)" and ?c = "unat (vs_sample_count sess)"
  have scale: "q * 10 ^ 12 * r + m * 10 ^ 12 = (q * r + m) * 10 ^ 12" for q m r :: nat
    by (simp add: algebra_simps)
  have q: "unat (ucast (vs_sample_count sess div vs_rate_hz_anchor sess) :: u32) = ?c div ?r"
    using no_wrap by (simp add: unsigned_ucast_eq unat_div take_bit_nat_eq_self)
  then have "unat (tsi_of sess) = unat (vs_epoch_at_start sess) + ?c div ?r"
    using r0 no_wrap by (simp add: tsi_of_def unat_word_ariths)
  then have "stamp_ps sess = ?c div ?r * 10 ^ 12 + (?c mod ?r) * 10 ^ 12 div ?r"
    by (simp add: stamp_ps_def tsf_exact(1) [OF r0 r])
  also have "\<dots> = (?c div ?r * 10 ^ 12 * ?r + (?c mod ?r) * 10 ^ 12) div ?r"
    using r0 by (simp add: unat_gt_0)
  also have "?c div ?r * 10 ^ 12 * ?r + (?c mod ?r) * 10 ^ 12 = (?c div ?r * ?r + ?c mod ?r) * 10 ^ 12"
    by (rule scale)
  finally show ?thesis by simp
qed

section \<open>One buffer, one session\<close>

text \<open>The session as it is when the packet of chunk \<open>i\<close> is built.\<close>

definition advance :: "nat \<Rightarrow> VitaSession \<Rightarrow> VitaSession" where
  "advance i sess = sess\<lparr>vs_if_pkt_count := (if i = 0 then vs_if_pkt_count sess else (vs_if_pkt_count sess + of_nat i) AND 0xF),
     vs_sample_count := vs_sample_count sess + of_nat (i * VITA_SAMPLES_PER_PKT)\<rparr>"

definition data_packet :: "VitaSession \<Rightarrow> u8 list \<Rightarrow> datagram" where
  "data_packet sess chunk = snd (send_chunk sess chunk)"

lemma and_nibble_add: "((a AND 0xF) + b) AND 0xF = (a + b :: u8) AND 0xF"
proof -
  have u: "unat (x AND mask 4) = unat x mod 16" for x :: u8
    by (simp add: take_bit_eq_mask [symmetric] take_bit_eq_mod unat_mod)
  have "((unat a mod 16 + unat b) mod 256) mod 16 = ((unat a + unat b) mod 256) mod 16"
    by (simp add: mod_mod_cancel mod_add_left_eq)
  then have "unat (((a AND mask 4) + b) AND mask 4) = unat ((a + b) AND mask 4)"
    by (simp only: u unat_word_ariths) (simp add: u)
  then show ?thesis by (simp only: nibble_mask word_unat_eq_iff)
qed

lemma send_chunk_fst: "fst (send_chunk (advance i sess) c) = advance (Suc i) sess"
proof -
  have "(vs_if_pkt_count (advance i sess) + 1) AND 0xF = (vs_if_pkt_count sess + of_nat (Suc i)) AND 0xF"
  proof (cases i)
    case (Suc j)
    then show ?thesis
      using and_nibble_add [of "vs_if_pkt_count sess + of_nat i" 1] by (simp add: advance_def ac_simps)
  qed (simp add: advance_def)
  then show ?thesis by (simp add: send_chunk_def advance_def algebra_simps)
qed

lemma send_chunks_advance:
  "send_chunks (advance i sess) cs =
     (advance (i + length cs) sess, map (\<lambda>(j, c). data_packet (advance (i + j) sess) c) (zip [0..<length cs] cs))"
proof (induction cs arbitrary: i)
  case (Cons c cs)
  have z: "zip [0..<length (c # cs)] (c # cs) = (0, c) # map (\<lambda>(j, c). (Suc j, c)) (zip [0..<length cs] cs)"
    by (simp add: upt_conv_Cons zip_map1 map_Suc_upt [symmetric] del: upt_Suc map_Suc_upt)
  have "send_chunks (advance i sess) (c # cs) =
     (let (s, ds) = send_chunks (advance (Suc i) sess) cs in (s, data_packet (advance i sess) c # ds))"
    using send_chunk_fst [of i sess c] by (simp add: data_packet_def Let_def case_prod_unfold)
  then show ?case unfolding Cons z by (simp add: case_prod_unfold comp_def)
qed simp

lemma advance_0: "advance 0 sess = sess"
  by (simp add: advance_def)

section \<open>The callback ships the buffer\<close>

definition payload_of :: "datagram \<Rightarrow> u8 list" where
  "payload_of d = drop VITA_HDR_BYTES (snd (snd d))"

lemma num_pkts_bytes: "num_pkts len * bytes_per_pkt \<le> len"
  by (simp add: num_pkts_def min_def) (metis div_times_less_eq_dividend le_trans mult_le_mono1 nle_le)

lemma callback_entry_packets:
  "vs_active sess \<Longrightarrow> snd (callback_entry buf sess) =
     map (\<lambda>(j, c). data_packet (advance j sess) c)
       (zip [0..<num_pkts (length buf)] (chunks bytes_per_pkt (num_pkts (length buf)) buf))"
  using send_chunks_advance [of 0 sess "chunks bytes_per_pkt (num_pkts (length buf)) buf"]
  by (simp add: callback_entry_def advance_0)

lemma callback_entry_session:
  "vs_active sess \<Longrightarrow> fst (callback_entry buf sess) =
     (advance (num_pkts (length buf)) sess)\<lparr>vs_cb_count := vs_cb_count sess + 1\<rparr>"
  using send_chunks_advance [of 0 sess "chunks bytes_per_pkt (num_pkts (length buf)) buf"]
  by (simp add: callback_entry_def advance_0) (simp add: advance_def)

lemma data_packet_payload:
  assumes "length c = bytes_per_pkt" and "vs_fmt sess = IQ_FMT_U8"
  shows "payload_of (data_packet sess c) = c"
proof -
  have "unat (of_nat VITA_SAMPLES_PER_PKT :: u16) = 256" by (simp add: VITA_SAMPLES_PER_PKT_def)
  moreover have "length c = 512" using assms(1) by (simp add: bytes_per_pkt_def VITA_SAMPLES_PER_PKT_def)
  ultimately have "if_payload c (of_nat VITA_SAMPLES_PER_PKT) IQ_FMT_U8 = c"
    by (simp add: if_payload_def Let_def)
  then show ?thesis
    using assms(2) by (simp add: payload_of_def data_packet_def send_chunk_def vita_build_if_data_packet_def VITA_HDR_BYTES_def)
qed

lemma advance_fields [simp]: "vs_fmt (advance i s) = vs_fmt s" "vs_vita_stream_id (advance i s) = vs_vita_stream_id s"
  "vs_dest_ip (advance i s) = vs_dest_ip s" "vs_dest_port (advance i s) = vs_dest_port s"
  "vs_rate_hz_anchor (advance i s) = vs_rate_hz_anchor s" "vs_epoch_at_start (advance i s) = vs_epoch_at_start s"
  "vs_active (advance i s) = vs_active s"
  by (simp_all add: advance_def)

text \<open>The payloads, put end to end, are the buffer up to the last whole packet.\<close>

lemma callback_payload:
  assumes "vs_active sess" and "vs_fmt sess = IQ_FMT_U8"
  shows "concat (map payload_of (snd (callback_entry buf sess))) = take (num_pkts (length buf) * bytes_per_pkt) buf"
proof -
  let ?n = "num_pkts (length buf)" and ?cs = "chunks bytes_per_pkt (num_pkts (length buf)) buf"
  have full: "length c = bytes_per_pkt" if "c \<in> set ?cs" for c
    using chunks_all_full [OF num_pkts_bytes that] .
  have "map payload_of (snd (callback_entry buf sess)) = map snd (zip [0..<?n] ?cs)"
    unfolding callback_entry_packets [OF assms(1)] map_map
  proof (rule map_cong [OF refl])
    fix jc assume jc: "jc \<in> set (zip [0..<?n] ?cs)"
    obtain j c where "jc = (j, c)" by (cases jc)
    with jc full assms(2) set_zip_rightD [of j c] show "(payload_of \<circ> (\<lambda>(j, c). data_packet (advance j sess) c)) jc = snd jc"
      by (simp add: data_packet_payload)
  qed
  also have "\<dots> = ?cs" by simp
  finally show ?thesis by (simp add: concat_chunks)
qed

section \<open>Context packets\<close>

lemma context_word:
  "length (vita_build_context_packet sid c pf r ch) = 24"
  "words_of (vita_build_context_packet sid c pf r ch) =
     [VRT_CTX_HDR_BASE OR push_bit 16 (ucast (c AND 0xF)) OR VITA_CTX_PKT_SIZE_WORDS, sid,
      VITA_CIF0_BASE OR (if ch then VITA_CIF0_CHANGED else 0), vita_encode_reference_level r, pf, 0]"
  unfolding vita_build_context_packet_def Let_def
  using words_of_concat [where r = "[]"] by (simp_all only: concat_be32_length append_Nil2 words_of.simps) simp_all

lemma cif0_changed_bit: "bit (VITA_CIF0_BASE OR (if ch then VITA_CIF0_CHANGED else 0)) 31 \<longleftrightarrow> ch"
  by (cases ch) (simp_all add: VITA_CIF0_BASE_def VITA_CIF0_CHANGED_def VITA_CIF0_REF_LEVEL_def VITA_CIF0_PAYLOAD_FORMAT_def)

text \<open>Whether a packet handed to the socket is a Context packet or IF Data, by its first word.\<close>

definition packet_type :: "datagram \<Rightarrow> u32" where
  "packet_type d = drop_bit 28 (hd (words_of (snd (snd d))))"

lemma data_packet_type: "packet_type (data_packet sess c) = 1"
  by (simp add: packet_type_def data_packet_def send_chunk_def vita_build_if_data_packet_def words_of_be32 if_header_type)

lemma ctx_packet_type: "packet_type (ip, port, vita_build_context_packet sid c pf r ch) = 4"
proof -
  have "drop_bit 28 (VRT_CTX_HDR_BASE OR push_bit 16 (ucast (c AND 0xF)) OR VITA_CTX_PKT_SIZE_WORDS) = drop_bit 28 VRT_CTX_HDR_BASE"
    unfolding nibble_mask
    by (rule bit_word_eqI) (auto simp: bit_simps high_bits VITA_CTX_PKT_SIZE_WORDS_def)
  then show ?thesis
    by (simp add: packet_type_def context_word VRT_CTX_HDR_BASE_def drop_bit_eq_div)
qed

text \<open>
  A registered stream starts with one Context packet, marked changed and numbered 0, to its own destination;
  the rest of the table is untouched.
\<close>

lemma vita_session_add_ok:
  assumes "vita_session_add gain now rate sid vid ip port fmt pf v = (tok, v', ds)" and "0 \<le> tok"
  obtains i where "tok = int i" and "i < length (vt_sessions v)" and "\<not> vs_active (vt_sessions v ! i)"
    and "vs_active (vt_sessions v' ! i)" and "length (vt_sessions v') = length (vt_sessions v)"
    and "\<And>j. j \<noteq> i \<Longrightarrow> vt_sessions v' ! j = vt_sessions v ! j"
    and "vt_sock v' = vt_sock v" and "vt_context_enabled v' = vt_context_enabled v"
    and "ds = (if vt_sock v \<and> vt_context_enabled v
               then [(ip, port, vita_build_context_packet vid 0 pf (rtl_reference_level_dbm (tenths gain)) True)] else [])"
proof -
  from assms obtain i where i: "find_slot (\<lambda>s. \<not> vs_active s) (vt_sessions v) = Some i"
    by (auto simp: vita_session_add_def split: option.splits)
  note fs = find_slot_Some [OF i]
  have "vita_session_add gain now rate sid vid ip port fmt pf v = (tok, v', ds)" by (rule assms(1))
  with i fs show ?thesis
    by (intro that [of i]; simp add: vita_session_add_def send_context_locked_def context_entry_def vita_new_session_def Let_def
        split: prod.splits if_splits) (auto simp: nth_list_update)
qed

text \<open>The change bit says whether the packet carries what the previous one did.\<close>

lemma context_entry_active:
  assumes "vs_active sess" and "en"
  shows "context_entry sock en gain sess =
    (let w = vita_encode_reference_level (rtl_reference_level_dbm (tenths gain)) in
     (sess\<lparr>vs_ctx_pkt_count := (vs_ctx_pkt_count sess + 1) AND 0xF, vs_ctx_sent := True,
        vs_ctx_last_ref_word := w, vs_ctx_last_pf_word0 := vs_payload_fmt_word0 sess\<rparr>,
      if sock then [(vs_dest_ip sess, vs_dest_port sess,
        vita_build_context_packet (vs_vita_stream_id sess) (vs_ctx_pkt_count sess) (vs_payload_fmt_word0 sess)
          (rtl_reference_level_dbm (tenths gain))
          (\<not> (vs_ctx_sent sess \<and> w = vs_ctx_last_ref_word sess \<and> vs_payload_fmt_word0 sess = vs_ctx_last_pf_word0 sess)))]
      else []))"
  using assms by (simp add: context_entry_def Let_def)

lemma four_entries: "length xs = 4 \<Longrightarrow> \<exists>a b c d. xs = [a, b, c, d]"
  by (auto simp: numeral_eq_Suc length_Suc_conv)

lemma context_entry_inactive: "\<not> vs_active s \<Longrightarrow> context_entry k en g s = (s, [])"
  by (simp add: context_entry_def)

lemma vita_send_context_all_eq:
  assumes "length (vt_sessions v) = MAX_VITA_SESSIONS" and "vt_sock v"
  shows "vita_send_context_all gain v =
    (v\<lparr>vt_sessions := map (\<lambda>s. fst (context_entry True (vt_context_enabled v) gain s)) (vt_sessions v)\<rparr>,
     concat (map (\<lambda>s. snd (context_entry True (vt_context_enabled v) gain s)) (vt_sessions v)))"
proof -
  obtain a b c d where s: "vt_sessions v = [a, b, c, d]"
    using four_entries [of "vt_sessions v"] assms(1) by (auto simp: MAX_VITA_SESSIONS_def)
  have "[0..<MAX_VITA_SESSIONS] = [0, 1, 2, 3]" by (simp add: MAX_VITA_SESSIONS_def upt_conv_Cons)
  moreover obtain a' da b' db c' dc d' dd where
    "context_entry True (vt_context_enabled v) gain a = (a', da)" "context_entry True (vt_context_enabled v) gain b = (b', db)"
    "context_entry True (vt_context_enabled v) gain c = (c', dc)" "context_entry True (vt_context_enabled v) gain d = (d', dd)"
    by (metis surj_pair)
  moreover from this have "\<not> vs_active a \<Longrightarrow> a' = a \<and> da = []" "\<not> vs_active b \<Longrightarrow> b' = b \<and> db = []"
      "\<not> vs_active c \<Longrightarrow> c' = c \<and> dc = []" "\<not> vs_active d \<Longrightarrow> d' = d \<and> dd = []"
    by (simp_all add: context_entry_inactive)
  moreover have "v\<lparr>vt_sessions := [a, b, c, d]\<rparr> = v" using s by (cases v) simp
  ultimately show ?thesis
    using assms(2) s
    by (simp add: vita_send_context_all_def send_context_locked_def Let_def)
qed

section \<open>Reference Level\<close>

lemma fl_error:
  assumes "1 / 4 \<le> \<bar>x\<bar>" and "\<bar>x\<bar> \<le> 1048576"
  obtains r where "fl x = Fin r" and "\<bar>r - x\<bar> \<le> 1 / 2 ^ 30"
proof -
  have "1 / 2 ^ 1000 \<le> \<bar>x\<bar>" using assms(1) by (rule order_trans [rotated]) simp
  moreover have "\<bar>x\<bar> \<le> 2 ^ 1000" using assms(2) by (rule order_trans) simp
  moreover have "x \<noteq> 0" using assms(1) by auto
  ultimately obtain r where r: "fl x = Fin r" "\<bar>r - x\<bar> \<le> \<bar>x\<bar> / 2 ^ 53" by (metis fl_near)
  have "\<bar>x\<bar> / 2 ^ 53 \<le> 1 / 2 ^ 30" using assms(2) by simp
  with r show ?thesis by (intro that [of r]) simp_all
qed

lemma fifths_off_half:
  fixes n :: int
  shows "\<bar>of_int n / 5 - (of_int k + 1 / 2) :: rat\<bar> \<ge> 1 / 10"
proof -
  have "of_int n / 5 - (of_int k + 1 / 2) = (of_int (2 * n - 10 * k - 5) :: rat) / 10" by simp
  moreover have "1 \<le> \<bar>2 * n - 10 * k - 5\<bar>" by presburger
  then have "of_int 1 \<le> (of_int \<bar>2 * n - 10 * k - 5\<bar> :: rat)" by (simp only: of_int_le_iff)
  then have "1 \<le> \<bar>of_int (2 * n - 10 * k - 5) :: rat\<bar>" by (simp only: of_int_abs of_int_1)
  then have "1 / 10 \<le> \<bar>(of_int (2 * n - 10 * k - 5) :: rat) / 10\<bar>" by (simp only: abs_divide) simp
  ultimately show ?thesis by (simp only:)
qed

text \<open>Rounding a value that is near a fifth of an integer gives what rounding the fifth does.\<close>

lemma trunc_near_fifths:
  fixes y :: rat
  assumes near: "\<bar>y - (- (of_int n / 5) - 1 / 2)\<bar> < 1 / 10" and n: "0 < n"
  shows "trunc y = round_away (- (of_int n / 5))"
proof -
  define k where "k = \<lfloor>of_int n / 5 + 1 / 2 :: rat\<rfloor>"
  have k: "of_int k \<le> of_int n / 5 + (1 / 2 :: rat)" "of_int n / 5 + 1 / 2 < (of_int k + 1 :: rat)"
    unfolding k_def by linarith+
  have off: "1 / 10 \<le> \<bar>of_int n / 5 - (of_int (k - 1) + 1 / 2) :: rat\<bar>" "1 / 10 \<le> \<bar>of_int n / 5 - (of_int k + 1 / 2) :: rat\<bar>"
    using fifths_off_half by (metis, metis)
  have "of_int k \<le> - y" "- y < of_int k + 1" using near k off by (simp_all add: abs_if split: if_splits)
  then have f: "\<lfloor>- y\<rfloor> = k" by (rule floor_unique)
  have p: "(0::rat) < of_int n / 5" using n by simp
  have "y < 0" using near p by (simp add: abs_if split: if_splits)
  then have "trunc y = - k" by (simp add: trunc_def f)
  moreover have "round_away (- (of_int n / 5)) = - k" using p by (simp add: round_away_def k_def)
  ultimately show ?thesis by simp
qed

text \<open>
  For every gain a tuner can have, the Reference Level word is the nearest 1/128 dB to \<open>-10\<close> dBm minus the
  gain, in two's complement in the low half-word, in spite of the roundings of the double arithmetic on the way.
\<close>

lemma level_near:
  assumes "0 \<le> g" and "g \<le> 2000"
  obtains s where "dmul (rtl_reference_level_dbm (tenths g)) (Fin 128) = Fin s"
    and "\<bar>s - (- (of_int (64 * (100 + g)) / 5))\<bar> \<le> 1 / 1000"
proof -
  define x :: rat where "x = of_int g / 10"
  have x: "0 \<le> x" "x \<le> 200"
  proof -
    have "of_int 0 \<le> (of_int g :: rat)" "of_int g \<le> (of_int 2000 :: rat)" using assms by (simp_all only: of_int_le_iff)
    then show "0 \<le> x" "x \<le> 200" by (simp_all add: x_def)
  qed
  obtain a where a: "tenths g = Fin a" "\<bar>a - x\<bar> \<le> 1 / 2 ^ 30"
  proof (cases "g = 0")
    case True
    then show ?thesis using that [of 0] by (simp add: tenths_def of_int_d_def x_def)
  next
    case False
    with assms have g: "\<bar>g\<bar> < 2 ^ 20" by simp
    from tenths_near [OF False g] obtain a where "tenths g = Fin a" "\<bar>a - x\<bar> \<le> \<bar>of_int g\<bar> / 10 / 2 ^ 53"
      by (auto simp: x_def)
    moreover have "\<bar>of_int g\<bar> / 10 / 2 ^ 53 \<le> (1 / 2 ^ 30 :: rat)" using x by (simp add: x_def)
    ultimately show ?thesis by (intro that [of a]) simp_all
  qed
  have "1 / 4 \<le> \<bar>- 10 + - a\<bar>" "\<bar>- 10 + - a\<bar> \<le> 1048576" using a(2) x by (simp_all add: abs_if split: if_splits)
  from fl_error [OF this] obtain b where b: "fl (- 10 + - a) = Fin b" "\<bar>b - (- 10 + - a)\<bar> \<le> 1 / 2 ^ 30" by blast
  have "1 / 4 \<le> \<bar>b * 128\<bar>" "\<bar>b * 128\<bar> \<le> 1048576" using a(2) b(2) x by (simp_all add: abs_if split: if_splits)
  from fl_error [OF this] obtain s where s: "fl (b * 128) = Fin s" "\<bar>s - b * 128\<bar> \<le> 1 / 2 ^ 30" by blast
  have "dmul (rtl_reference_level_dbm (tenths g)) (Fin 128) = Fin s"
    using a(1) b(1) s(1) by (simp add: rtl_reference_level_dbm_def RTL_REF_LEVEL_DBM_AT_0DB_def dsub_def)
  moreover have "- (of_int (64 * (100 + g)) / 5) = (- 10 - x) * 128" by (simp add: x_def field_simps)
  then have "\<bar>s - (- (of_int (64 * (100 + g)) / 5))\<bar> \<le> 1 / 1000"
    using a(2) b(2) s(2) by (simp add: abs_if split: if_splits)
  ultimately show ?thesis by (rule that)
qed

lemma reference_level_word:
  assumes "0 \<le> g" and "g \<le> 2000"
  shows "vita_encode_reference_level (rtl_reference_level_dbm (tenths g))
       = ucast (of_int (round_away (- (of_int (64 * (100 + g)) / 5))) :: u16)"
proof -
  from level_near [OF assms] obtain s where s: "dmul (rtl_reference_level_dbm (tenths g)) (Fin 128) = Fin s"
    "\<bar>s - (- (of_int (64 * (100 + g)) / 5))\<bar> \<le> 1 / 1000" by blast
  define x :: rat where "x = of_int (64 * (100 + g)) / 5"
  have x: "1280 \<le> x" "x \<le> 26880"
  proof -
    have "6400 \<le> 64 * (100 + g)" "64 * (100 + g) \<le> 134400" using assms by simp_all
    then have "of_int 6400 \<le> (of_int (64 * (100 + g)) :: rat)" "of_int (64 * (100 + g)) \<le> (of_int 134400 :: rat)"
      by (simp_all only: of_int_le_iff)
    then show "1280 \<le> x" "x \<le> 26880" by (simp_all add: x_def)
  qed
  have sx: "\<bar>s - (- x)\<bar> \<le> 1 / 1000" using s(2) by (simp only: x_def)
  have c: "clamp_q (Fin s) = Fin s" "s < 0" using sx x by (simp_all add: clamp_q_def Let_def abs_if split: if_splits)
  have "1 / 4 \<le> \<bar>s + - (1 / 2)\<bar>" "\<bar>s + - (1 / 2)\<bar> \<le> 1048576" using sx x by (simp_all add: abs_if split: if_splits)
  from fl_error [OF this] obtain y where y: "fl (s + - (1 / 2)) = Fin y" "\<bar>y - (s + - (1 / 2))\<bar> \<le> 1 / 2 ^ 30" by blast
  have "\<bar>y - (- x - 1 / 2)\<bar> < 1 / 10" using y(2) sx by (simp add: abs_if split: if_splits)
  then have "trunc y = round_away (- x)" unfolding x_def using assms(1) by (intro trunc_near_fifths) simp_all
  then show ?thesis
    using c y(1) by (simp add: vita_encode_reference_level_def s(1) Let_def dsub_def x_def)
qed

section \<open>A run of buffers\<close>

text \<open>What one session sends for a run of buffers, and the run seen as one long buffer.\<close>

fun stream_packets :: "u8 list list \<Rightarrow> VitaSession \<Rightarrow> datagram list" where
  "stream_packets [] sess = []"
| "stream_packets (b # bs) sess = snd (callback_entry b sess) @ stream_packets bs (fst (callback_entry b sess))"

text \<open>A buffer the sender ships whole: a positive number of packets, at most 1024.\<close>

definition whole_buffer :: "u8 list \<Rightarrow> bool" where
  "whole_buffer b \<longleftrightarrow> length b = num_pkts (length b) * bytes_per_pkt"

lemma data_packet_cong: "data_packet (sess\<lparr>vs_cb_count := n\<rparr>) c = data_packet sess c"
  by (simp add: data_packet_def send_chunk_def tsi_of_def tsf_of_def)

lemma advance_advance: "advance i (advance j sess) = advance (j + i) sess"
proof (cases "i = 0 \<or> j = 0")
  case False
  then have "(((vs_if_pkt_count sess + of_nat j) AND 0xF) + of_nat i) AND 0xF = (vs_if_pkt_count sess + of_nat (j + i)) AND 0xF"
    by (simp only: and_nibble_add of_nat_add add.assoc)
  with False show ?thesis by (simp add: advance_def algebra_simps)
qed (auto simp: advance_0)

lemma advance_cb: "advance i (sess\<lparr>vs_cb_count := n\<rparr>) = (advance i sess)\<lparr>vs_cb_count := n\<rparr>"
  by (simp add: advance_def)

lemma stream_packets_chunks:
  assumes "vs_active sess" and "\<forall>b \<in> set bufs. whole_buffer b"
  shows "stream_packets bufs sess = map (\<lambda>(j, c). data_packet (advance j sess) c)
    (let cs = concat (map (\<lambda>b. chunks bytes_per_pkt (num_pkts (length b)) b) bufs) in zip [0..<length cs] cs)"
  using assms
proof (induction bufs arbitrary: sess)
  case (Cons b bufs)
  let ?n = "num_pkts (length b)" and ?cs = "concat (map (\<lambda>b. chunks bytes_per_pkt (num_pkts (length b)) b) bufs)"
  have s: "fst (callback_entry b sess) = (advance ?n sess)\<lparr>vs_cb_count := vs_cb_count sess + 1\<rparr>"
    by (rule callback_entry_session [OF Cons.prems(1)])
  have "stream_packets bufs (fst (callback_entry b sess))
      = map (\<lambda>(j, c). data_packet (advance (?n + j) sess) c) (zip [0..<length ?cs] ?cs)"
    using Cons by (simp add: s Let_def advance_cb data_packet_cong advance_advance case_prod_unfold)
  moreover have "zip [0..<?n + length ?cs] (chunks bytes_per_pkt ?n b @ ?cs)
      = zip [0..<?n] (chunks bytes_per_pkt ?n b) @ map (\<lambda>(j, c). (?n + j, c)) (zip [0..<length ?cs] ?cs)"
  proof -
    have "map ((+) k) [0..<m] = [k..<k + m]" for k m
      by (rule nth_equalityI) simp_all
    then have "[0..<?n + length ?cs] = [0..<?n] @ map ((+) ?n) [0..<length ?cs]"
      by (simp add: upt_add_eq_append [of 0 ?n "length ?cs"])
    then show ?thesis by (simp add: zip_map1 case_prod_unfold length_chunks)
  qed
  ultimately show ?case
    using callback_entry_packets [OF Cons.prems(1), of b] by (simp add: Let_def case_prod_unfold length_chunks)
qed simp

lemma stream_payload:
  assumes "vs_active sess" and "vs_fmt sess = IQ_FMT_U8" and "\<forall>b \<in> set bufs. whole_buffer b"
  shows "concat (map payload_of (stream_packets bufs sess)) = concat bufs"
  using assms
proof (induction bufs arbitrary: sess)
  case (Cons b bufs)
  have "concat (map payload_of (snd (callback_entry b sess))) = b"
    using callback_payload [OF Cons.prems(1,2), of b] Cons.prems(3) by (simp add: whole_buffer_def)
  moreover have "concat (map payload_of (stream_packets bufs (fst (callback_entry b sess)))) = concat bufs"
    using Cons by (simp add: callback_entry_session)
  ultimately show ?case by simp
qed simp

text \<open>The packet count in a header is that of the session, modulo 16, and goes up by one from packet to packet.\<close>

definition packet_count :: "datagram \<Rightarrow> u8" where
  "packet_count d = ucast (drop_bit 16 (hd (words_of (snd (snd d)))) AND 0xF)"

definition packet_size :: "datagram \<Rightarrow> u16" where
  "packet_size d = ucast (hd (words_of (snd (snd d))))"

lemma data_packet_words:
  "words_of (snd (snd (data_packet sess c))) =
     [if_header (vs_if_pkt_count sess) (7 + if_payload_words (of_nat VITA_SAMPLES_PER_PKT) (vs_fmt sess)), vs_vita_stream_id sess,
      CLASS_ID_W0, CLASS_ID_W1, tsi_of sess, ucast (drop_bit 32 (tsf_of sess)), ucast (tsf_of sess AND 0xFFFFFFFF)]
     @ words_of (if_payload c (of_nat VITA_SAMPLES_PER_PKT) (vs_fmt sess))"
  unfolding data_packet_def send_chunk_def snd_conv vita_build_if_data_packet_def by (rule words_of_concat)

lemma packet_count_advance: "packet_count (data_packet (advance j sess) c) = (vs_if_pkt_count sess + of_nat j) AND 0xF"
proof -
  have "(vs_if_pkt_count (advance j sess)) AND 0xF = (vs_if_pkt_count sess + of_nat j) AND 0xF"
    by (simp add: advance_def and.assoc)
  then show ?thesis by (simp add: packet_count_def data_packet_words if_header_count)
qed

section \<open>Properties\<close>





text \<open>
  C27: At any sample rate up to 18 MS/s the 64-bit picosecond arithmetic does not overflow: the stamp of a packet, taken from
  the start of the stream, is the number of samples sent before it divided by the rate, rounded down to the picosecond,
  and the fractional field stays below one second.
\<close>

theorem timestamp_exact:
  assumes "vs_rate_hz_anchor sess \<noteq> 0" and "unat (vs_rate_hz_anchor sess) \<le> 18000000"
    and "unat (vs_epoch_at_start sess) + unat (vs_sample_count sess) div unat (vs_rate_hz_anchor sess) < 2 ^ 32"
  shows "stamp_ps sess = unat (vs_sample_count sess) * 10 ^ 12 div unat (vs_rate_hz_anchor sess) \<and> unat (tsf_of sess) < 10 ^ 12"
  using stamp_exact [OF assms] tsf_exact(2) [OF assms(1,2)] by simp

theorem timestamp_exact_witness:
  "stamp_ps (vita_zero\<lparr>vs_rate_hz_anchor := 2048000, vs_sample_count := 5000192, vs_epoch_at_start := 1700000000\<rparr>) = 2441500000000"
  using timestamp_exact [of "vita_zero\<lparr>vs_rate_hz_anchor := 2048000, vs_sample_count := 5000192, vs_epoch_at_start := 1700000000\<rparr>"]
  by simp

text \<open>
  Registering a session with Context packets on sends one Context packet to its destination before any data: type 4, the
  session's stream id, the change indicator set, the encoded Reference Level of the gain in force and the payload format.
\<close>

theorem context_packet_first:
  assumes "vita_session_add gain now rate sid vid ip port fmt pf v = (tok, v', ds)" and "0 \<le> tok"
    and "vt_sock v" and "vt_context_enabled v"
  shows "\<exists>p. ds = [(ip, port, p)] \<and> packet_type (ip, port, p) = 4 \<and> length p = 24 \<and> words_of p ! 1 = vid \<and> bit (words_of p ! 2) 31
    \<and> words_of p ! 3 = vita_encode_reference_level (rtl_reference_level_dbm (tenths gain)) \<and> words_of p ! 4 = pf"
proof -
  from vita_session_add_ok [OF assms(1,2)]
  have "ds = [(ip, port, vita_build_context_packet vid 0 pf (rtl_reference_level_dbm (tenths gain)) True)]"
    using assms(3,4) by metis
  then show ?thesis using cif0_changed_bit [of True] by (simp add: ctx_packet_type context_word)
qed

theorem context_packet_first_witness:
  "\<exists>p. snd (snd (vita_session_add 200 1700000000 2048000 ''rx-1'' 1 0x7F000001 5000 IQ_FMT_U8 VITA_PAYLOAD_FMT_COMPLEX
      (vita_globals\<lparr>vt_sock := True\<rparr>))) = [(0x7F000001, 5000, p)] \<and> packet_type (0x7F000001, 5000, p) = 4"
proof -
  let ?add = "vita_session_add 200 1700000000 2048000 ''rx-1'' 1 0x7F000001 5000 IQ_FMT_U8 VITA_PAYLOAD_FMT_COMPLEX
      (vita_globals\<lparr>vt_sock := True\<rparr>)"
  have "fst ?add = 0" by (simp add: vita_session_add_def vita_globals_def MAX_VITA_SESSIONS_def numeral_eq_Suc vita_zero_def case_prod_unfold Let_def)
  moreover obtain tok v' ds where add: "?add = (tok, v', ds)" by (cases ?add) auto
  ultimately have "0 \<le> tok" by simp
  from context_packet_first [OF add this] show ?thesis unfolding add by (auto simp: vita_globals_def)
qed

text \<open>
  The change indicator tells the truth: after a Context packet for one gain, the next one for the same session carries it
  exactly when the encoded Reference Level differs.
\<close>

theorem context_change_indicator:
  assumes "vs_active sess"
  shows "\<exists>p. snd (context_entry True True g2 (fst (context_entry True True g1 sess))) = [(vs_dest_ip sess, vs_dest_port sess, p)]
    \<and> (bit (words_of p ! 2) 31 \<longleftrightarrow> vita_encode_reference_level (rtl_reference_level_dbm (tenths g2))
          \<noteq> vita_encode_reference_level (rtl_reference_level_dbm (tenths g1)))"
proof -
  let ?s = "fst (context_entry True True g1 sess)"
  have "vs_active ?s" using assms by (simp add: context_entry_active Let_def)
  then show ?thesis
    using assms by (simp add: context_entry_active Let_def context_word cif0_changed_bit)
qed

theorem context_change_indicator_witness:
  "\<exists>p. snd (context_entry True True 200 (fst (context_entry True True 200 (vita_zero\<lparr>vs_active := True\<rparr>)))) = [(0, 0, p)]
    \<and> \<not> bit (words_of p ! 2) 31"
  using context_change_indicator [of "vita_zero\<lparr>vs_active := True\<rparr>" 200 200] by (simp add: vita_zero_def)



end
