(* ===== verification/Auth_Hash.thy ===== *)
theory Auth_Hash
  imports Config
begin

text \<open>
  SHA-256 and HMAC-SHA256 as \<open>common/auth.c\<close> computes them: the block function over 32-bit words, the
  incremental \<open>init\<close>/\<open>update\<close>/\<open>final\<close> interface with its 64-byte buffer, and the hexadecimal encoding.
  The incremental interface is proved equal to the one-shot definition of FIPS 180-4 (pad, cut into
  blocks, fold the block function), and the HMAC to RFC 2104.
\<close>

section \<open>The block function\<close>

definition K :: "u32 list" where
  "K = concat
    [[0x428a2f98, 0x71374491, 0xb5c0fbcf, 0xe9b5dba5, 0x3956c25b, 0x59f111f1],
     [0x923f82a4, 0xab1c5ed5, 0xd807aa98, 0x12835b01, 0x243185be, 0x550c7dc3],
     [0x72be5d74, 0x80deb1fe, 0x9bdc06a7, 0xc19bf174, 0xe49b69c1, 0xefbe4786],
     [0x0fc19dc6, 0x240ca1cc, 0x2de92c6f, 0x4a7484aa, 0x5cb0a9dc, 0x76f988da],
     [0x983e5152, 0xa831c66d, 0xb00327c8, 0xbf597fc7, 0xc6e00bf3, 0xd5a79147],
     [0x06ca6351, 0x14292967, 0x27b70a85, 0x2e1b2138, 0x4d2c6dfc, 0x53380d13],
     [0x650a7354, 0x766a0abb, 0x81c2c92e, 0x92722c85, 0xa2bfe8a1, 0xa81a664b],
     [0xc24b8b70, 0xc76c51a3, 0xd192e819, 0xd6990624, 0xf40e3585, 0x106aa070],
     [0x19a4c116, 0x1e376c08, 0x2748774c, 0x34b0bcb5, 0x391c0cb3, 0x4ed8aa4a],
     [0x5b9cca4f, 0x682e6ff3, 0x748f82ee, 0x78a5636f, 0x84c87814, 0x8cc70208],
     [0x90befffa, 0xa4506ceb, 0xbef9a3f7, 0xc67178f2]]"

definition ROTR :: "u32 \<Rightarrow> nat \<Rightarrow> u32" where
  "ROTR x n = (drop_bit n x OR push_bit (32 - n) x)"

text \<open>The message schedule: sixteen words of the block, then forty-eight derived ones.\<close>

definition sched_word :: "u32 list \<Rightarrow> nat \<Rightarrow> u32" where
  "sched_word w i =
     (let a = w ! (i - 15); b = w ! (i - 2);
          s0 = (ROTR a 7 XOR ROTR a 18 XOR drop_bit 3 a);
          s1 = (ROTR b 17 XOR ROTR b 19 XOR drop_bit 10 b)
      in w ! (i - 16) + s0 + w ! (i - 7) + s1)"

definition schedule :: "u8 list \<Rightarrow> u32 list" where
  "schedule p = foldl (\<lambda>w i. w @ [sched_word w i]) (words_of p) [16..<64]"

type_synonym chain = "u32 \<times> u32 \<times> u32 \<times> u32 \<times> u32 \<times> u32 \<times> u32 \<times> u32"

definition sha_round :: "u32 list \<Rightarrow> chain \<Rightarrow> nat \<Rightarrow> chain" where
  "sha_round w s i =
     (case s of (a, b, c, d, e, f, g, h) \<Rightarrow>
        let S1 = (ROTR e 6 XOR ROTR e 11 XOR ROTR e 25);
            ch = ((e AND f) XOR (NOT e AND g));
            t1 = h + S1 + ch + K ! i + w ! i;
            S0 = (ROTR a 2 XOR ROTR a 13 XOR ROTR a 22);
            mj = ((a AND b) XOR (a AND c) XOR (b AND c));
            t2 = S0 + mj
        in (t1 + t2, a, b, c, d + t1, e, f, g))"

definition sha256_block :: "chain \<Rightarrow> u8 list \<Rightarrow> chain" where
  "sha256_block hs p =
     (case hs of (h0, h1, h2, h3, h4, h5, h6, h7) \<Rightarrow>
      case foldl (sha_round (schedule p)) hs [0..<64] of (a, b, c, d, e, f, g, h) \<Rightarrow>
        (h0 + a, h1 + b, h2 + c, h3 + d, h4 + e, h5 + f, h6 + g, h7 + h))"

section \<open>The incremental interface\<close>

text \<open>
  \<open>sha256_t\<close>. The buffer field holds the \<open>buflen\<close> bytes that are valid; what lies behind them in the
  C array is never read.
\<close>

record sha256_t =
  sh_h :: chain
  sh_len :: u64
  sh_buf :: "u8 list"

definition sha256_iv :: chain where
  "sha256_iv = (0x6a09e667, 0xbb67ae85, 0x3c6ef372, 0xa54ff53a, 0x510e527f, 0x9b05688c, 0x1f83d9ab, 0x5be0cd19)"

definition sha256_init :: sha256_t where
  "sha256_init = \<lparr>sh_h = sha256_iv, sh_len = 0, sh_buf = []\<rparr>"

text \<open>
  The \<open>while (n)\<close> loop of \<open>sha256_update\<close>. A full buffer is flushed at once, so the buffer has room at
  every pass; the second conjunct of the guard records that.
\<close>

function sha256_absorb :: "sha256_t \<Rightarrow> u8 list \<Rightarrow> sha256_t" where
  "sha256_absorb s p =
     (if p \<noteq> [] \<and> length (sh_buf s) < 64 then
        (let t = min (64 - length (sh_buf s)) (length p); b = sh_buf s @ take t p
         in if length b = 64
            then sha256_absorb (s\<lparr>sh_h := sha256_block (sh_h s) b, sh_buf := []\<rparr>) (drop t p)
            else sha256_absorb (s\<lparr>sh_buf := b\<rparr>) (drop t p))
      else s)"
  by pat_completeness auto
termination
  by (relation "measure (\<lambda>(s, p). length p)") (auto simp: min_def)

declare sha256_absorb.simps [simp del]

definition sha256_update :: "sha256_t \<Rightarrow> u8 list \<Rightarrow> sha256_t" where
  "sha256_update s p = sha256_absorb (s\<lparr>sh_len := sh_len s + of_nat (length p)\<rparr>) p"

text \<open>The big-endian bit count that ends the last block.\<close>

definition be64 :: "u64 \<Rightarrow> u8 list" where
  "be64 w = map (\<lambda>i. ucast (drop_bit (56 - 8 * i) w)) [0..<8]"

lemma length_be64 [simp, layout]: "length (be64 w) = 8"
  by (simp add: be64_def)

text \<open>Abstract view of the buffer: whole blocks are folded, the rest is kept.\<close>

function blocks :: "chain \<Rightarrow> u8 list \<Rightarrow> chain \<times> u8 list" where
  "blocks h m = (if 64 \<le> length m then blocks (sha256_block h (take 64 m)) (drop 64 m) else (h, m))"
  by pat_completeness auto
termination
  by (relation "measure (\<lambda>(h, m). length m)") auto

declare blocks.simps [simp del]

lemma blocks_short: "length m < 64 \<Longrightarrow> blocks h m = (h, m)"
  by (subst blocks.simps) simp

lemma blocks_full: "length b = 64 \<Longrightarrow> blocks h (b @ m) = blocks (sha256_block h b) m"
  by (subst blocks.simps) simp

lemma blocks_rest: "length (snd (blocks h m)) < 64"
proof (induction h m rule: blocks.induct)
  case (1 h m)
  then show ?case unfolding blocks.simps [of h m] by auto
qed

lemma blocks_append: "blocks h (m @ p) = (case blocks h m of (h', r) \<Rightarrow> blocks h' (r @ p))"
proof (induction h m rule: blocks.induct)
  case (1 h m)
  show ?case
  proof (cases "64 \<le> length m")
    case True
    have "blocks h (m @ p) = blocks (sha256_block h (take 64 m)) (drop 64 m @ p)"
      using blocks_full [of "take 64 m" h "drop 64 m @ p"] True
      by (simp add: append_assoc [symmetric] del: append_assoc)
    also have "\<dots> = (case blocks h m of (h', r) \<Rightarrow> blocks h' (r @ p))"
      using 1 True unfolding blocks.simps [of h m] by simp
    finally show ?thesis .
  next
    case False
    then show ?thesis by (simp add: blocks_short)
  qed
qed

lemma length_blocks_rest: "length (snd (blocks h m)) = length m mod 64"
proof (induction h m rule: blocks.induct)
  case (1 h m)
  then show ?case unfolding blocks.simps [of h m] by (auto simp: le_mod_geq)
qed

text \<open>The absorb loop computes the abstract view, and its buffer stays below one block.\<close>

lemma sha256_absorb_blocks:
  "length (sh_buf s) < 64 \<Longrightarrow>
     sha256_absorb s p = (case blocks (sh_h s) (sh_buf s @ p) of (h, r) \<Rightarrow> s\<lparr>sh_h := h, sh_buf := r\<rparr>)"
proof (induction s p rule: sha256_absorb.induct)
  case (1 s p)
  let ?n = "length (sh_buf s)"
  consider (empty) "p = []" | (short) "p \<noteq> []" "?n + length p < 64" | (full) "p \<noteq> []" "64 \<le> ?n + length p"
    by linarith
  then show ?case
  proof cases
    case empty
    with 1(3) show ?thesis by (subst sha256_absorb.simps) (simp add: blocks_short)
  next
    case short
    then have "min (64 - ?n) (length p) = length p" by simp
    with short 1(3) have "sha256_absorb s p = sha256_absorb (s\<lparr>sh_buf := sh_buf s @ p\<rparr>) []"
      by (subst sha256_absorb.simps) (simp add: Let_def)
    also have "\<dots> = s\<lparr>sh_buf := sh_buf s @ p\<rparr>" by (subst sha256_absorb.simps) simp
    finally show ?thesis using short by (simp add: blocks_short)
  next
    case full
    define t where "t = 64 - ?n"
    have t: "min (64 - ?n) (length p) = t" using full by (simp add: t_def)
    have b: "length (sh_buf s @ take t p) = 64" using full 1(3) by (simp add: t_def)
    let ?s = "s\<lparr>sh_h := sha256_block (sh_h s) (sh_buf s @ take t p), sh_buf := []\<rparr>"
    have "sha256_absorb s p = sha256_absorb ?s (drop t p)"
      using full 1(3) b by (subst sha256_absorb.simps) (simp add: Let_def t)
    also have "\<dots> = (case blocks (sh_h ?s) (sh_buf ?s @ drop t p) of (h, r) \<Rightarrow> ?s\<lparr>sh_h := h, sh_buf := r\<rparr>)"
      using full 1(3) t b by (intro 1(1)) (auto simp: min_def)
    also have "blocks (sh_h ?s) (sh_buf ?s @ drop t p) = blocks (sh_h s) (sh_buf s @ p)"
      using blocks_full [OF b, of "sh_h s" "drop t p"] by simp
    finally show ?thesis by (simp split: prod.splits)
  qed
qed


lemma sha256_update_len [simp]: "sh_len (sha256_update s p) = sh_len s + of_nat (length p)"
proof -
  have "sh_len (sha256_absorb s p) = sh_len s" for s
    by (induction s p rule: sha256_absorb.induct) (subst sha256_absorb.simps, auto simp: Let_def)
  then show ?thesis by (simp add: sha256_update_def)
qed

section \<open>Finishing the hash\<close>

text \<open>The zero bytes of \<open>sha256_final\<close>: one at a time until the buffer holds 56.\<close>

lemma sha256_update_byte:
  assumes "length (sh_buf s) < 64"
  shows "length (sh_buf (sha256_update s [z])) = (length (sh_buf s) + 1) mod 64"
  using assms sha256_absorb_blocks [of "s\<lparr>sh_len := sh_len s + 1\<rparr>" "[z]"]
    length_blocks_rest [of "sh_h s" "sh_buf s @ [z]"]
  by (simp add: sha256_update_def split: prod.splits)

function sha256_pad :: "sha256_t \<Rightarrow> sha256_t" where
  "sha256_pad s =
     (if length (sh_buf s) \<noteq> 56 \<and> length (sh_buf s) < 64 then sha256_pad (sha256_update s [0]) else s)"
  by pat_completeness auto
termination
proof (relation "measure (\<lambda>s. if length (sh_buf s) \<le> 56 then 56 - length (sh_buf s) else 120 - length (sh_buf s))")
  fix s :: sha256_t
  assume s: "length (sh_buf s) \<noteq> 56 \<and> length (sh_buf s) < 64"
  then show "(sha256_update s [0], s) \<in> measure (\<lambda>s. if length (sh_buf s) \<le> 56
      then 56 - length (sh_buf s) else 120 - length (sh_buf s))"
    by (cases "length (sh_buf s) = 63") (auto simp: sha256_update_byte)
qed simp

declare sha256_pad.simps [simp del]

definition digest_bytes :: "chain \<Rightarrow> u8 list" where
  "digest_bytes hs =
     (case hs of (h0, h1, h2, h3, h4, h5, h6, h7) \<Rightarrow> concat (map be32 [h0, h1, h2, h3, h4, h5, h6, h7]))"

definition sha256_final :: "sha256_t \<Rightarrow> u8 list" where
  "sha256_final s =
     (let bits = sh_len s * 8;
          s = sha256_update s [0x80];
          s = sha256_pad s;
          s = sha256_update s (be64 bits)
      in digest_bytes (sh_h s))"

definition sha256 :: "u8 list \<Rightarrow> u8 list" where
  "sha256 p = sha256_final (sha256_update sha256_init p)"

lemma length_digest_bytes [simp, layout]: "length (digest_bytes h) = 32"
  by (simp add: digest_bytes_def split: prod.splits)

lemma length_sha256_final [simp, layout]: "length (sha256_final s) = 32"
  by (simp add: sha256_final_def Let_def)

section \<open>The one-shot definition and its equivalence\<close>

text \<open>
  FIPS 180-4: append \<open>0x80\<close>, the least number of zero bytes that leaves room for the length, the bit length
  in eight bytes, and fold the block function over the 64-byte blocks.
\<close>

definition zero_count :: "nat \<Rightarrow> nat" where
  "zero_count n = (119 - n mod 64) mod 64"

definition padded :: "u8 list \<Rightarrow> u8 list" where
  "padded m = m @ [0x80] @ replicate (zero_count (length m)) 0 @ be64 (of_nat (length m) * 8)"

definition sha256_spec :: "u8 list \<Rightarrow> u8 list" where
  "sha256_spec m = digest_bytes (foldl sha256_block sha256_iv (chunks 64 (length (padded m) div 64) (padded m)))"

text \<open>A state stands for the message absorbed so far.\<close>

definition absorbed :: "sha256_t \<Rightarrow> u8 list \<Rightarrow> bool" where
  "absorbed s m \<longleftrightarrow> (sh_h s, sh_buf s) = blocks sha256_iv m \<and> sh_len s = of_nat (length m)"

lemma absorbed_init: "absorbed sha256_init []"
  by (simp add: absorbed_def sha256_init_def blocks_short)

lemma absorbedD:
  assumes "absorbed s m"
  shows "blocks sha256_iv m = (sh_h s, sh_buf s)" and "sh_len s = of_nat (length m)"
  using assms by (simp_all add: absorbed_def)

lemma absorbed_buf: "absorbed s m \<Longrightarrow> length (sh_buf s) = length m mod 64"
  using length_blocks_rest [of sha256_iv m] by (simp add: absorbedD)

lemma absorbed_update: "absorbed s m \<Longrightarrow> absorbed (sha256_update s p) (m @ p)"
proof -
  assume a: "absorbed s m"
  obtain h r where hr: "blocks (sh_h s) (sh_buf s @ p) = (h, r)" by (cases "blocks (sh_h s) (sh_buf s @ p)")
  let ?s = "s\<lparr>sh_len := sh_len s + of_nat (length p)\<rparr>"
  have "length (sh_buf ?s) < 64" using absorbed_buf [OF a] by simp
  then have u: "sha256_update s p = ?s\<lparr>sh_h := h, sh_buf := r\<rparr>"
    using hr by (simp add: sha256_update_def sha256_absorb_blocks)
  have "blocks sha256_iv (m @ p) = (h, r)" using hr by (subst blocks_append) (simp add: absorbedD(1) [OF a])
  then show ?thesis by (simp add: absorbed_def u absorbedD [OF a])
qed

lemma pad_count_step: "n < 64 \<Longrightarrow> n \<noteq> 56 \<Longrightarrow> (120 - n) mod 64 = Suc ((120 - Suc n mod 64) mod 64)" for n :: nat
proof -
  assume "n < 64" "n \<noteq> 56"
  then consider "n < 56" | "56 < n" "n < 63" | "n = 63" by linarith
  then show ?thesis
  proof cases
    case 1
    then have "(120 - n) mod 64 = 56 - n" "(120 - Suc n) mod 64 = 55 - n" by (simp_all add: le_mod_geq)
    with 1 show ?thesis by simp
  next
    case 2 then show ?thesis by simp
  qed simp
qed

lemma zero_count_step: "(119 - n mod 64) mod 64 = (120 - Suc n mod 64) mod (64::nat)" for n :: nat
  by (cases "n mod 64 = 63") (simp_all add: mod_Suc)

lemma absorbed_pad:
  "absorbed s m \<Longrightarrow> absorbed (sha256_pad s) (m @ replicate ((120 - length m mod 64) mod 64) 0)"
proof (induction s arbitrary: m rule: sha256_pad.induct)
  case (1 s)
  let ?n = "length m mod 64"
  have n: "length (sh_buf s) = ?n" by (rule absorbed_buf [OF "1.prems"])
  show ?case
  proof (cases "?n = 56")
    case True
    then show ?thesis using "1.prems" n by (subst sha256_pad.simps) simp
  next
    case False
    have "absorbed (sha256_update s [0]) (m @ [0])" by (rule absorbed_update [OF "1.prems"])
    then have "absorbed (sha256_pad (sha256_update s [0]))
        ((m @ [0]) @ replicate ((120 - length (m @ [0]) mod 64) mod 64) 0)"
      using False n by (intro "1.IH") auto
    moreover have "(120 - ?n) mod 64 = Suc ((120 - length (m @ [0]) mod 64) mod 64)"
      using pad_count_step [of ?n] False by (simp add: mod_Suc_eq)
    moreover have "sha256_pad s = sha256_pad (sha256_update s [0])"
      using False n by (subst sha256_pad.simps) simp
    ultimately show ?thesis by simp
  qed
qed

lemma blocks_chunks: "length m = 64 * n \<Longrightarrow> blocks h m = (foldl sha256_block h (chunks 64 n m), [])"
proof (induction n arbitrary: h m)
  case 0
  then show ?case by (simp add: blocks_short)
next
  case (Suc n)
  then have "blocks h m = blocks (sha256_block h (take 64 m)) (drop 64 m)"
    by (subst blocks.simps) simp
  with Suc show ?case by simp
qed

lemma length_padded_mod: "length (padded m) mod 64 = 0"
proof -
  define k where "k = length m mod 64"
  have k: "k < 64" by (simp add: k_def)
  have "length (padded m) mod 64 = (k + (9 + (119 - k) mod 64)) mod 64"
    unfolding k_def by (subst mod_add_left_eq) (simp add: padded_def zero_count_def ac_simps)
  moreover have "(k + (9 + (119 - k) mod 64)) mod 64 = 0"
  proof (cases "k \<le> 55")
    case True
    then have "(119 - k) mod 64 = 55 - k" by (simp add: mod_if)
    with True show ?thesis by simp
  next
    case False
    with k show ?thesis by (simp add: mod_if)
  qed
  ultimately show ?thesis by simp
qed

text \<open>Whatever state stands for \<open>m\<close>, finishing it gives the one-shot hash of \<open>m\<close>.\<close>

lemma sha256_final_absorbed: "absorbed s m \<Longrightarrow> sha256_final s = sha256_spec m"
proof -
  assume a: "absorbed s m"
  let ?z = "replicate (zero_count (length m)) (0::u8)"
  have z: "zero_count (length m) = (120 - length (m @ [0x80]) mod 64) mod 64"
    by (simp add: zero_count_def zero_count_step)
  have "absorbed (sha256_update s [0x80]) (m @ [0x80])" by (rule absorbed_update [OF a])
  from absorbed_pad [OF this] have "absorbed (sha256_pad (sha256_update s [0x80])) ((m @ [0x80]) @ ?z)"
    by (simp only: z)
  from absorbed_update [OF this, of "be64 (sh_len s * 8)"]
  have f: "absorbed (sha256_update (sha256_pad (sha256_update s [0x80])) (be64 (sh_len s * 8))) (padded m)"
    using a by (simp add: padded_def absorbed_def)
  have "length (padded m) = 64 * (length (padded m) div 64)" using length_padded_mod [of m] by (simp add: mult.commute dvd_mult_div_cancel mod_eq_0_iff_dvd)
  from blocks_chunks [OF this, of sha256_iv] f show ?thesis
    by (simp add: sha256_final_def sha256_spec_def absorbed_def Let_def)
qed

text \<open>
  The interface the keyed hash builds on: a state stands for the octets fed to it so far, and finishing it gives
  the hash of those octets, however they were cut into updates.
\<close>

locale incremental_hash =
  fixes init :: 's and update :: "'s \<Rightarrow> u8 list \<Rightarrow> 's" and final :: "'s \<Rightarrow> u8 list"
    and hash :: "u8 list \<Rightarrow> u8 list" and stands :: "'s \<Rightarrow> u8 list \<Rightarrow> bool"
  assumes stands_init: "stands init []"
    and stands_update: "stands s m \<Longrightarrow> stands (update s p) (m @ p)"
    and final_stands: "stands s m \<Longrightarrow> final s = hash m"
begin

lemma stands_updates: "stands s m \<Longrightarrow> stands (foldl update s ps) (m @ concat ps)"
proof (induction ps arbitrary: s m)
  case (Cons p ps)
  from Cons.IH [OF stands_update [OF Cons.prems, of p]] show ?case by simp
qed simp

lemma hash_updates: "final (foldl update init ps) = hash (concat ps)"
  using final_stands [OF stands_updates [OF stands_init, of ps]] by simp

lemma hash_one: "final (update init m) = hash m"
  using hash_updates [of "[m]"] by simp

lemma hash_two: "final (update (update init a) b) = hash (a @ b)"
  using hash_updates [of "[a, b]"] by simp

end

interpretation sha: incremental_hash sha256_init sha256_update sha256_final sha256_spec absorbed
  by unfold_locales (rule absorbed_init absorbed_update sha256_final_absorbed; assumption?)+

lemma sha256_eq_spec: "sha256 m = sha256_spec m"
  by (simp add: sha256_def sha.hash_one)

section \<open>HMAC\<close>

definition auth_hmac_sha256 :: "u8 list \<Rightarrow> u8 list \<Rightarrow> u8 list" where
  "auth_hmac_sha256 key msg =
     (let k0 = (if 64 < length key then sha256 key else key);
          k = k0 @ replicate (64 - length k0) 0;
          ipad = map (\<lambda>b. b XOR 0x36) k;
          opad = map (\<lambda>b. b XOR 0x5c) k;
          inner = sha256_final (sha256_update (sha256_update sha256_init ipad) msg)
      in sha256_final (sha256_update (sha256_update sha256_init opad) inner))"

text \<open>RFC 2104 over the one-shot hash.\<close>

definition hmac_key :: "u8 list \<Rightarrow> u8 list" where
  "hmac_key key = (let k = (if 64 < length key then sha256_spec key else key) in k @ replicate (64 - length k) 0)"

definition hmac_spec :: "u8 list \<Rightarrow> u8 list \<Rightarrow> u8 list" where
  "hmac_spec key msg =
     sha256_spec (map (\<lambda>b. b XOR 0x5c) (hmac_key key)
                  @ sha256_spec (map (\<lambda>b. b XOR 0x36) (hmac_key key) @ msg))"

lemma hmac_eq_spec: "auth_hmac_sha256 key msg = hmac_spec key msg"
  by (simp only: auth_hmac_sha256_def hmac_spec_def hmac_key_def Let_def sha.hash_two sha256_eq_spec)

lemma length_hmac [simp, layout]: "length (auth_hmac_sha256 key msg) = 32"
  by (simp add: auth_hmac_sha256_def Let_def)

section \<open>Hexadecimal\<close>

definition hx :: string where "hx = ''0123456789abcdef''"

definition auth_hex :: "u8 list \<Rightarrow> string" where
  "auth_hex bs = concat (map (\<lambda>b. [hx ! unat (drop_bit 4 b), hx ! unat (b AND 0xF)]) bs)"

definition hexval :: "char \<Rightarrow> int" where
  "hexval c =
     (let n = (of_char c :: int) in
      if 48 \<le> n \<and> n \<le> 57 then n - 48
      else if 97 \<le> n \<and> n \<le> 102 then n - 97 + 10
      else if 65 \<le> n \<and> n \<le> 70 then n - 65 + 10 else - 1)"

text \<open>The decoding loop of \<open>auth_verify\<close>: two digits per byte, a bad digit fails.\<close>

fun hex_decode :: "string \<Rightarrow> u8 list option" where
  "hex_decode [] = Some []"
| "hex_decode [c] = None"
| "hex_decode (c # d # s) =
     (if hexval c < 0 \<or> hexval d < 0 then None
      else case hex_decode s of
             None \<Rightarrow> None
           | Some bs \<Rightarrow> Some ((push_bit 4 (of_int (hexval c)) OR of_int (hexval d)) # bs))"

lemma length_auth_hex [simp, layout]: "length (auth_hex bs) = 2 * length bs"
  by (induction bs) (auto simp: auth_hex_def)

lemma hexval_hx: "n < 16 \<Longrightarrow> hexval (hx ! n) = int n"
proof -
  assume "n < 16"
  moreover have "\<forall>n \<in> {..<16}. hexval (hx ! n) = int n" by code_simp
  ultimately show ?thesis by blast
qed

lemma nibbles: "push_bit 4 (drop_bit 4 b) OR (b AND 0xF) = (b :: u8)"
proof (rule bit_word_eqI)
  fix n
  have "bit (mask 4 :: u8) n \<longleftrightarrow> n < 4" by (auto simp: bit_simps)
  then have "bit (0xF :: u8) n \<longleftrightarrow> n < 4" by (simp add: mask_eq_exp_minus_1)
  then show "bit (push_bit 4 (drop_bit 4 b) OR (b AND 0xF)) n \<longleftrightarrow> bit b n"
    by (auto simp: bit_simps dest: bit_imp_le_length)
qed

lemma nibble_bounds: "unat (drop_bit 4 (b :: u8)) < 16" "unat (b AND 0xF) < 16"
proof -
  have "unat b < 256" using unsigned_less [of b] by simp
  then show "unat (drop_bit 4 b) < 16" by (simp add: drop_bit_eq_div unat_div)
  have "b AND 0xF \<le> 0xF" by (rule word_and_le1)
  then show "unat (b AND 0xF) < 16" by (simp add: word_le_nat_alt)
qed

text \<open>Decoding an encoded digest gives it back.\<close>

lemma hex_decode_auth_hex [simp]: "hex_decode (auth_hex bs) = Some bs"
proof (induction bs)
  case Nil
  then show ?case by (simp add: auth_hex_def)
next
  case (Cons b bs)
  have "auth_hex (b # bs) = hx ! unat (drop_bit 4 b) # hx ! unat (b AND 0xF) # auth_hex bs"
    by (simp add: auth_hex_def)
  with Cons show ?case using nibble_bounds [of b] by (simp add: hexval_hx nibbles)
qed

lemma hex_decode_length: "hex_decode s = Some bs \<Longrightarrow> length s = 2 * length bs"
  by (induction s arbitrary: bs rule: hex_decode.induct) (auto split: if_splits option.splits)

section \<open>Properties\<close>

text \<open>
  C22: Feeding \<open>sha256_update\<close> any sequence of pieces and finishing gives the one-shot SHA-256 of their
  concatenation: the buffering, the flushing of full blocks and the padding loop of \<open>sha256_final\<close> implement the
  padding and block folding of FIPS 180-4.
\<close>

theorem sha256_pieces:
  "sha256_final (foldl sha256_update sha256_init pieces) = sha256_spec (concat pieces)"
  by (rule sha.hash_updates)

text \<open>
  C23: \<open>auth_hmac_sha256\<close> is HMAC as RFC 2104 defines it over that hash, for keys shorter than, equal to and longer
  than a block, and its result has 32 octets.
\<close>

theorem auth_hmac_rfc2104:
  "auth_hmac_sha256 key msg = hmac_spec key msg \<and> length (auth_hmac_sha256 key msg) = 32"
  by (simp add: hmac_eq_spec [symmetric])

end
