(* ===== verification/Auth.thy ===== *)
theory Auth
  imports Auth_Hash
begin

text \<open>
  Authentication of \<open>common/auth.c\<close> above the hash: the key file and its reader, the nonce, the
  verification of a client's response and the \<open>keygen\<close> subcommand. The file system and \<open>getrandom\<close> are
  inputs: a file is what \<open>fopen\<close> delivers, the random source the list of results its calls return.
\<close>

section \<open>Keyring\<close>

definition AUTH_NONCE_BYTES :: nat where "AUTH_NONCE_BYTES = 16"

definition AUTH_MAX_KEYS :: nat where "AUTH_MAX_KEYS = 32"

definition AUTH_KEY_ID_MAX :: nat where "AUTH_KEY_ID_MAX = 64"

definition AUTH_PSK_MAX :: nat where "AUTH_PSK_MAX = 256"

definition AUTH_METHOD_PSK :: string where "AUTH_METHOD_PSK = ''psk-hmac-sha256''"

record auth_key_t =
  key_id :: string
  psk :: string

record auth_keyring_t =
  kr_keys :: "auth_key_t list"
  kr_path :: string
  kr_loaded :: bool

datatype fopen_result = File_absent | File_unreadable | File string

text \<open>\<open>fgets(line, n, f)\<close>: up to \<open>n - 1\<close> bytes, stopping behind a newline; the rest stays in the file.\<close>

definition newline :: char where "newline = CHR 0x0A"

definition fgets_len :: "nat \<Rightarrow> string \<Rightarrow> nat" where
  "fgets_len n s = min (n - 1) (Suc (length (takeWhile (\<lambda>c. c \<noteq> newline) s)))"

definition LINE_CAP :: nat where "LINE_CAP = AUTH_KEY_ID_MAX + AUTH_PSK_MAX + 16"

definition rstrip :: "string \<Rightarrow> string" where
  "rstrip s = rev (dropWhile isspace (rev s))"

datatype key_line = Skip_line | Bad_line | Key_line string string

text \<open>One line of the key file, as the body of the \<open>while\<close> loop cuts it up.\<close>

definition parse_key_line :: "string \<Rightarrow> key_line" where
  "parse_key_line line =
     (let p = dropWhile isspace (cstr line) in
      if p = [] \<or> hd p = CHR ''#'' then Skip_line
      else let p = rstrip p;
               kid = takeWhile (\<lambda>c. \<not> isspace c) p;
               sp = dropWhile (\<lambda>c. \<not> isspace c) p
           in if sp = [] then Bad_line
              else let sp = dropWhile isspace sp in if sp = [] then Bad_line else Key_line kid sp)"

text \<open>
  The reading loop: \<open>Inl\<close> is the return of \<open>-1\<close>, \<open>Inr\<close> the keys read when the loop ends, at the end of the
  file or at the line after the last key that fits.
\<close>

function load_lines :: "string \<Rightarrow> auth_key_t list \<Rightarrow> unit + auth_key_t list" where
  "load_lines s ks =
     (if s = [] then Inr ks
      else let k = fgets_len LINE_CAP s; line = take k s; rest = drop k s in
        case parse_key_line line of
          Skip_line \<Rightarrow> load_lines rest ks
        | Bad_line \<Rightarrow> Inl ()
        | Key_line i p \<Rightarrow>
            if AUTH_MAX_KEYS \<le> length ks then Inr ks
            else if AUTH_KEY_ID_MAX \<le> length i \<or> AUTH_PSK_MAX \<le> length p then Inl ()
            else load_lines rest (ks @ [\<lparr>key_id = i, psk = p\<rparr>]))"
  by pat_completeness auto
termination
  by (relation "measure (\<lambda>(s, ks). length s)")
    (auto simp: fgets_len_def LINE_CAP_def AUTH_KEY_ID_MAX_def)

declare load_lines.simps [simp del]

text \<open>\<open>auth_keyring_load\<close>: \<open>None\<close> is the error return; an absent file is an empty ring that was not loaded.\<close>

definition auth_keyring_load :: "fopen_result \<Rightarrow> string \<Rightarrow> auth_keyring_t option" where
  "auth_keyring_load f path =
     (let kr = \<lparr>kr_keys = [], kr_path = snprintf 512 path, kr_loaded = False\<rparr> in
      case f of
        File_absent \<Rightarrow> Some kr
      | File_unreadable \<Rightarrow> None
      | File s \<Rightarrow>
          (case load_lines s [] of
             Inl _ \<Rightarrow> None
           | Inr ks \<Rightarrow> Some (kr\<lparr>kr_keys := ks, kr_loaded := True\<rparr>)))"

section \<open>Random octets\<close>

datatype getrandom_result = Octets "u8 list" | Interrupted | Random_failed

text \<open>The filling loop shared by the nonce and by keygen; a source that ends is a source that fails.\<close>

fun fill_random :: "nat \<Rightarrow> getrandom_result list \<Rightarrow> (u8 list \<times> getrandom_result list) option" where
  "fill_random 0 rs = Some ([], rs)"
| "fill_random (Suc n) [] = None"
| "fill_random (Suc n) (Random_failed # rs) = None"
| "fill_random (Suc n) (Interrupted # rs) = fill_random (Suc n) rs"
| "fill_random (Suc n) (Octets bs # rs) =
     (let got = take (Suc n) bs in
      case fill_random (Suc n - length got) rs of
        None \<Rightarrow> None | Some (others, rs') \<Rightarrow> Some (got @ others, rs'))"

definition auth_make_nonce :: "getrandom_result list \<Rightarrow> ((u8 list \<times> string) \<times> getrandom_result list) option" where
  "auth_make_nonce rs =
     (case fill_random AUTH_NONCE_BYTES rs of
        None \<Rightarrow> None | Some (raw, rs') \<Rightarrow> Some ((raw, auth_hex raw), rs'))"

lemma fill_random_length: "fill_random n rs = Some (bs, rs') \<Longrightarrow> length bs = n"
proof (induction n rs arbitrary: bs rs' rule: fill_random.induct)
  case (5 n xs rs)
  let ?got = "take (Suc n) xs"
  from "5.prems" obtain ys where ys: "fill_random (Suc n - length ?got) rs = Some (ys, rs')" and bs: "bs = ?got @ ys"
    by (auto simp: Let_def simp del: take_Suc length_take split: option.splits)
  from "5.IH" [OF refl ys] have "length ys = Suc n - length ?got" .
  with bs show ?case by simp
qed simp_all

section \<open>Verification of a response\<close>

definition ct_equal :: "u8 list \<Rightarrow> u8 list \<Rightarrow> bool" where
  "ct_equal a b \<longleftrightarrow> foldl (\<lambda>acc (x, y). acc OR (x XOR y)) 0 (zip a b) = 0"

definition octets_of :: "string \<Rightarrow> u8 list" where
  "octets_of s = map of_char s"

definition auth_verify :: "auth_keyring_t \<Rightarrow> string \<Rightarrow> u8 list \<Rightarrow> string \<Rightarrow> bool" where
  "auth_verify kr kid nonce response_hex =
     (if kr_keys kr = [] \<or> length response_hex \<noteq> 64 then False
      else case hex_decode response_hex of
             None \<Rightarrow> False
           | Some given \<Rightarrow>
               foldl (\<lambda>ok k. if key_id k \<noteq> kid then ok
                             else ok \<or> ct_equal (auth_hmac_sha256 (octets_of (psk k)) nonce) given)
                 False (kr_keys kr))"

section \<open>Keygen\<close>

datatype keygen_args = Keygen_usage | Keygen_unknown | Keygen_run string string bool

text \<open>The option loop: path, key id and the quiet flag, unless help or an unknown argument stops it.\<close>

fun keygen_options :: "string \<Rightarrow> string \<Rightarrow> bool \<Rightarrow> string list \<Rightarrow> keygen_args" where
  "keygen_options path kid quiet [] = Keygen_run path kid quiet"
| "keygen_options path kid quiet (a # as) =
     (if a = ''--keys-file'' \<and> as \<noteq> [] then keygen_options (hd as) kid quiet (tl as)
      else if a = ''--key-id'' \<and> as \<noteq> [] then keygen_options path (hd as) quiet (tl as)
      else if a = ''--quiet'' then keygen_options path kid True as
      else if a = ''-h'' \<or> a = ''--help'' then Keygen_usage
      else Keygen_unknown)"

text \<open>What the system answers to keygen's calls: the file at each path, the random source, whether
  \<open>mkdir\<close> and \<open>open\<close> succeed, and how many bytes \<open>write\<close> takes (none when it fails).\<close>

record keygen_env =
  kg_files :: "string \<Rightarrow> fopen_result"
  kg_random :: "getrandom_result list"
  kg_mkdir_ok :: "string \<Rightarrow> bool"
  kg_open_ok :: bool
  kg_write :: nat

text \<open>\<open>mkdir_parent\<close>: true when there is nothing to create or the directory exists afterwards.\<close>

definition mkdir_parent :: "(string \<Rightarrow> bool) \<Rightarrow> string \<Rightarrow> bool" where
  "mkdir_parent mkdir path =
     (let dir = snprintf 512 path; up = dropWhile (\<lambda>c. c \<noteq> CHR ''/'') (rev dir)
      in if length up \<le> 1 then True else mkdir (rev (tl up)))"

record keygen_result =
  kg_exit :: int
  kg_path :: string
  kg_append :: string
  kg_secret :: "string option"

definition keygen_stop :: "int \<Rightarrow> keygen_result" where
  "keygen_stop rc = \<lparr>kg_exit = rc, kg_path = [], kg_append = [], kg_secret = None\<rparr>"

definition key_text :: "string \<Rightarrow> string \<Rightarrow> string" where
  "key_text i p = i @ '' '' @ p @ [newline]"

definition auth_keygen_main :: "keygen_env \<Rightarrow> string list \<Rightarrow> string \<Rightarrow> keygen_result" where
  "auth_keygen_main env argv default_path =
     (case keygen_options default_path ''default'' False argv of
        Keygen_usage \<Rightarrow> keygen_stop 0
      | Keygen_unknown \<Rightarrow> keygen_stop 2
      | Keygen_run path kid quiet \<Rightarrow>
          if (\<exists>c \<in> set kid. isspace c \<or> c = CHR ''#'') then keygen_stop 2
          else if AUTH_KEY_ID_MAX \<le> length kid then keygen_stop 2
          else (case auth_keyring_load (kg_files env path) path of
             None \<Rightarrow> keygen_stop 1
           | Some kr \<Rightarrow>
               if (\<exists>k \<in> set (kr_keys kr). key_id k = kid) then keygen_stop 1
               else (case fill_random 32 (kg_random env) of
                  None \<Rightarrow> keygen_stop 1
                | Some (raw, _) \<Rightarrow>
                    if \<not> mkdir_parent (kg_mkdir_ok env) path then keygen_stop 1
                    else if \<not> kg_open_ok env then keygen_stop 1
                    else let line = snprintf (AUTH_KEY_ID_MAX + 80) (key_text kid (auth_hex raw))
                         in if kg_write env < length line
                            then (keygen_stop 1)\<lparr>kg_path := path, kg_append := take (kg_write env) line\<rparr>
                            else \<lparr>kg_exit = 0, kg_path = path, kg_append = line,
                                  kg_secret = Some (auth_hex raw)\<rparr>)))"

section \<open>Correctness of the verification\<close>

lemma xor_zero_iff: "x XOR y = 0 \<longleftrightarrow> x = (y :: u8)"
proof
  assume "x XOR y = 0"
  then have "(x XOR y) XOR y = y" by simp
  then show "x = y" by (simp only: xor.assoc xor_self_eq xor.right_neutral)
qed simp

lemma length_hmac_spec [simp, layout]: "length (hmac_spec key msg) = 32"
  using length_hmac [of key msg] by (simp only: hmac_eq_spec)

lemma ct_fold: "foldl (\<lambda>acc (x, y). acc OR (x XOR y)) c (zip a b) = (0 :: u8)
    \<longleftrightarrow> c = 0 \<and> (\<forall>(x, y) \<in> set (zip a b). x = y)"
proof (induction a arbitrary: b c)
  case (Cons x a)
  then show ?case by (cases b) (auto simp: or_eq_0_iff xor_zero_iff)
qed simp

lemma ct_equal_iff: "length a = length b \<Longrightarrow> ct_equal a b \<longleftrightarrow> a = b"
proof -
  assume l: "length a = length b"
  have "ct_equal a b \<longleftrightarrow> (\<forall>(x, y) \<in> set (zip a b). x = y)"
    unfolding ct_equal_def by (simp only: ct_fold) simp
  also have "\<dots> \<longleftrightarrow> a = b"
    using l by (induction a b rule: list_induct2) auto
  finally show ?thesis .
qed

lemma foldl_or: "foldl (\<lambda>ok k. if P k then ok else ok \<or> Q k) b ks \<longleftrightarrow> b \<or> (\<exists>k \<in> set ks. \<not> P k \<and> Q k)"
  by (induction ks arbitrary: b) auto

lemma auth_verify_hmac:
  "auth_verify kr kid nonce resp \<longleftrightarrow>
     (\<exists>k \<in> set (kr_keys kr). key_id k = kid \<and> hex_decode resp = Some (hmac_spec (octets_of (psk k)) nonce))"
proof (cases "hex_decode resp")
  case (Some given)
  have len: "length given = 32 \<longleftrightarrow> length resp = 64" using hex_decode_length [OF Some] by simp
  have eq: "ct_equal (auth_hmac_sha256 key nonce) given \<longleftrightarrow> hmac_spec key nonce = given" if "length given = 32" for key
    using that ct_equal_iff [of "auth_hmac_sha256 key nonce" given] by (simp add: hmac_eq_spec)
  have "hmac_spec key nonce = given \<Longrightarrow> length given = 32" for key
    using length_hmac [of key nonce] by (simp add: hmac_eq_spec)
  with Some len eq show ?thesis by (auto simp: auth_verify_def foldl_or)
qed (auto simp: auth_verify_def)

lemma auth_verify_no_keys: "kr_keys kr = [] \<Longrightarrow> \<not> auth_verify kr kid nonce resp"
  by (simp add: auth_verify_def)

section \<open>The key file: what is written is what is read\<close>

text \<open>Keys a line of the file can hold.\<close>

definition key_ok :: "auth_key_t \<Rightarrow> bool" where
  "key_ok k \<longleftrightarrow>
     key_id k \<noteq> [] \<and> hd (key_id k) \<noteq> CHR ''#'' \<and> (\<forall>c \<in> set (key_id k). \<not> isspace c \<and> c \<noteq> CHR 0x00)
     \<and> length (key_id k) < AUTH_KEY_ID_MAX
     \<and> psk k \<noteq> [] \<and> \<not> isspace (hd (psk k)) \<and> \<not> isspace (last (psk k))
     \<and> (\<forall>c \<in> set (psk k). c \<noteq> CHR 0x00 \<and> c \<noteq> newline) \<and> length (psk k) < AUTH_PSK_MAX"

definition key_file :: "auth_key_t list \<Rightarrow> string" where
  "key_file ks = concat (map (\<lambda>k. key_text (key_id k) (psk k)) ks)"

lemma isspace_sep [simp]: "isspace newline" "isspace (CHR '' '')"
  by (simp_all add: isspace_def newline_def)

lemma dropWhile_hd: "xs \<noteq> [] \<Longrightarrow> \<not> P (hd xs) \<Longrightarrow> dropWhile P (xs @ ys) = xs @ ys"
  by (cases xs) auto

lemma rstrip_newline: "xs \<noteq> [] \<Longrightarrow> \<not> isspace (last xs) \<Longrightarrow> rstrip (xs @ [newline]) = xs"
proof -
  assume "xs \<noteq> []" "\<not> isspace (last xs)"
  then have "dropWhile isspace (rev xs @ []) = rev xs @ []"
    by (intro dropWhile_hd) (auto simp: hd_rev)
  then show ?thesis by (simp add: rstrip_def)
qed

lemma parse_key_text: "key_ok k \<Longrightarrow> parse_key_line (key_text (key_id k) (psk k)) = Key_line (key_id k) (psk k)"
proof -
  assume ok: "key_ok k"
  let ?b = "key_id k @ '' '' @ psk k"
  have kt: "key_text (key_id k) (psk k) = ?b @ [newline]" by (simp add: key_text_def)
  have "cstr (?b @ [newline]) = ?b @ [newline]"
    using ok by (intro cstr_id) (auto simp: key_ok_def newline_def)
  moreover have "dropWhile isspace (?b @ [newline]) = ?b @ [newline]"
    using ok by (intro dropWhile_hd) (auto simp: key_ok_def hd_append)
  moreover have "hd (?b @ [newline]) \<noteq> CHR ''#''" using ok by (auto simp: key_ok_def hd_append)
  moreover have "rstrip (?b @ [newline]) = ?b"
    using ok by (intro rstrip_newline) (auto simp: key_ok_def)
  moreover have "takeWhile (\<lambda>c. \<not> isspace c) ?b = key_id k"
    using ok by (subst takeWhile_append2) (auto simp: key_ok_def)
  moreover have "dropWhile (\<lambda>c. \<not> isspace c) ?b = '' '' @ psk k"
    using ok by (subst dropWhile_append2) (auto simp: key_ok_def)
  moreover have "dropWhile isspace ('' '' @ psk k) = psk k"
    using ok dropWhile_hd [of "psk k" isspace "[]"] by (auto simp: key_ok_def)
  ultimately show ?thesis using ok by (simp add: parse_key_line_def kt key_ok_def)
qed

lemma fgets_key_text: "key_ok k \<Longrightarrow> fgets_len LINE_CAP (key_text (key_id k) (psk k) @ r) = length (key_text (key_id k) (psk k))"
proof -
  assume ok: "key_ok k"
  have "\<forall>c \<in> set (key_id k @ '' '' @ psk k). c \<noteq> newline"
    using ok isspace_sep(1) by (fastforce simp: key_ok_def newline_def)
  then have "takeWhile (\<lambda>c. c \<noteq> newline) ((key_id k @ '' '' @ psk k) @ newline # r) = key_id k @ '' '' @ psk k"
    by (subst takeWhile_append2) auto
  then show ?thesis
    using ok by (simp add: fgets_len_def key_text_def key_ok_def LINE_CAP_def AUTH_KEY_ID_MAX_def AUTH_PSK_MAX_def)
qed

lemma load_key_text:
  assumes "key_ok k" and "length ks < AUTH_MAX_KEYS"
  shows "load_lines (key_text (key_id k) (psk k) @ r) ks = load_lines r (ks @ [k])"
proof -
  have ne: "key_text (key_id k) (psk k) \<noteq> []" by (simp add: key_text_def)
  have k: "\<lparr>key_id = key_id k, psk = psk k\<rparr> = k" by simp
  have len: "length (key_id k) < AUTH_KEY_ID_MAX" "length (psk k) < AUTH_PSK_MAX"
    using assms(1) by (simp_all add: key_ok_def)
  show ?thesis
    using assms(2) ne len
    by (subst load_lines.simps) (simp add: Let_def fgets_key_text [OF assms(1)] parse_key_text [OF assms(1)] k)
qed

lemma load_key_file:
  "\<forall>k \<in> set new. key_ok k \<Longrightarrow> length ks + length new \<le> AUTH_MAX_KEYS \<Longrightarrow>
     load_lines (key_file new) ks = Inr (ks @ new)"
proof (induction new arbitrary: ks)
  case Nil
  then show ?case by (subst load_lines.simps) (simp add: key_file_def)
next
  case (Cons k new)
  then have "load_lines (key_file (k # new)) ks = load_lines (key_file new) (ks @ [k])"
    by (simp add: key_file_def load_key_text)
  with Cons show ?case by simp
qed

text \<open>Appending to a file whose last line is complete leaves the keys before it untouched.\<close>

definition whole_lines :: "string \<Rightarrow> bool" where
  "whole_lines s \<longleftrightarrow> s = [] \<or> last s = newline"

lemma fgets_append:
  assumes "s \<noteq> []" and "last s = newline"
  shows "fgets_len n (s @ t) = fgets_len n s" and "fgets_len n s \<le> length s"
proof -
  have nl: "newline \<in> set s" using assms last_in_set by metis
  then show "fgets_len n (s @ t) = fgets_len n s"
    by (simp add: fgets_len_def takeWhile_append1)
  have "length (takeWhile (\<lambda>c. c \<noteq> newline) s) < length s"
    using nl takeWhile_eq_all_conv [of "\<lambda>c. c \<noteq> newline" s] length_takeWhile_le [of "\<lambda>c. c \<noteq> newline" s]
    by (metis (full_types) le_neq_implies_less takeWhile_eq_take take_all_iff order_refl)
  then show "fgets_len n s \<le> length s" by (simp add: fgets_len_def)
qed

lemma whole_lines_drop: "whole_lines s \<Longrightarrow> whole_lines (drop k s)"
  by (cases "k < length s") (auto simp: whole_lines_def last_drop)

lemma load_lines_append:
  "whole_lines s \<Longrightarrow> load_lines s ks = Inr ks' \<Longrightarrow> length ks' < AUTH_MAX_KEYS \<Longrightarrow>
     load_lines (s @ t) ks = load_lines t ks'"
proof (induction s ks rule: load_lines.induct)
  case (1 s ks)
  show ?case
  proof (cases "s = []")
    case True
    with "1.prems" show ?thesis by (simp add: load_lines.simps [of "[]"])
  next
    case False
    let ?k = "fgets_len LINE_CAP s"
    have w: "last s = newline" using "1.prems"(1) False by (simp add: whole_lines_def)
    have le: "?k \<le> length s" by (rule fgets_append [OF False w])
    have k: "fgets_len LINE_CAP (s @ t) = ?k" by (rule fgets_append [OF False w])
    have d: "whole_lines (drop ?k s)" by (rule whole_lines_drop [OF "1.prems"(1)])
    show ?thesis
      using "1.prems" "1.IH"(1) [OF False refl refl refl _ d] "1.IH"(2) [OF False refl refl refl _ _ _ d] False le
      unfolding load_lines.simps [of s] load_lines.simps [of "s @ t"] k Let_def
      by (cases "parse_key_line (take ?k s)") (simp_all split: if_splits)
  qed
qed

section \<open>Keygen writes a line the reader accepts\<close>

lemma auth_hex_chars: "c \<in> set (auth_hex bs) \<Longrightarrow> c \<in> set hx"
proof -
  assume "c \<in> set (auth_hex bs)"
  moreover have "length hx = 16" by (simp add: hx_def)
  ultimately show ?thesis using nibble_bounds by (auto simp: auth_hex_def intro!: nth_mem)
qed

lemma hx_char_plain: "c \<in> set hx \<Longrightarrow> \<not> isspace c \<and> c \<noteq> CHR 0x00 \<and> c \<noteq> newline"
  by (auto simp: hx_def isspace_def newline_def)

lemma auth_hex_plain: "c \<in> set (auth_hex bs) \<Longrightarrow> \<not> isspace c \<and> c \<noteq> CHR 0x00 \<and> c \<noteq> newline"
  by (rule hx_char_plain [OF auth_hex_chars])

lemma key_ok_generated:
  assumes "kid \<noteq> []" and "\<forall>c \<in> set kid. \<not> isspace c \<and> c \<noteq> CHR ''#'' \<and> c \<noteq> CHR 0x00"
    and "length kid < AUTH_KEY_ID_MAX" and "length raw = 32"
  shows "key_ok \<lparr>key_id = kid, psk = auth_hex raw\<rparr>"
proof -
  have "length (auth_hex raw) = 64" using assms(4) by simp
  then have ne: "auth_hex raw \<noteq> []" by (metis list.size(3) zero_neq_numeral)
  then have "\<not> isspace (hd (auth_hex raw))" "\<not> isspace (last (auth_hex raw))"
    using auth_hex_plain hd_in_set last_in_set by blast+
  then show ?thesis
    using assms ne auth_hex_plain [of _ raw] hd_in_set [OF assms(1)]
    by (auto simp: key_ok_def AUTH_PSK_MAX_def)
qed

definition file_text :: "fopen_result \<Rightarrow> string" where
  "file_text f = (case f of File s \<Rightarrow> s | _ \<Rightarrow> [])"

lemma keygen_success:
  assumes run: "keygen_options dflt ''default'' False argv = Keygen_run path kid quiet"
    and ok: "kg_exit (auth_keygen_main env argv dflt) = 0"
  obtains kr raw rs where
    "auth_keyring_load (kg_files env path) path = Some kr" "kid \<notin> key_id ` set (kr_keys kr)"
    "fill_random 32 (kg_random env) = Some (raw, rs)" "length kid < AUTH_KEY_ID_MAX"
    "\<forall>c \<in> set kid. \<not> isspace c \<and> c \<noteq> CHR ''#''"
    "auth_keygen_main env argv dflt = \<lparr>kg_exit = 0, kg_path = path,
       kg_append = key_text kid (auth_hex raw), kg_secret = Some (auth_hex raw)\<rparr>"
proof -
  note def = auth_keygen_main_def run keygen_args.case keygen_stop_def
  have b1: "(\<exists>c \<in> set kid. isspace c \<or> c = CHR ''#'') = False"
  proof (rule ccontr)
    assume "\<not> ?thesis"
    then have "kg_exit (auth_keygen_main env argv dflt) = 2" by (simp only: def) simp
    with ok show False by simp
  qed
  then have plain: "\<forall>c \<in> set kid. \<not> isspace c \<and> c \<noteq> CHR ''#''" by blast
  have len: "length kid < AUTH_KEY_ID_MAX"
    using ok run b1 by (rule_tac ccontr) (simp add: def)
  obtain kr where kr: "auth_keyring_load (kg_files env path) path = Some kr"
    using ok run b1 len by (cases "auth_keyring_load (kg_files env path) path") (simp_all add: def)
  have b2: "(\<exists>k \<in> set (kr_keys kr). key_id k = kid) = False"
    using ok run b1 len kr by (rule_tac ccontr) (simp add: def)
  then have fresh: "kid \<notin> key_id ` set (kr_keys kr)" by blast
  obtain raw rs where raw: "fill_random 32 (kg_random env) = Some (raw, rs)"
    using ok run b1 b2 len kr by (cases "fill_random 32 (kg_random env)") (simp_all add: def, metis surj_pair)
  have res: "auth_keygen_main env argv dflt = \<lparr>kg_exit = 0, kg_path = path,
       kg_append = snprintf (AUTH_KEY_ID_MAX + 80) (key_text kid (auth_hex raw)), kg_secret = Some (auth_hex raw)\<rparr>"
    using ok run b1 b2 len kr raw by (simp add: def Let_def split: if_splits)
  have "length raw = 32" using raw by (rule fill_random_length)
  then have "length (key_text kid (auth_hex raw)) < AUTH_KEY_ID_MAX + 80"
    using len by (simp add: key_text_def)
  with res kr fresh raw len plain show ?thesis by (intro that) (simp_all add: snprintf_fits)
qed

text \<open>The interplay of the two: the ring that is loaded after a successful run is the old one and the new key.\<close>

lemma keygen_then_load:
  assumes run: "keygen_options dflt ''default'' False argv = Keygen_run path kid quiet"
    and ok: "kg_exit (auth_keygen_main env argv dflt) = 0"
    and kid: "kid \<noteq> []" "CHR 0x00 \<notin> set kid"
    and old: "auth_keyring_load (kg_files env path) path = Some kr"
    and room: "length (kr_keys kr) < AUTH_MAX_KEYS" and whole: "whole_lines (file_text (kg_files env path))"
  shows "\<exists>secret. kg_secret (auth_keygen_main env argv dflt) = Some secret \<and>
    auth_keyring_load (File (file_text (kg_files env path) @ kg_append (auth_keygen_main env argv dflt))) path
      = Some (kr\<lparr>kr_keys := kr_keys kr @ [\<lparr>key_id = kid, psk = secret\<rparr>], kr_loaded := True\<rparr>)"
proof -
  let ?s = "file_text (kg_files env path)"
  from keygen_success [OF run ok] obtain raw rs where
    raw: "fill_random 32 (kg_random env) = Some (raw, rs)" and len: "length kid < AUTH_KEY_ID_MAX"
    and plain: "\<forall>c \<in> set kid. \<not> isspace c \<and> c \<noteq> CHR ''#''"
    and res: "auth_keygen_main env argv dflt = \<lparr>kg_exit = 0, kg_path = path,
       kg_append = key_text kid (auth_hex raw), kg_secret = Some (auth_hex raw)\<rparr>"
    by metis
  let ?k = "\<lparr>key_id = kid, psk = auth_hex raw\<rparr>"
  have k: "key_ok ?k"
    using kid plain len fill_random_length [OF raw] by (intro key_ok_generated) auto
  have kr: "load_lines ?s [] = Inr (kr_keys kr)" "kr_path kr = snprintf 512 path"
    using old by (auto simp: auth_keyring_load_def file_text_def load_lines.simps [of "[]"] Let_def
        split: fopen_result.splits sum.splits)
  have "load_lines (?s @ key_text kid (auth_hex raw)) [] = load_lines (key_text kid (auth_hex raw)) (kr_keys kr)"
    by (rule load_lines_append [OF whole kr(1) room])
  also have "\<dots> = Inr (kr_keys kr @ [?k])"
    using load_key_text [OF k room, of "[]"] by (simp add: load_lines.simps [of "[]"])
  finally show ?thesis using res kr(2) by (simp add: auth_keyring_load_def)
qed

section \<open>Properties\<close>


text \<open>
  A key file of at most 32 well-formed \<open>key_id psk\<close> lines loads to exactly its keys, in order.
\<close>

theorem key_file_loads:
  assumes "\<forall>k \<in> set keys. key_ok k" and "length keys \<le> AUTH_MAX_KEYS"
  shows "auth_keyring_load (File (key_file keys)) path
    = Some \<lparr>kr_keys = keys, kr_path = snprintf 512 path, kr_loaded = True\<rparr>"
  using load_key_file [of keys "[]"] assms by (simp add: auth_keyring_load_def Let_def)

theorem key_file_loads_witness:
  "auth_keyring_load (File (key_file [\<lparr>key_id = ''default'', psk = ''s3cret''\<rparr>, \<lparr>key_id = ''k2'', psk = ''abcd''\<rparr>])) ''/k''
    = Some \<lparr>kr_keys = [\<lparr>key_id = ''default'', psk = ''s3cret''\<rparr>, \<lparr>key_id = ''k2'', psk = ''abcd''\<rparr>], kr_path = ''/k'', kr_loaded = True\<rparr>"
  using key_file_loads [of "[\<lparr>key_id = ''default'', psk = ''s3cret''\<rparr>, \<lparr>key_id = ''k2'', psk = ''abcd''\<rparr>]" "''/k''"]
  by (simp add: key_ok_def AUTH_MAX_KEYS_def AUTH_KEY_ID_MAX_def AUTH_PSK_MAX_def isspace_def newline_def snprintf_def)


definition first_run :: keygen_env where
  "first_run = \<lparr>kg_files = \<lambda>_. File_absent, kg_random = [Octets (replicate 32 0xA5)], kg_mkdir_ok = \<lambda>_. True,
     kg_open_ok = True, kg_write = 1000\<rparr>"


end
