(* ===== verification/Jsmn.thy ===== *)
theory Jsmn
  imports Config
begin

text \<open>
  The embedded tokeniser \<open>json/jsmn.h\<close> (built without \<open>JSMN_STRICT\<close> and \<open>JSMN_PARENT_LINKS\<close>) and the token
  helpers of \<open>json/json_builder.h\<close>. The token array is the list of the tokens allocated so far; a
  token index at or beyond it names a stale or uninitialised slot, and reading one is the value
  \<open>None\<close>.
\<close>

section \<open>Tokens and parser state\<close>

datatype jsmntype_t = JSMN_UNDEFINED | JSMN_OBJECT | JSMN_ARRAY | JSMN_STRING | JSMN_PRIMITIVE

datatype jsmnerr_t = JSMN_ERROR_NOMEM | JSMN_ERROR_INVAL | JSMN_ERROR_PART

record jsmntok_t =
  tk_type :: jsmntype_t
  tk_start :: int
  tk_end :: int
  tk_size :: int

record jsmn_parser =
  ps_pos :: nat
  ps_toksuper :: int
  ps_tokens :: "jsmntok_t list"
  ps_count :: nat

definition jsmn_init :: jsmn_parser where
  "jsmn_init = \<lparr>ps_pos = 0, ps_toksuper = - 1, ps_tokens = [], ps_count = 0\<rparr>"

definition jsmn_alloc_token :: "nat \<Rightarrow> jsmntok_t \<Rightarrow> jsmntok_t list \<Rightarrow> jsmntok_t list option" where
  "jsmn_alloc_token num tok toks = (if num \<le> length toks then None else Some (toks @ [tok]))"

section \<open>Scanners\<close>

definition prim_delim :: "char \<Rightarrow> bool" where
  "prim_delim c \<longleftrightarrow> c \<in> {CHR '':'', CHR '','', CHR '']'', CHR ''}'', CHR '' '', CHR 0x09, CHR 0x0D, CHR 0x0A}"

definition prim_char :: "char \<Rightarrow> bool" where
  "prim_char c \<longleftrightarrow> 32 \<le> (of_char c :: nat) \<and> (of_char c :: nat) < 127"

text \<open>The loop of \<open>jsmn_parse_primitive\<close>: where the primitive that starts here ends.\<close>

function prim_end :: "string \<Rightarrow> nat \<Rightarrow> jsmnerr_t + nat" where
  "prim_end js pos =
     (if pos < length js \<and> js ! pos \<noteq> CHR 0x00 then
        (if prim_delim (js ! pos) then Inr pos
         else if \<not> prim_char (js ! pos) then Inl JSMN_ERROR_INVAL
         else prim_end js (Suc pos))
      else Inr pos)"
  by pat_completeness auto
termination
  by (relation "measure (\<lambda>(js, pos). length js - pos)") auto

declare prim_end.simps [simp del]

definition is_hex :: "char \<Rightarrow> bool" where
  "is_hex h \<longleftrightarrow> (let n = (of_char h :: nat) in (48 \<le> n \<and> n \<le> 57) \<or> (65 \<le> n \<and> n \<le> 70) \<or> (97 \<le> n \<and> n \<le> 102))"

text \<open>Up to four hexadecimal digits of a \<open>\\u\<close> escape; the end of the input stops the loop early.\<close>

fun hex_digits :: "string \<Rightarrow> nat \<Rightarrow> nat \<Rightarrow> jsmnerr_t + nat" where
  "hex_digits js pos 0 = Inr pos"
| "hex_digits js pos (Suc k) =
     (if pos < length js then
        (if is_hex (js ! pos) then hex_digits js (Suc pos) k else Inl JSMN_ERROR_INVAL)
      else Inr pos)"

lemma hex_digits_ge: "hex_digits js pos k = Inr p \<Longrightarrow> pos \<le> p"
  by (induction js pos k rule: hex_digits.induct) (auto split: if_splits)

text \<open>The loop of \<open>jsmn_parse_string\<close> after the opening quote: the position of the closing quote.\<close>

definition simple_escape :: "char \<Rightarrow> bool" where
  "simple_escape c \<longleftrightarrow> c \<in> {CHR 0x22, CHR ''/'', CHR 0x5C, CHR ''b'', CHR ''f'', CHR ''r'', CHR ''n'', CHR ''t''}"

function str_end :: "string \<Rightarrow> nat \<Rightarrow> jsmnerr_t + nat" where
  "str_end js pos =
     (if pos < length js then
        (if js ! pos = CHR 0x22 then Inr pos
         else if js ! pos = CHR 0x5C \<and> Suc pos < length js then
           (if simple_escape (js ! Suc pos) then str_end js (pos + 2)
            else if js ! Suc pos = CHR ''u'' then
              (case hex_digits js (pos + 2) 4 of Inl e \<Rightarrow> Inl e | Inr p \<Rightarrow> str_end js p)
            else Inl JSMN_ERROR_INVAL)
         else str_end js (Suc pos))
      else Inl JSMN_ERROR_PART)"
  by pat_completeness auto
termination
  by (relation "measure (\<lambda>(js, pos). length js - pos)") (auto dest: hex_digits_ge)

declare str_end.simps [simp del]

text \<open>\<open>jsmn_parse_primitive\<close> and \<open>jsmn_parse_string\<close>: the token is appended, the position left on its last byte.\<close>

definition jsmn_parse_primitive :: "nat \<Rightarrow> string \<Rightarrow> jsmn_parser \<Rightarrow> jsmnerr_t + jsmn_parser" where
  "jsmn_parse_primitive num js p =
     (case prim_end js (ps_pos p) of
        Inl e \<Rightarrow> Inl e
      | Inr q \<Rightarrow>
          (case jsmn_alloc_token num \<lparr>tk_type = JSMN_PRIMITIVE, tk_start = int (ps_pos p), tk_end = int q,
                                       tk_size = 0\<rparr> (ps_tokens p) of
             None \<Rightarrow> Inl JSMN_ERROR_NOMEM
           | Some toks \<Rightarrow> Inr (p\<lparr>ps_pos := q - 1, ps_tokens := toks\<rparr>)))"

definition jsmn_parse_string :: "nat \<Rightarrow> string \<Rightarrow> jsmn_parser \<Rightarrow> jsmnerr_t + jsmn_parser" where
  "jsmn_parse_string num js p =
     (case str_end js (Suc (ps_pos p)) of
        Inl e \<Rightarrow> Inl e
      | Inr q \<Rightarrow>
          (case jsmn_alloc_token num \<lparr>tk_type = JSMN_STRING, tk_start = int (ps_pos p) + 1, tk_end = int q,
                                       tk_size = 0\<rparr> (ps_tokens p) of
             None \<Rightarrow> Inl JSMN_ERROR_NOMEM
           | Some toks \<Rightarrow> Inr (p\<lparr>ps_pos := q, ps_tokens := toks\<rparr>)))"

section \<open>The main loop\<close>

definition tok_open :: "jsmntok_t \<Rightarrow> bool" where
  "tok_open t \<longleftrightarrow> tk_start t \<noteq> - 1 \<and> tk_end t = - 1"

text \<open>The downward \<open>for\<close> loops over the token array: the last index that satisfies a test.\<close>

fun find_last :: "('a \<Rightarrow> bool) \<Rightarrow> 'a list \<Rightarrow> nat option" where
  "find_last P [] = None"
| "find_last P (x # xs) =
     (case find_last P xs of Some i \<Rightarrow> Some (Suc i) | None \<Rightarrow> if P x then Some 0 else None)"

definition bump_size :: "int \<Rightarrow> jsmntok_t list \<Rightarrow> jsmntok_t list" where
  "bump_size parent toks =
     (if parent \<noteq> - 1
      then toks[nat parent := (toks ! nat parent)\<lparr>tk_size := tk_size (toks ! nat parent) + 1\<rparr>] else toks)"

definition open_bracket :: "nat \<Rightarrow> jsmntype_t \<Rightarrow> jsmn_parser \<Rightarrow> jsmnerr_t + jsmn_parser" where
  "open_bracket num ty p =
     (case jsmn_alloc_token num \<lparr>tk_type = ty, tk_start = int (ps_pos p), tk_end = - 1, tk_size = 0\<rparr>
             (bump_size (ps_toksuper p) (ps_tokens p)) of
        None \<Rightarrow> Inl JSMN_ERROR_NOMEM
      | Some toks \<Rightarrow> Inr (p\<lparr>ps_tokens := toks, ps_toksuper := int (length toks) - 1,
                            ps_count := Suc (ps_count p)\<rparr>))"

definition close_bracket :: "jsmntype_t \<Rightarrow> jsmn_parser \<Rightarrow> jsmnerr_t + jsmn_parser" where
  "close_bracket ty p =
     (case find_last tok_open (ps_tokens p) of
        None \<Rightarrow> Inl JSMN_ERROR_INVAL
      | Some i \<Rightarrow>
          if tk_type (ps_tokens p ! i) \<noteq> ty then Inl JSMN_ERROR_INVAL
          else let toks = (ps_tokens p)[i := (ps_tokens p ! i)\<lparr>tk_end := int (ps_pos p) + 1\<rparr>]
               in Inr (p\<lparr>ps_tokens := toks,
                         ps_toksuper := (case find_last tok_open (take (Suc i) toks) of
                                           Some j \<Rightarrow> int j | None \<Rightarrow> - 1)\<rparr>))"

definition container :: "jsmntok_t \<Rightarrow> bool" where
  "container t \<longleftrightarrow> tk_type t = JSMN_ARRAY \<or> tk_type t = JSMN_OBJECT"

definition comma :: "jsmn_parser \<Rightarrow> jsmn_parser" where
  "comma p =
     (if ps_toksuper p \<noteq> - 1 \<and> \<not> container (ps_tokens p ! nat (ps_toksuper p)) then
        (case find_last (\<lambda>t. container t \<and> tok_open t) (ps_tokens p) of
           Some i \<Rightarrow> p\<lparr>ps_toksuper := int i\<rparr> | None \<Rightarrow> p)
      else p)"

text \<open>A token that is neither bracket adds one child to the current parent.\<close>

definition count_child :: "jsmn_parser \<Rightarrow> jsmn_parser" where
  "count_child p = p\<lparr>ps_tokens := bump_size (ps_toksuper p) (ps_tokens p), ps_count := Suc (ps_count p)\<rparr>"

text \<open>One pass of the \<open>switch\<close> in \<open>jsmn_parse\<close>.\<close>

definition jsmn_step :: "nat \<Rightarrow> string \<Rightarrow> jsmn_parser \<Rightarrow> jsmnerr_t + jsmn_parser" where
  "jsmn_step num js p =
     (let c = js ! ps_pos p in
      if c = CHR ''{'' then open_bracket num JSMN_OBJECT p
      else if c = CHR ''['' then open_bracket num JSMN_ARRAY p
      else if c = CHR ''}'' then close_bracket JSMN_OBJECT p
      else if c = CHR '']'' then close_bracket JSMN_ARRAY p
      else if c = CHR 0x22 then
        (case jsmn_parse_string num js p of Inl e \<Rightarrow> Inl e | Inr q \<Rightarrow> Inr (count_child q))
      else if c \<in> {CHR 0x09, CHR 0x0D, CHR 0x0A, CHR '' ''} then Inr p
      else if c = CHR '':'' then Inr (p\<lparr>ps_toksuper := int (length (ps_tokens p)) - 1\<rparr>)
      else if c = CHR '','' then Inr (comma p)
      else (case jsmn_parse_primitive num js p of Inl e \<Rightarrow> Inl e | Inr q \<Rightarrow> Inr (count_child q)))"


text \<open>The scanners move forward, so one pass never moves the position back.\<close>

lemma prim_end_ge: "prim_end js pos = Inr q \<Longrightarrow> pos \<le> q"
proof (induction js pos rule: prim_end.induct)
  case (1 js pos)
  show ?case
    using "1.prems" "1.IH" unfolding prim_end.simps [of js pos] by (auto split: if_splits)
qed

lemma prim_end_gt:
  assumes "prim_end js pos = Inr q" and "pos < length js" and "js ! pos \<noteq> CHR 0x00" and "\<not> prim_delim (js ! pos)"
  shows "pos < q"
  using assms by (subst (asm) prim_end.simps) (auto split: if_splits dest!: prim_end_ge)

lemma str_end_ge: "str_end js pos = Inr q \<Longrightarrow> pos \<le> q"
proof (induction js pos rule: str_end.induct)
  case (1 js pos)
  have hex: "hex_digits js (pos + 2) 4 = Inr p \<Longrightarrow> p \<le> q \<Longrightarrow> pos \<le> q" for p
    using hex_digits_ge by fastforce
  show ?case
    using "1.prems" "1.IH" hex unfolding str_end.simps [of js pos]
    by (auto split: if_splits sum.splits)
qed

lemma comma_pos [simp, frame]: "ps_pos (comma p) = ps_pos p"
  by (simp add: comma_def split: option.splits)

lemma count_child_pos [simp, frame]: "ps_pos (count_child p) = ps_pos p"
  by (simp add: count_child_def)

lemma jsmn_step_pos:
  assumes "jsmn_step num js p = Inr p'" and "ps_pos p < length js" and "js ! ps_pos p \<noteq> CHR 0x00"
  shows "ps_pos p \<le> ps_pos p'"
proof -
  let ?c = "js ! ps_pos p"
  have prim: "\<not> prim_delim ?c \<Longrightarrow> jsmn_parse_primitive num js p = Inr q \<Longrightarrow> ps_pos p \<le> ps_pos q" for q
    using assms(2,3) by (auto simp: jsmn_parse_primitive_def split: sum.splits option.splits dest!: prim_end_gt)
  have str: "jsmn_parse_string num js p = Inr q \<Longrightarrow> ps_pos p \<le> ps_pos q" for q
    by (auto simp: jsmn_parse_string_def split: sum.splits option.splits dest!: str_end_ge)
  note prim' = prim [unfolded prim_delim_def, simplified]
  from assms(1) show ?thesis
    by (auto simp: jsmn_step_def Let_def open_bracket_def close_bracket_def
        split: if_splits sum.splits option.splits intro: str prim')
qed

function jsmn_loop :: "nat \<Rightarrow> string \<Rightarrow> jsmn_parser \<Rightarrow> jsmnerr_t + jsmn_parser" where
  "jsmn_loop num js p =
     (if ps_pos p < length js \<and> js ! ps_pos p \<noteq> CHR 0x00 then
        (case jsmn_step num js p of
           Inl e \<Rightarrow> Inl e
         | Inr p' \<Rightarrow> jsmn_loop num js (p'\<lparr>ps_pos := Suc (ps_pos p')\<rparr>))
      else Inr p)"
  by pat_completeness auto
termination
  by (relation "measure (\<lambda>(num, js, p). length js - ps_pos p)") (auto dest!: jsmn_step_pos)

declare jsmn_loop.simps [simp del]

text \<open>\<open>jsmn_parse\<close> on a fresh parser: the tokens, of which the C function returns the number.\<close>

definition jsmn_parse :: "nat \<Rightarrow> string \<Rightarrow> jsmnerr_t + jsmntok_t list" where
  "jsmn_parse num js =
     (case jsmn_loop num js jsmn_init of
        Inl e \<Rightarrow> Inl e
      | Inr p \<Rightarrow> if find_last tok_open (ps_tokens p) \<noteq> None then Inl JSMN_ERROR_PART
                 else Inr (take (ps_count p) (ps_tokens p)))"

section \<open>Token helpers\<close>

definition tok_at :: "jsmntok_t list \<Rightarrow> nat \<Rightarrow> jsmntok_t option" where
  "tok_at toks i = (if i < length toks then Some (toks ! i) else None)"

definition tok_text :: "string \<Rightarrow> jsmntok_t \<Rightarrow> string" where
  "tok_text js t = take (nat (tk_end t - tk_start t)) (drop (nat (tk_start t)) js)"

text \<open>\<open>tok_eq\<close>: same length and same bytes.\<close>

definition tok_eq :: "string \<Rightarrow> jsmntok_t \<Rightarrow> string \<Rightarrow> bool" where
  "tok_eq js t s \<longleftrightarrow> tk_end t - tk_start t = int (length s) \<and> tok_text js t = s"

text \<open>\<open>tok_str\<close>: the C string left in a buffer of \<open>cap\<close> bytes.\<close>

definition tok_str :: "string \<Rightarrow> jsmntok_t \<Rightarrow> nat \<Rightarrow> string" where
  "tok_str js t cap = cstr (take (cap - 1) (tok_text js t))"

text \<open>The subtree skip of \<open>tok_find_key\<close>; it leaves the array when the tokens do not nest.\<close>

function skip_tree :: "jsmntok_t list \<Rightarrow> int \<Rightarrow> nat \<Rightarrow> nat option" where
  "skip_tree toks skip i =
     (if 0 < skip then
        (if i < length toks then skip_tree toks (skip + tk_size (toks ! i) - 1) (Suc i) else None)
      else Some i)"
  by pat_completeness auto
termination
  by (relation "measure (\<lambda>(toks, skip, i). length toks - i)") auto

declare skip_tree.simps [simp del]

fun find_key_loop :: "string \<Rightarrow> jsmntok_t list \<Rightarrow> string \<Rightarrow> nat \<Rightarrow> nat \<Rightarrow> nat option option" where
  "find_key_loop js toks key 0 i = Some None"
| "find_key_loop js toks key (Suc k) i =
     (case tok_at toks i of
        None \<Rightarrow> None
      | Some t \<Rightarrow>
          if tok_eq js t key then Some (Some (Suc i))
          else (case skip_tree toks 1 (Suc i) of
                  None \<Rightarrow> None | Some j \<Rightarrow> find_key_loop js toks key k j))"

text \<open>
  \<open>tok_find_key\<close>: \<open>Some (Some i)\<close> is a found value at token \<open>i\<close>, \<open>Some None\<close> the result \<open>-1\<close>, and \<open>None\<close> a
  walk that read past the parsed tokens.
\<close>

definition tok_find_key :: "string \<Rightarrow> jsmntok_t list \<Rightarrow> nat \<Rightarrow> string \<Rightarrow> nat option option" where
  "tok_find_key js toks obj key =
     (case tok_at toks obj of
        None \<Rightarrow> None
      | Some t \<Rightarrow> find_key_loop js toks key (nat (tk_size t)) (Suc obj))"

definition tok_is_true :: "string \<Rightarrow> jsmntok_t \<Rightarrow> bool" where
  "tok_is_true js t \<longleftrightarrow> tk_type t = JSMN_PRIMITIVE \<and> tk_end t - tk_start t = 4 \<and> tok_text js t = ''true''"

definition tok_is_false :: "string \<Rightarrow> jsmntok_t \<Rightarrow> bool" where
  "tok_is_false js t \<longleftrightarrow> tk_type t = JSMN_PRIMITIVE \<and> tk_end t - tk_start t = 5 \<and> tok_text js t = ''false''"

definition tok_is_bool :: "string \<Rightarrow> jsmntok_t \<Rightarrow> bool" where
  "tok_is_bool js t \<longleftrightarrow> tok_is_true js t \<or> tok_is_false js t"

end
