(* ===== verification/Jsmn_Roundtrip.thy ===== *)
theory Jsmn_Roundtrip
  imports Jsmn
begin

text \<open>
  JSON values, their text and the tokens that describe it, and the theorem that the tokeniser of \<open>json/jsmn.h\<close> finds exactly
  those tokens in that text; then what the key lookup of \<open>json/json_builder.h\<close> finds among them.
\<close>

section \<open>JSON text\<close>

text \<open>A string holds the characters between its quotes as written, escapes included; a primitive is any other scalar.\<close>

datatype json = JObj "(string \<times> json) list" | JArr "json list" | JStr string | JPrim string

text \<open>What may stand inside a JSON string literal: no control character, quotes and backslashes only in escapes.\<close>

fun json_safe :: "string \<Rightarrow> bool" where
  "json_safe [] = True"
| "json_safe (c # s) =
     (if c = CHR 0x5C then
        (case s of
           [] \<Rightarrow> False
         | d # r \<Rightarrow> if d = CHR ''u'' then 4 \<le> length r \<and> list_all is_hex (take 4 r) \<and> json_safe (drop 4 r)
                    else simple_escape d \<and> json_safe r)
      else c \<noteq> CHR 0x22 \<and> 32 \<le> (of_char c :: nat) \<and> json_safe s)"

definition prim_ok :: "string \<Rightarrow> bool" where
  "prim_ok s \<longleftrightarrow> s \<noteq> [] \<and> list_all (\<lambda>c. prim_char c \<and> \<not> prim_delim c) s \<and> hd s \<notin> {CHR ''{'', CHR ''['', CHR 0x22}"

fun jwf :: "json \<Rightarrow> bool" where
  "jwf (JObj kvs) = list_all (\<lambda>(k, v). json_safe k \<and> jwf v) kvs"
| "jwf (JArr vs) = list_all jwf vs"
| "jwf (JStr s) = json_safe s"
| "jwf (JPrim s) = prim_ok s"

text \<open>The text of a value, with the white space \<open>ws\<close> behind every opening bracket, colon and comma.\<close>

definition quoted_text :: "string \<Rightarrow> string" where
  "quoted_text s = CHR 0x22 # s @ [CHR 0x22]"

fun sep_text :: "string \<Rightarrow> string list \<Rightarrow> string" where
  "sep_text ws [] = []"
| "sep_text ws (x # xs) = x @ (if xs = [] then [] else CHR '','' # ws @ sep_text ws xs)"

fun jtext :: "string \<Rightarrow> json \<Rightarrow> string" where
  "jtext ws (JObj kvs) =
     CHR ''{'' # ws @ sep_text ws (map (\<lambda>(k, v). quoted_text k @ CHR '':'' # ws @ jtext ws v) kvs) @ [CHR ''}'']"
| "jtext ws (JArr vs) = CHR ''['' # ws @ sep_text ws (map (jtext ws) vs) @ [CHR '']'']"
| "jtext ws (JStr s) = quoted_text s"
| "jtext ws (JPrim s) = s"

definition member_text :: "string \<Rightarrow> string \<times> json \<Rightarrow> string" where
  "member_text ws kv = quoted_text (fst kv) @ CHR '':'' # ws @ jtext ws (snd kv)"

definition jtok :: "jsmntype_t \<Rightarrow> nat \<Rightarrow> nat \<Rightarrow> nat \<Rightarrow> jsmntok_t" where
  "jtok ty a b n = \<lparr>tk_type = ty, tk_start = int a, tk_end = int b, tk_size = int n\<rparr>"

text \<open>Laying out the tokens of consecutive items: each starts behind the text of the one before and a separator.\<close>

fun lay_toks :: "nat \<Rightarrow> (nat \<Rightarrow> 'a \<Rightarrow> 'b list) \<Rightarrow> ('a \<Rightarrow> nat) \<Rightarrow> nat \<Rightarrow> 'a list \<Rightarrow> 'b list" where
  "lay_toks gap f len pos [] = []"
| "lay_toks gap f len pos (x # xs) = f pos x @ lay_toks gap f len (pos + len x + gap) xs"

lemma lay_toks_cong [fundef_cong]:
  "gap = gap' \<Longrightarrow> pos = pos' \<Longrightarrow> xs = ys \<Longrightarrow> (\<And>p x. x \<in> set ys \<Longrightarrow> f p x = g p x) \<Longrightarrow> (\<And>x. x \<in> set ys \<Longrightarrow> l x = m x) \<Longrightarrow>
     lay_toks gap f l pos xs = lay_toks gap' g m pos' ys"
  by (induction xs arbitrary: pos pos' ys) auto

fun jtoks :: "string \<Rightarrow> nat \<Rightarrow> json \<Rightarrow> jsmntok_t list" where
  "jtoks ws pos (JObj kvs) =
     jtok JSMN_OBJECT pos (pos + length (jtext ws (JObj kvs))) (length kvs)
     # lay_toks (Suc (length ws))
         (\<lambda>p (k, v). jtok JSMN_STRING (Suc p) (Suc (p + length k)) 1 # jtoks ws (p + length k + 3 + length ws) v)
         (\<lambda>kv. length (member_text ws kv)) (Suc (pos + length ws)) kvs"
| "jtoks ws pos (JArr vs) =
     jtok JSMN_ARRAY pos (pos + length (jtext ws (JArr vs))) (length vs)
     # lay_toks (Suc (length ws)) (jtoks ws) (\<lambda>v. length (jtext ws v)) (Suc (pos + length ws)) vs"
| "jtoks ws pos (JStr s) = [jtok JSMN_STRING (Suc pos) (Suc (pos + length s)) 0]"
| "jtoks ws pos (JPrim s) = [jtok JSMN_PRIMITIVE pos (pos + length s) 0]"

section \<open>Scanning\<close>

text \<open>\<open>s\<close> stands in \<open>js\<close> at \<open>pos\<close>; a primitive may end where the text, a NUL or a delimiter follows.\<close>

fun text_at :: "string \<Rightarrow> nat \<Rightarrow> string \<Rightarrow> bool" where
  "text_at js pos [] = True"
| "text_at js pos (c # s) \<longleftrightarrow> pos < length js \<and> js ! pos = c \<and> text_at js (Suc pos) s"

lemma text_at_append [simp]: "text_at js pos (a @ b) \<longleftrightarrow> text_at js pos a \<and> text_at js (pos + length a) b"
  by (induction a arbitrary: pos) auto

lemma text_at_here: "text_at (pre @ s @ post) (length pre) s"
proof (induction s arbitrary: pre)
  case (Cons c s)
  from Cons [of "pre @ [c]"] show ?case by simp
qed simp

lemma text_at_take: "text_at js pos s \<longleftrightarrow> take (length s) (drop pos js) = s"
proof (induction s arbitrary: pos)
  case (Cons c s)
  show ?case
  proof (cases "pos < length js")
    case True
    then show ?thesis by (simp add: Cons Cons_nth_drop_Suc [symmetric])
  qed simp
qed simp

definition prim_stop :: "string \<Rightarrow> nat \<Rightarrow> bool" where
  "prim_stop js q \<longleftrightarrow> length js \<le> q \<or> js ! q = CHR 0x00 \<or> prim_delim (js ! q)"

lemma prim_end_has:
  "text_at js pos s \<Longrightarrow> list_all (\<lambda>c. prim_char c \<and> \<not> prim_delim c) s \<Longrightarrow> prim_stop js (pos + length s) \<Longrightarrow> prim_end js pos = Inr (pos + length s)"
proof (induction s arbitrary: pos)
  case Nil
  then show ?case by (subst prim_end.simps) (auto simp: prim_stop_def)
next
  case (Cons c s)
  then have "c \<noteq> CHR 0x00" by (auto simp: prim_char_def)
  with Cons show ?case by (subst prim_end.simps) auto
qed

lemma hex_digits_has: "text_at js pos s \<Longrightarrow> list_all is_hex s \<Longrightarrow> hex_digits js pos (length s) = Inr (pos + length s)"
  by (induction s arbitrary: pos) auto

lemma str_end_has: "text_at js pos (s @ [CHR 0x22]) \<Longrightarrow> json_safe s \<Longrightarrow> str_end js pos = Inr (pos + length s)"
proof (induction s arbitrary: pos rule: json_safe.induct)
  case 1
  then show ?case by (subst str_end.simps) simp
next
  case (2 c s)
  show ?case
  proof (cases "c = CHR 0x5C")
    case False
    with 2 show ?thesis by (subst str_end.simps) auto
  next
    case True
    with 2 obtain d r where s: "s = d # r" by (cases s) auto
    show ?thesis
    proof (cases "d = CHR ''u''")
      case u: True
      have r: "4 \<le> length r" "list_all is_hex (take 4 r)" "json_safe (drop 4 r)" using 2(5) True s u by auto
      have h: "text_at js pos (c # d # take 4 r @ drop 4 r @ [CHR 0x22])"
        using 2(4) unfolding s by (metis append_Cons append_assoc append_take_drop_id)
      have len: "length (take 4 r) = 4" using r(1) by simp
      have "hex_digits js (pos + 2) 4 = Inr (pos + 2 + 4)"
        using hex_digits_has [of js "pos + 2" "take 4 r"] h r(2) unfolding len by simp
      moreover have "str_end js (pos + 2 + 4) = Inr (pos + 2 + 4 + length (drop 4 r))"
        using h r len by (intro 2(1) [OF True s u]) simp_all
      ultimately show ?thesis
        using h r(1) True u s by (subst str_end.simps) (simp add: simple_escape_def)
    next
      case nu: False
      have "str_end js (pos + 2) = Inr (pos + 2 + length r)"
        using 2(4,5) True s nu by (intro 2(2) [OF True s nu]) auto
      then show ?thesis using 2(4,5) True s nu by (subst str_end.simps) auto
    qed
  qed
qed

section \<open>Moves of the parser\<close>

definition parser_at :: "nat \<Rightarrow> int \<Rightarrow> jsmntok_t list \<Rightarrow> jsmn_parser" where
  "parser_at pos s toks = \<lparr>ps_pos = pos, ps_toksuper = s, ps_tokens = toks, ps_count = length toks\<rparr>"

lemma parser_at_sel [simp]: "ps_pos (parser_at pos s toks) = pos" "ps_toksuper (parser_at pos s toks) = s" "ps_tokens (parser_at pos s toks) = toks"
  "ps_count (parser_at pos s toks) = length toks"
  by (simp_all add: parser_at_def)

lemma bump_length [simp]: "length (bump_size s toks) = length toks"
  by (simp add: bump_size_def)

definition in_toks :: "int \<Rightarrow> jsmntok_t list \<Rightarrow> bool" where
  "in_toks s toks \<longleftrightarrow> s = - 1 \<or> 0 \<le> s \<and> nat s < length toks"

lemma bump_append: "in_toks s toks \<Longrightarrow> bump_size s (toks @ xs) = bump_size s toks @ xs"
  by (auto simp: bump_size_def in_toks_def list_update_append nth_append)

lemma loop_move:
  assumes "pos < length js" and "js ! pos \<noteq> CHR 0x00" and "jsmn_step num js (parser_at pos s toks) = Inr (parser_at q s' toks')"
  shows "jsmn_loop num js (parser_at pos s toks) = jsmn_loop num js (parser_at (Suc q) s' toks')"
  using assms by (subst jsmn_loop.simps) (simp add: parser_at_def)

definition json_space :: "char \<Rightarrow> bool" where
  "json_space c \<longleftrightarrow> c \<in> {CHR 0x09, CHR 0x0D, CHR 0x0A, CHR '' ''}"

lemma loop_space: "text_at js pos ws \<Longrightarrow> list_all json_space ws \<Longrightarrow>
    jsmn_loop num js (parser_at pos s toks) = jsmn_loop num js (parser_at (pos + length ws) s toks)"
proof (induction ws arbitrary: pos)
  case (Cons c ws)
  have "jsmn_loop num js (parser_at pos s toks) = jsmn_loop num js (parser_at (Suc pos) s toks)"
    using Cons.prems by (intro loop_move) (auto simp: jsmn_step_def Let_def json_space_def)
  with Cons show ?case by simp
qed simp

lemma loop_colon: "text_at js pos '':'' \<Longrightarrow>
    jsmn_loop num js (parser_at pos s toks) = jsmn_loop num js (parser_at (Suc pos) (int (length toks) - 1) toks)"
  by (intro loop_move) (auto simp: jsmn_step_def Let_def parser_at_def)

lemma loop_open:
  assumes "text_at js pos [c]" and "c = CHR ''{'' \<and> ty = JSMN_OBJECT \<or> c = CHR ''['' \<and> ty = JSMN_ARRAY" and "length toks < num"
  shows "jsmn_loop num js (parser_at pos s toks) = jsmn_loop num js (parser_at (Suc pos) (int (length toks))
      (bump_size s toks @ [\<lparr>tk_type = ty, tk_start = int pos, tk_end = - 1, tk_size = 0\<rparr>]))"
  using assms by (intro loop_move) (auto simp: jsmn_step_def Let_def open_bracket_def jsmn_alloc_token_def parser_at_def)

lemma loop_string:
  assumes "text_at js pos (quoted_text t)" and "json_safe t" and "length toks < num" and "in_toks s toks"
  shows "jsmn_loop num js (parser_at pos s toks)
    = jsmn_loop num js (parser_at (pos + length (quoted_text t)) s (bump_size s toks @ [jtok JSMN_STRING (Suc pos) (Suc (pos + length t)) 0]))"
proof -
  have "str_end js (Suc pos) = Inr (Suc pos + length t)"
    using assms(1,2) by (intro str_end_has) (simp_all add: quoted_text_def)
  then have "jsmn_parse_string num js (parser_at pos s toks)
      = Inr ((parser_at (Suc pos + length t) s (toks @ [jtok JSMN_STRING (Suc pos) (Suc (pos + length t)) 0]))\<lparr>ps_count := length toks\<rparr>)"
    using assms(3) by (simp add: jsmn_parse_string_def jsmn_alloc_token_def parser_at_def jtok_def)
  then have "jsmn_step num js (parser_at pos s toks)
      = Inr (parser_at (Suc pos + length t) s (bump_size s toks @ [jtok JSMN_STRING (Suc pos) (Suc (pos + length t)) 0]))"
    using assms(1,4) by (auto simp: jsmn_step_def Let_def quoted_text_def count_child_def bump_append parser_at_def)
  from loop_move [OF _ _ this] show ?thesis using assms(1) by (auto simp: quoted_text_def)
qed

lemma loop_prim:
  assumes "text_at js pos t" and "prim_ok t" and "prim_stop js (pos + length t)" and "length toks < num" and "in_toks s toks"
  shows "jsmn_loop num js (parser_at pos s toks)
    = jsmn_loop num js (parser_at (pos + length t) s (bump_size s toks @ [jtok JSMN_PRIMITIVE pos (pos + length t) 0]))"
proof -
  obtain c r where t: "t = c # r" using assms(2) by (cases t) (auto simp: prim_ok_def)
  have "prim_end js pos = Inr (pos + length t)" using assms(1-3) by (intro prim_end_has) (simp_all add: prim_ok_def)
  then have pr: "jsmn_parse_primitive num js (parser_at pos s toks)
      = Inr ((parser_at (pos + length r) s (toks @ [jtok JSMN_PRIMITIVE pos (pos + length t) 0]))\<lparr>ps_count := length toks\<rparr>)"
    using assms(4) t by (simp add: jsmn_parse_primitive_def jsmn_alloc_token_def parser_at_def jtok_def)
  have c: "js ! pos = c" "pos < length js" "c \<noteq> CHR 0x00"
    "c \<notin> {CHR ''{'', CHR ''['', CHR ''}'', CHR '']'', CHR 0x22, CHR 0x09, CHR 0x0D, CHR 0x0A, CHR '' '', CHR '':'', CHR '',''}"
    using assms(1,2) t by (auto simp: prim_ok_def prim_delim_def prim_char_def)
  have "jsmn_step num js (parser_at pos s toks)
      = Inr (parser_at (pos + length r) s (bump_size s toks @ [jtok JSMN_PRIMITIVE pos (pos + length t) 0]))"
    using pr c assms(5) by (auto simp: jsmn_step_def Let_def count_child_def bump_append parser_at_def)
  from loop_move [OF _ _ this] show ?thesis using c t by auto
qed

section \<open>Inside a open_tok\<close>

lemma find_last_None: "find_last P xs = None \<longleftrightarrow> (\<forall>x \<in> set xs. \<not> P x)"
  by (induction xs) (auto split: option.splits)

lemma find_last_tail: "\<forall>y \<in> set ys. \<not> P y \<Longrightarrow> find_last P (xs @ ys) = find_last P xs"
proof (induction xs)
  case Nil
  then show ?case by (simp add: find_last_None)
next
  case (Cons x xs)
  then show ?case by (simp split: option.splits)
qed

lemma find_last_here: "P x \<Longrightarrow> \<forall>y \<in> set ys. \<not> P y \<Longrightarrow> find_last P (xs @ x # ys) = Some (length xs)"
proof (induction xs)
  case Nil
  then have "find_last P ys = None" by (simp add: find_last_None)
  with Nil show ?case by simp
qed simp

definition super_of :: "jsmntok_t list \<Rightarrow> int" where
  "super_of toks = (case find_last tok_open toks of Some j \<Rightarrow> int j | None \<Rightarrow> - 1)"

text \<open>The innermost open bracket; behind it every token is closed.\<close>

definition open_tok :: "jsmntype_t \<Rightarrow> nat \<Rightarrow> nat \<Rightarrow> jsmntok_t" where
  "open_tok ty pos n = \<lparr>tk_type = ty, tk_start = int pos, tk_end = - 1, tk_size = int n\<rparr>"

definition toks_closed :: "jsmntok_t list \<Rightarrow> bool" where
  "toks_closed toks \<longleftrightarrow> (\<forall>t \<in> set toks. \<not> tok_open t)"

definition bracket_type :: "jsmntype_t \<Rightarrow> bool" where
  "bracket_type ty \<longleftrightarrow> ty = JSMN_OBJECT \<or> ty = JSMN_ARRAY"

lemma bracket_open [simp]: "tok_open (open_tok ty pos n)" "bracket_type ty \<Longrightarrow> container (open_tok ty pos n)"
  "tk_type (open_tok ty pos n) = ty"
  by (auto simp: open_tok_def tok_open_def container_def bracket_type_def)

lemma tok_closed [simp]: "\<not> tok_open (jtok ty a b n)" "tk_type (jtok ty a b n) = ty" "tk_size (jtok ty a b n) = int n"
  by (simp_all add: jtok_def tok_open_def)

lemma toks_closed_simps [simp]: "toks_closed []" "toks_closed (t # ts) \<longleftrightarrow> \<not> tok_open t \<and> toks_closed ts" "toks_closed (ts @ us) \<longleftrightarrow> toks_closed ts \<and> toks_closed us"
  by (auto simp: toks_closed_def)

lemma bump_bracket: "bump_size (int (length T)) (T @ open_tok ty pos n # D) = T @ open_tok ty pos (Suc n) # D"
  by (simp add: bump_size_def open_tok_def nth_append)

lemma bump_last: "bump_size (int (length B)) (B @ [t]) = B @ [t\<lparr>tk_size := tk_size t + 1\<rparr>]"
  by (simp add: bump_size_def nth_append)

lemma loop_comma:
  assumes "text_at js pos '',''" and "toks_closed D" and "bracket_type ty"
    and "s = int (length T) \<or> s = int (length T + Suc d) \<and> d < length D \<and> \<not> container (D ! d)"
  shows "jsmn_loop num js (parser_at pos s (T @ open_tok ty q n # D))
    = jsmn_loop num js (parser_at (Suc pos) (int (length T)) (T @ open_tok ty q n # D))"
proof -
  have f: "find_last (\<lambda>t. container t \<and> tok_open t) (T @ open_tok ty q n # D) = Some (length T)"
    using assms(2,3) by (intro find_last_here) (auto simp: toks_closed_def)
  have "comma (parser_at pos s (T @ open_tok ty q n # D)) = parser_at pos (int (length T)) (T @ open_tok ty q n # D)"
  proof (cases "s = int (length T)")
    case True
    then show ?thesis using assms(3) by (simp add: comma_def nth_append parser_at_def)
  next
    case False
    with assms(4) have "nat s = length T + Suc d" "s \<noteq> - 1" "\<not> container (D ! d)" by auto
    then show ?thesis by (simp add: comma_def nth_append f parser_at_def)
  qed
  then show ?thesis using assms(1) by (intro loop_move) (simp_all add: jsmn_step_def Let_def)
qed

lemma loop_close:
  assumes "text_at js pos [c]" and "c = CHR ''}'' \<and> ty = JSMN_OBJECT \<or> c = CHR '']'' \<and> ty = JSMN_ARRAY" and "toks_closed D"
  shows "jsmn_loop num js (parser_at pos s (T @ open_tok ty q n # D))
    = jsmn_loop num js (parser_at (Suc pos) (super_of T) (T @ jtok ty q (Suc pos) n # D))"
proof -
  have f: "find_last tok_open (T @ open_tok ty q n # D) = Some (length T)"
    using assms(3) by (intro find_last_here) (simp_all add: toks_closed_def)
  have t: "find_last tok_open (T @ [jtok ty q (Suc pos) n]) = find_last tok_open T" by (rule find_last_tail) simp
  have b: "(open_tok ty q n)\<lparr>tk_end := int pos + 1\<rparr> = jtok ty q (Suc pos) n" by (simp add: open_tok_def jtok_def)
  have "close_bracket ty (parser_at pos s (T @ open_tok ty q n # D)) = Inr (parser_at pos (super_of T) (T @ jtok ty q (Suc pos) n # D))"
    using t by (simp add: close_bracket_def f b nth_append Let_def super_of_def parser_at_def)
  then show ?thesis using assms(1,2) by (intro loop_move) (auto simp: jsmn_step_def Let_def)
qed

section \<open>Items of a open_tok\<close>

text \<open>
  Parsing one item inside a bracket: its tokens are appended, the bracket counts one more, and what the parser then holds as
  parent is the bracket or a closed token that is no bracket, which the next comma resets.
\<close>

definition item_parsed :: "nat \<Rightarrow> string \<Rightarrow> jsmntype_t \<Rightarrow> nat \<Rightarrow> string \<Rightarrow> jsmntok_t list \<Rightarrow> bool" where
  "item_parsed num js ty pos s new \<longleftrightarrow>
     (\<forall>T q n D. length T + length D + length new < num \<longrightarrow> toks_closed D \<longrightarrow>
        (\<exists>u. (u = int (length T) \<or> (\<exists>d < length (D @ new). u = int (length T + Suc d) \<and> \<not> container ((D @ new) ! d)))
          \<and> jsmn_loop num js (parser_at pos (int (length T)) (T @ open_tok ty q n # D))
            = jsmn_loop num js (parser_at (pos + length s) u (T @ open_tok ty q (Suc n) # D @ new))))"

lemma parse_items:
  assumes "\<And>x p. x \<in> set xs \<Longrightarrow> text_at js p (tx x) \<Longrightarrow> prim_stop js (p + length (tx x)) \<Longrightarrow> item_parsed num js ty p (tx x) (f p x) \<and> toks_closed (f p x)"
    and "list_all json_space ws" and "bracket_type ty" and "text_at js pos (sep_text ws (map tx xs))"
    and "prim_stop js (pos + length (sep_text ws (map tx xs)))"
    and "length T + length D + length (lay_toks (Suc (length ws)) f (\<lambda>x. length (tx x)) pos xs) < num" and "toks_closed D"
  shows "\<exists>u. jsmn_loop num js (parser_at pos (int (length T)) (T @ open_tok ty q n # D))
      = jsmn_loop num js (parser_at (pos + length (sep_text ws (map tx xs))) u
          (T @ open_tok ty q (n + length xs) # D @ lay_toks (Suc (length ws)) f (\<lambda>x. length (tx x)) pos xs))
    \<and> toks_closed (lay_toks (Suc (length ws)) f (\<lambda>x. length (tx x)) pos xs)"
  using assms
proof (induction xs arbitrary: pos D n)
  case (Cons x xs)
  let ?p = "pos + length (tx x)" and ?new = "f pos x"
  have e: "prim_stop js ?p"
  proof (cases "xs = []")
    case False
    then have "js ! ?p = CHR '',''" using Cons.prems(4) by simp
    then show ?thesis by (simp add: prim_stop_def prim_delim_def)
  qed (use Cons.prems in simp)
  have it: "item_parsed num js ty pos (tx x) ?new" "toks_closed ?new" using Cons.prems(1) [of x pos] Cons.prems(4) e by simp_all
  have num: "length T + length D + length ?new < num" using Cons.prems(6) by simp
  with it obtain u where u: "u = int (length T) \<or> (\<exists>d < length (D @ ?new). u = int (length T + Suc d) \<and> \<not> container ((D @ ?new) ! d))"
    and l: "jsmn_loop num js (parser_at pos (int (length T)) (T @ open_tok ty q n # D))
        = jsmn_loop num js (parser_at ?p u (T @ open_tok ty q (Suc n) # D @ ?new))"
    using num Cons.prems(7) unfolding item_parsed_def by blast
  show ?case
  proof (cases "xs = []")
    case True
    with l it show ?thesis by auto
  next
    case False
    let ?r = "Suc ?p + length ws"
    have h: "text_at js ?p '',''" "text_at js (Suc ?p) ws" "text_at js ?r (sep_text ws (map tx xs))" using Cons.prems(4) False by simp_all
    have c: "toks_closed (D @ ?new)" using Cons.prems(7) it by simp
    have "jsmn_loop num js (parser_at ?p u (T @ open_tok ty q (Suc n) # D @ ?new))
        = jsmn_loop num js (parser_at (Suc ?p) (int (length T)) (T @ open_tok ty q (Suc n) # D @ ?new))"
      using u loop_comma [OF h(1) c Cons.prems(3)] by blast
    also have "\<dots> = jsmn_loop num js (parser_at ?r (int (length T)) (T @ open_tok ty q (Suc n) # D @ ?new))"
      by (rule loop_space [OF h(2) Cons.prems(2)])
    finally have st: "jsmn_loop num js (parser_at pos (int (length T)) (T @ open_tok ty q n # D))
        = jsmn_loop num js (parser_at ?r (int (length T)) (T @ open_tok ty q (Suc n) # D @ ?new))" using l by simp
    have "?r = pos + length (tx x) + Suc (length ws)" by simp
    with Cons.IH [of ?r "D @ ?new" "Suc n"] Cons.prems h(3) c st it(2) False
    show ?thesis by (simp add: add.assoc)
  qed
qed (simp add: exI)

section \<open>Values\<close>

fun jbracket :: "json \<Rightarrow> bool" where
  "jbracket (JObj _) = True" | "jbracket (JArr _) = True" | "jbracket (JStr _) = False" | "jbracket (JPrim _) = False"

lemma find_last_map: "map P xs = map P ys \<Longrightarrow> find_last P xs = find_last P ys"
proof (induction xs arbitrary: ys)
  case (Cons x xs)
  then obtain y zs where "ys = y # zs" "P x = P y" "map P xs = map P zs" by (cases ys) auto
  with Cons.IH [of zs] show ?case by simp
qed simp

lemma super_of_bump [simp]: "super_of (bump_size s toks) = super_of toks"
proof -
  have "map tok_open (bump_size s toks) = map tok_open toks"
    by (cases "nat s < length toks") (auto simp: bump_size_def map_update tok_open_def list_update_same_conv list_update_beyond)
  then have "find_last tok_open (bump_size s toks) = find_last tok_open toks" by (rule find_last_map)
  then show ?thesis by (simp add: super_of_def)
qed

lemma super_of_bracket: "toks_closed D \<Longrightarrow> super_of (T @ open_tok ty q n # D) = int (length T)"
  using find_last_here [of tok_open "open_tok ty q n" D T] by (simp add: super_of_def toks_closed_def)

text \<open>What the parser does with a whole value, wherever it stands.\<close>

definition value_parsed :: "nat \<Rightarrow> string \<Rightarrow> string \<Rightarrow> json \<Rightarrow> bool" where
  "value_parsed num js ws v \<longleftrightarrow> (\<forall>pos s toks. text_at js pos (jtext ws v) \<longrightarrow> prim_stop js (pos + length (jtext ws v)) \<longrightarrow> in_toks s toks \<longrightarrow>
     length toks + length (jtoks ws pos v) \<le> num \<longrightarrow>
     jsmn_loop num js (parser_at pos s toks)
       = jsmn_loop num js (parser_at (pos + length (jtext ws v)) (if jbracket v then super_of toks else s) (bump_size s toks @ jtoks ws pos v)))"

lemma value_parsedD:
  assumes "value_parsed num js ws v" and "text_at js pos (jtext ws v)" and "prim_stop js (pos + length (jtext ws v))" and "in_toks s toks"
    and "length toks + length (jtoks ws pos v) \<le> num"
  shows "jsmn_loop num js (parser_at pos s toks)
    = jsmn_loop num js (parser_at (pos + length (jtext ws v)) (if jbracket v then super_of toks else s) (bump_size s toks @ jtoks ws pos v))"
  using assms unfolding value_parsed_def by blast

lemma element_parses:
  assumes "value_parsed num js ws v" and "text_at js p (jtext ws v)" and "prim_stop js (p + length (jtext ws v))"
  shows "item_parsed num js ty p (jtext ws v) (jtoks ws p v)"
  unfolding item_parsed_def
proof (intro allI impI)
  fix T :: "jsmntok_t list" and q n and D :: "jsmntok_t list"
  assume a: "length T + length D + length (jtoks ws p v) < num" "toks_closed D"
  have "jsmn_loop num js (parser_at p (int (length T)) (T @ open_tok ty q n # D))
      = jsmn_loop num js (parser_at (p + length (jtext ws v)) (int (length T)) (T @ open_tok ty q (Suc n) # D @ jtoks ws p v))"
    using value_parsedD [OF assms, of "int (length T)" "T @ open_tok ty q n # D"] a
    by (simp add: in_toks_def super_of_bracket bump_bracket)
  then show "\<exists>u. (u = int (length T) \<or> (\<exists>d < length (D @ jtoks ws p v). u = int (length T + Suc d) \<and> \<not> container ((D @ jtoks ws p v) ! d)))
      \<and> jsmn_loop num js (parser_at p (int (length T)) (T @ open_tok ty q n # D))
        = jsmn_loop num js (parser_at (p + length (jtext ws v)) u (T @ open_tok ty q (Suc n) # D @ jtoks ws p v))"
    by blast
qed

definition member_toks :: "string \<Rightarrow> nat \<Rightarrow> string \<times> json \<Rightarrow> jsmntok_t list" where
  "member_toks ws p kv = jtok JSMN_STRING (Suc p) (Suc (p + length (fst kv))) 1 # jtoks ws (p + length (fst kv) + 3 + length ws) (snd kv)"

lemma member_parses:
  assumes "value_parsed num js ws (snd kv)" and "json_safe (fst kv)" and "list_all json_space ws" and "text_at js p (member_text ws kv)"
    and "prim_stop js (p + length (member_text ws kv))"
  shows "item_parsed num js ty p (member_text ws kv) (member_toks ws p kv)"
  unfolding item_parsed_def
proof (intro allI impI)
  fix T :: "jsmntok_t list" and q n and D :: "jsmntok_t list"
  assume a: "length T + length D + length (member_toks ws p kv) < num" "toks_closed D"
  obtain k v where kv: "kv = (k, v)" by (cases kv)
  let ?c = "p + length (quoted_text k)" and ?v = "p + length k + 3 + length ws"
  let ?key = "\<lambda>m. jtok JSMN_STRING (Suc p) (Suc (p + length k)) m" and ?B = "T @ open_tok ty q (Suc n) # D"
  have pos: "Suc ?c + length ws = ?v" "p + length (member_text ws kv) = ?v + length (jtext ws v)"
    by (simp_all add: quoted_text_def member_text_def kv)
  have h: "text_at js p (quoted_text k)" "text_at js ?c '':''" "text_at js (Suc ?c) ws" "text_at js ?v (jtext ws v)"
    using assms(4) pos(1) by (simp_all add: member_text_def kv numeral_3_eq_3)
  let ?u = "if jbracket v then int (length T) else int (length T + Suc (length D))"
  have "jsmn_loop num js (parser_at p (int (length T)) (T @ open_tok ty q n # D))
      = jsmn_loop num js (parser_at ?c (int (length T)) (?B @ [?key 0]))"
    using loop_string [OF h(1), of "T @ open_tok ty q n # D" num "int (length T)"] assms(2) a
    by (simp add: kv in_toks_def bump_bracket member_toks_def)
  also have "\<dots> = jsmn_loop num js (parser_at (Suc ?c) (int (length ?B)) (?B @ [?key 0]))"
    using loop_colon [OF h(2), of num "int (length T)" "?B @ [?key 0]"] by simp
  also have "\<dots> = jsmn_loop num js (parser_at ?v (int (length ?B)) (?B @ [?key 0]))"
    using loop_space [OF h(3) assms(3)] unfolding pos(1) .
  also have "\<dots> = jsmn_loop num js (parser_at (?v + length (jtext ws v)) ?u (?B @ ?key 1 # jtoks ws ?v v))"
  proof -
    have b: "bump_size (int (length ?B)) (?B @ [?key 0]) = ?B @ [?key 1]" unfolding bump_last by (simp add: jtok_def)
    have s: "super_of (?B @ [?key 0]) = int (length T)"
      using super_of_bracket [of "D @ [?key 0]" T ty q "Suc n"] a(2) by simp
    have "in_toks (int (length ?B)) (?B @ [?key 0])" "length (?B @ [?key 0]) + length (jtoks ws ?v v) \<le> num"
      using a(1) by (simp_all add: in_toks_def member_toks_def kv)
    from value_parsedD [OF _ h(4) _ this] assms(1,5) show ?thesis by (simp only: b s kv pos(2) [unfolded kv] snd_conv) simp
  qed
  finally have l: "jsmn_loop num js (parser_at p (int (length T)) (T @ open_tok ty q n # D))
      = jsmn_loop num js (parser_at (p + length (member_text ws kv)) ?u (?B @ member_toks ws p kv))"
    unfolding pos(2) by (simp add: member_toks_def kv)
  have "\<not> container ((D @ member_toks ws p kv) ! length D)" by (simp add: member_toks_def container_def)
  then have "?u = int (length T) \<or> (\<exists>d < length (D @ member_toks ws p kv). ?u = int (length T + Suc d) \<and> \<not> container ((D @ member_toks ws p kv) ! d))"
    by (auto simp: member_toks_def)
  with l show "\<exists>u. (u = int (length T) \<or> (\<exists>d < length (D @ member_toks ws p kv). u = int (length T + Suc d) \<and> \<not> container ((D @ member_toks ws p kv) ! d)))
      \<and> jsmn_loop num js (parser_at p (int (length T)) (T @ open_tok ty q n # D))
        = jsmn_loop num js (parser_at (p + length (member_text ws kv)) u (T @ open_tok ty q (Suc n) # D @ member_toks ws p kv))"
    by (intro exI [of _ ?u]) simp
qed

lemma sep_text_member: "map (\<lambda>(k, v). quoted_text k @ CHR '':'' # ws @ jtext ws v) kvs = map (member_text ws) kvs"
  by (simp add: member_text_def split: prod.splits)

lemma jtoks_object: "jtoks ws pos (JObj kvs) = jtok JSMN_OBJECT pos (pos + length (jtext ws (JObj kvs))) (length kvs)
    # lay_toks (Suc (length ws)) (member_toks ws) (\<lambda>kv. length (member_text ws kv)) (Suc (pos + length ws)) kvs"
  by (simp add: member_toks_def [abs_def] split_def del: jtext.simps)

declare jtoks.simps(1) [simp del] jtoks_object [simp]

lemma lay_toks_closed: "(\<And>p x. x \<in> set xs \<Longrightarrow> toks_closed (f p x)) \<Longrightarrow> toks_closed (lay_toks gap f len pos xs)"
  by (induction xs arbitrary: pos) auto

lemma jtoks_closed: "toks_closed (jtoks ws pos v)"
proof (induction v arbitrary: pos)
  case (JObj kvs)
  then have "toks_closed (member_toks ws p kv)" if "kv \<in> set kvs" for p kv
    using that by (cases kv) (fastforce simp: member_toks_def)
  then show ?case by (simp add: lay_toks_closed del: jtext.simps)
next
  case (JArr vs)
  then show ?case by (simp add: lay_toks_closed del: jtext.simps)
qed simp_all

lemma bracket_reads:
  assumes "\<And>x p. x \<in> set xs \<Longrightarrow> text_at js p (tx x) \<Longrightarrow> prim_stop js (p + length (tx x)) \<Longrightarrow> item_parsed num js ty p (tx x) (f p x) \<and> toks_closed (f p x)"
    and "list_all json_space ws" and "text_at js pos (c # ws @ sep_text ws (map tx xs) @ [d])" and "in_toks s toks"
    and "c = CHR ''{'' \<and> d = CHR ''}'' \<and> ty = JSMN_OBJECT \<or> c = CHR ''['' \<and> d = CHR '']'' \<and> ty = JSMN_ARRAY"
    and "length toks + Suc (length (lay_toks (Suc (length ws)) f (\<lambda>x. length (tx x)) (Suc (pos + length ws)) xs)) \<le> num"
  shows "jsmn_loop num js (parser_at pos s toks)
    = jsmn_loop num js (parser_at (pos + length (c # ws @ sep_text ws (map tx xs) @ [d])) (super_of toks)
        (bump_size s toks @ jtok ty pos (pos + length (c # ws @ sep_text ws (map tx xs) @ [d])) (length xs)
          # lay_toks (Suc (length ws)) f (\<lambda>x. length (tx x)) (Suc (pos + length ws)) xs))"
proof -
  let ?p = "Suc pos + length ws" and ?t = "sep_text ws (map tx xs)" and ?T = "bump_size s toks"
  let ?q = "?p + length ?t" and ?new = "lay_toks (Suc (length ws)) f (\<lambda>x. length (tx x)) (Suc (pos + length ws)) xs"
  have h: "text_at js pos [c]" "text_at js (Suc pos) ws" "text_at js ?p ?t" "text_at js ?q [d]" using assms(3) by simp_all
  have e: "prim_stop js ?q" using h(4) assms(5) by (auto simp: prim_stop_def prim_delim_def)
  have ty: "bracket_type ty" using assms(5) by (auto simp: bracket_type_def)
  obtain u where items: "jsmn_loop num js (parser_at ?p (int (length ?T)) (?T @ [open_tok ty pos 0]))
      = jsmn_loop num js (parser_at ?q u (?T @ open_tok ty pos (length xs) # ?new))" and cl: "toks_closed ?new"
    using parse_items [OF assms(1,2) ty h(3) e, of ?T "[]" pos 0] assms(6) by auto
  have "jsmn_loop num js (parser_at pos s toks) = jsmn_loop num js (parser_at (Suc pos) (int (length ?T)) (?T @ [open_tok ty pos 0]))"
    using loop_open [OF h(1), of ty toks num s] assms(5,6) by (auto simp: open_tok_def)
  also have "\<dots> = jsmn_loop num js (parser_at ?p (int (length ?T)) (?T @ [open_tok ty pos 0]))"
    by (rule loop_space [OF h(2) assms(2)])
  also note items
  also have "jsmn_loop num js (parser_at ?q u (?T @ open_tok ty pos (length xs) # ?new))
      = jsmn_loop num js (parser_at (Suc ?q) (super_of ?T) (?T @ jtok ty pos (Suc ?q) (length xs) # ?new))"
    using assms(5) cl by (intro loop_close [OF h(4)]) auto
  finally show ?thesis by (simp add: add.assoc)
qed

lemma value_reads: "jwf v \<Longrightarrow> list_all json_space ws \<Longrightarrow> value_parsed num js ws v"
proof (induction v)
  case (JObj kvs)
  have m: "item_parsed num js JSMN_OBJECT p (member_text ws kv) (member_toks ws p kv) \<and> toks_closed (member_toks ws p kv)"
    if "kv \<in> set kvs" "text_at js p (member_text ws kv)" "prim_stop js (p + length (member_text ws kv))" for kv p
  proof -
    have "json_safe (fst kv)" "jwf (snd kv)" using JObj.prems(1) that(1) by (auto simp: list_all_iff)
    moreover have "value_parsed num js ws (snd kv)"
      using JObj.IH [of kv "snd kv"] that(1) calculation JObj.prems(2) by (cases kv) auto
    ultimately show ?thesis
      using member_parses [OF _ _ JObj.prems(2) that(2,3)] jtoks_closed by (simp add: member_toks_def)
  qed
  show ?case
    unfolding value_parsed_def jtext.simps sep_text_member jtoks_object
  proof (intro allI impI)
    fix pos s toks
    let ?t = "CHR ''{'' # ws @ sep_text ws (map (member_text ws) kvs) @ [CHR ''}'']"
    assume "text_at js pos ?t" "in_toks s toks"
      and "length toks + length (jtok JSMN_OBJECT pos (pos + length ?t) (length kvs)
        # lay_toks (Suc (length ws)) (member_toks ws) (\<lambda>kv. length (member_text ws kv)) (Suc (pos + length ws)) kvs) \<le> num"
    with bracket_reads [where xs = kvs and tx = "member_text ws" and f = "member_toks ws" and pos = pos and s = s and toks = toks
        and c = "CHR ''{''" and d = "CHR ''}''", OF m JObj.prems(2)]
    show "jsmn_loop num js (parser_at pos s toks) = jsmn_loop num js (parser_at (pos + length ?t) (if jbracket (JObj kvs) then super_of toks else s)
      (bump_size s toks @ jtok JSMN_OBJECT pos (pos + length ?t) (length kvs)
        # lay_toks (Suc (length ws)) (member_toks ws) (\<lambda>kv. length (member_text ws kv)) (Suc (pos + length ws)) kvs))" by simp
  qed
next
  case (JArr vs)
  have m: "item_parsed num js JSMN_ARRAY p (jtext ws v) (jtoks ws p v) \<and> toks_closed (jtoks ws p v)"
    if "v \<in> set vs" "text_at js p (jtext ws v)" "prim_stop js (p + length (jtext ws v))" for v p
    using JArr that by (simp add: element_parses jtoks_closed list_all_iff)
  show ?case
    unfolding value_parsed_def jtext.simps jtoks.simps
  proof (intro allI impI)
    fix pos s toks
    let ?t = "CHR ''['' # ws @ sep_text ws (map (jtext ws) vs) @ [CHR '']'']"
    assume "text_at js pos ?t" "in_toks s toks"
      and "length toks + length (jtok JSMN_ARRAY pos (pos + length ?t) (length vs)
        # lay_toks (Suc (length ws)) (jtoks ws) (\<lambda>v. length (jtext ws v)) (Suc (pos + length ws)) vs) \<le> num"
    with bracket_reads [where xs = vs and tx = "jtext ws" and f = "jtoks ws" and pos = pos and s = s and toks = toks
        and c = "CHR ''[''" and d = "CHR '']''", OF m JArr.prems(2)]
    show "jsmn_loop num js (parser_at pos s toks) = jsmn_loop num js (parser_at (pos + length ?t) (if jbracket (JArr vs) then super_of toks else s)
      (bump_size s toks @ jtok JSMN_ARRAY pos (pos + length ?t) (length vs)
        # lay_toks (Suc (length ws)) (jtoks ws) (\<lambda>v. length (jtext ws v)) (Suc (pos + length ws)) vs))" by simp
  qed
next
  case (JStr s)
  then show ?case using loop_string by (simp add: value_parsed_def)
next
  case (JPrim s)
  then show ?case using loop_prim by (simp add: value_parsed_def)
qed

lemma jsmn_parse_text:
  assumes "jwf v" and "list_all json_space ws" and "length (jtoks ws 0 v) \<le> num"
  shows "jsmn_parse num (jtext ws v) = Inr (jtoks ws 0 v)"
proof -
  let ?js = "jtext ws v"
  have "jsmn_loop num ?js (parser_at 0 (- 1) []) = jsmn_loop num ?js (parser_at (length ?js) (if jbracket v then super_of [] else - 1) (jtoks ws 0 v))"
    using value_parsedD [OF value_reads [OF assms(1,2)], of ?js 0 "- 1" "[]" num] text_at_here [of "[]" ?js "[]"] assms(3)
    by (simp add: prim_stop_def in_toks_def bump_size_def)
  also have "\<dots> = Inr (parser_at (length ?js) (if jbracket v then super_of [] else - 1) (jtoks ws 0 v))"
    by (subst jsmn_loop.simps) simp
  finally have "jsmn_loop num ?js jsmn_init = \<dots>" by (simp add: jsmn_init_def parser_at_def)
  then show ?thesis using jtoks_closed [of ws 0 v] by (simp add: jsmn_parse_def find_last_None toks_closed_def)
qed

section \<open>Walking the tokens\<close>

text \<open>The tokens of the value \<open>v\<close> start at index \<open>i\<close>, and they describe text that stands in the message.\<close>

definition value_at :: "string \<Rightarrow> string \<Rightarrow> jsmntok_t list \<Rightarrow> nat \<Rightarrow> json \<Rightarrow> bool" where
  "value_at ws js toks i v \<longleftrightarrow> (\<exists>A pos B. toks = A @ jtoks ws pos v @ B \<and> length A = i \<and> text_at js pos (jtext ws v))"

lemma value_atI: "text_at js pos (jtext ws v) \<Longrightarrow> value_at ws js (A @ jtoks ws pos v @ B) (length A) v"
  unfolding value_at_def by blast

text \<open>Skipping one value passes over all its tokens.\<close>

definition skips :: "jsmntok_t list \<Rightarrow> jsmntok_t list \<Rightarrow> nat \<Rightarrow> bool" where
  "skips toks new n \<longleftrightarrow> (\<forall>A B m. toks = A @ new @ B \<longrightarrow> 0 \<le> m \<longrightarrow>
     skip_tree toks (m + int n) (length A) = skip_tree toks m (length A + length new))"

lemma skips_token: "tk_size t = int n \<Longrightarrow> skips toks rest n \<Longrightarrow> skips toks (t # rest) 1"
  unfolding skips_def
proof (intro allI impI)
  fix A B m
  assume t: "tk_size t = int n" and rest: "\<forall>A B m. toks = A @ rest @ B \<longrightarrow> 0 \<le> m \<longrightarrow>
     skip_tree toks (m + int n) (length A) = skip_tree toks m (length A + length rest)"
    and a: "toks = A @ (t # rest) @ B" "0 \<le> (m :: int)"
  have "skip_tree toks (m + int 1) (length A) = skip_tree toks (m + int n) (Suc (length A))"
    using a t by (subst skip_tree.simps) (simp add: nth_append)
  also have "\<dots> = skip_tree toks m (length (A @ [t]) + length rest)"
    using rest [rule_format, of "A @ [t]" B m] a by simp
  finally show "skip_tree toks (m + int 1) (length A) = skip_tree toks m (length A + length (t # rest))" by simp
qed

lemma skips_Nil: "skips toks [] 0"
  by (simp add: skips_def)

lemma skips_append:
  assumes "skips toks a n" and "skips toks b k"
  shows "skips toks (a @ b) (n + k)"
  unfolding skips_def
proof (intro allI impI)
  fix A B m
  assume t: "toks = A @ (a @ b) @ B" "0 \<le> (m :: int)"
  have "skip_tree toks (m + int (n + k)) (length A) = skip_tree toks (m + int k) (length A + length a)"
    using assms(1) [unfolded skips_def, rule_format, of A "b @ B" "m + int k"] t by (simp add: algebra_simps)
  also have "\<dots> = skip_tree toks m (length (A @ a) + length b)"
    using assms(2) [unfolded skips_def, rule_format, of "A @ a" B m] t by simp
  finally show "skip_tree toks (m + int (n + k)) (length A) = skip_tree toks m (length A + length (a @ b))"
    by (simp add: add.assoc)
qed

lemma skips_lay: "(\<And>p x. x \<in> set xs \<Longrightarrow> skips toks (f p x) 1) \<Longrightarrow> skips toks (lay_toks gap f len pos xs) (length xs)"
proof (induction xs arbitrary: pos)
  case (Cons x xs)
  then have "skips toks (f pos x @ lay_toks gap f len (pos + len x + gap) xs) (1 + length xs)" by (intro skips_append) simp_all
  then show ?case by simp
qed (simp add: skips_Nil)

lemma skips_value: "skips toks (jtoks ws pos v) 1"
proof (induction v arbitrary: pos)
  case (JObj kvs)
  then have "skips toks (member_toks ws p kv) 1" if "kv \<in> set kvs" for p kv
  proof -
    have "skips toks (jtoks ws q (snd kv)) 1" for q using JObj [of kv "snd kv" q] that by (cases kv) simp
    then show ?thesis unfolding member_toks_def by (intro skips_token [where n = 1]) simp_all
  qed
  then show ?case unfolding jtoks_object by (intro skips_token [OF _ skips_lay]) simp_all
next
  case (JArr vs)
  then show ?case unfolding jtoks.simps by (intro skips_token [OF _ skips_lay]) simp_all
qed (simp_all add: skips_token [OF _ skips_Nil, simplified])

lemma skip_value: "toks = A @ jtoks ws pos v @ B \<Longrightarrow> skip_tree toks 1 (length A) = Some (length A + length (jtoks ws pos v))"
proof -
  assume "toks = A @ jtoks ws pos v @ B"
  then have "skip_tree toks 1 (length A) = skip_tree toks 0 (length A + length (jtoks ws pos v))"
    using skips_value [of toks ws pos v, unfolded skips_def, rule_format, of A B 0] by simp
  then show ?thesis by (simp add: skip_tree.simps)
qed

section \<open>Finding a key\<close>

lemma tok_text_at: "text_at js a s \<Longrightarrow> tok_text js (jtok ty a (a + length s) n) = s"
  by (simp add: tok_text_def jtok_def text_at_take)

lemma tok_eq_at: "text_at js a s \<Longrightarrow> tok_eq js (jtok ty a (a + length s) n) key \<longleftrightarrow> s = key"
  using tok_text_at [of js a s ty n] by (auto simp: tok_eq_def jtok_def)

lemma key_eq: "text_at js p (member_text ws kv) \<Longrightarrow>
    tok_eq js (jtok JSMN_STRING (Suc p) (Suc (p + length (fst kv))) 1) key \<longleftrightarrow> fst kv = key"
  using tok_eq_at [of js "Suc p" "fst kv"] by (simp add: member_text_def quoted_text_def)

lemma find_key_members:
  assumes "toks = A @ lay_toks (Suc (length ws)) (member_toks ws) (\<lambda>kv. length (member_text ws kv)) pos kvs @ B"
    and "text_at js pos (sep_text ws (map (member_text ws) kvs))"
  shows "(case map_of kvs key of
            None \<Rightarrow> find_key_loop js toks key (length kvs) (length A) = Some None
          | Some v \<Rightarrow> \<exists>j. find_key_loop js toks key (length kvs) (length A) = Some (Some j) \<and> value_at ws js toks j v)"
  using assms
proof (induction kvs arbitrary: A pos)
  case (Cons kv kvs)
  obtain k v where kv: "kv = (k, v)" by (cases kv)
  let ?p = "pos + length k + 3 + length ws" and ?key = "jtok JSMN_STRING (Suc pos) (Suc (pos + length k)) 1"
  let ?q = "pos + length (member_text ws kv) + Suc (length ws)"
  let ?rest = "lay_toks (Suc (length ws)) (member_toks ws) (\<lambda>kv. length (member_text ws kv)) ?q kvs @ B"
  have toks: "toks = A @ ?key # jtoks ws ?p v @ ?rest" using Cons.prems(1) member_toks_def [of ws pos kv] by (simp add: kv)
  have mem: "text_at js pos (member_text ws kv)" using Cons.prems(2) by simp
  have here: "tok_at toks (length A) = Some ?key" using toks by (simp add: tok_at_def nth_append)
  have "value_at ws js ((A @ [?key]) @ jtoks ws ?p v @ ?rest) (length (A @ [?key])) v"
    using mem by (intro value_atI) (simp add: member_text_def kv quoted_text_def numeral_3_eq_3)
  then have v: "value_at ws js toks (Suc (length A)) v" using toks by simp
  have skip: "skip_tree toks 1 (Suc (length A)) = Some (length (A @ ?key # jtoks ws ?p v))"
    using skip_value [of toks "A @ [?key]" ws ?p v ?rest] toks by simp
  show ?case
  proof (cases "k = key")
    case True
    then show ?thesis using here v key_eq [OF mem, of key] by (simp add: kv)
  next
    case False
    have loop: "find_key_loop js toks key (length (kv # kvs)) (length A)
        = find_key_loop js toks key (length kvs) (length (A @ ?key # jtoks ws ?p v))"
      using here skip False key_eq [OF mem, of key] by (simp add: kv)
    show ?thesis
    proof (cases "kvs = []")
      case True
      then show ?thesis using loop False by (simp add: kv)
    next
      case ne: False
      have "text_at js ?q (sep_text ws (map (member_text ws) kvs))" using Cons.prems(2) ne by simp
      from Cons.IH [OF _ this, of "A @ ?key # jtoks ws ?p v"] toks loop False
      show ?thesis by (simp add: kv split: option.splits)
    qed
  qed
qed simp

lemma find_key_object:
  assumes "value_at ws js toks i (JObj kvs)"
  shows "case map_of kvs key of
      None \<Rightarrow> tok_find_key js toks i key = Some None
    | Some v \<Rightarrow> \<exists>j. tok_find_key js toks i key = Some (Some j) \<and> value_at ws js toks j v"
proof -
  obtain A pos B where v: "toks = A @ jtoks ws pos (JObj kvs) @ B" "length A = i" "text_at js pos (jtext ws (JObj kvs))"
    using assms unfolding value_at_def by blast
  let ?o = "jtok JSMN_OBJECT pos (pos + length (jtext ws (JObj kvs))) (length kvs)"
  have here: "tok_at toks i = Some ?o" using v(1,2) by (auto simp: tok_at_def nth_append)
  have "text_at js (Suc (pos + length ws)) (sep_text ws (map (member_text ws) kvs))"
    using v(3) by (simp add: sep_text_member)
  from find_key_members [OF _ this, of toks "A @ [?o]" B key] v(1,2) here
  show ?thesis by (simp add: tok_find_key_def del: jtext.simps split: option.splits)
qed

lemma find_key_leaf:
  assumes "value_at ws js toks i v" and "v = JStr s \<or> v = JPrim s \<or> v = JArr []"
  shows "tok_find_key js toks i key = Some None"
proof -
  obtain A pos B where "toks = A @ jtoks ws pos v @ B" "length A = i" using assms(1) unfolding value_at_def by blast
  then have "\<exists>t. tok_at toks i = Some t \<and> tk_size t = 0" using assms(2) by (auto simp: tok_at_def nth_append simp del: jtext.simps)
  then show ?thesis by (auto simp: tok_find_key_def)
qed

lemma string_at:
  assumes "value_at ws js toks i (JStr s)"
  shows "\<exists>t. tok_at toks i = Some t \<and> tk_type t = JSMN_STRING \<and> tok_text js t = s \<and> (\<forall>key. tok_eq js t key \<longleftrightarrow> s = key)"
proof -
  obtain A pos B where v: "toks = A @ jtoks ws pos (JStr s) @ B" "length A = i" "text_at js pos (jtext ws (JStr s))"
    using assms unfolding value_at_def by blast
  have "text_at js (Suc pos) s" using v(3) by (simp add: quoted_text_def)
  with v(1,2) show ?thesis using tok_text_at [of js "Suc pos" s] tok_eq_at [of js "Suc pos" s] by (auto simp: tok_at_def nth_append)
qed

lemma prim_at:
  assumes "value_at ws js toks i (JPrim s)"
  shows "\<exists>t. tok_at toks i = Some t \<and> tk_type t = JSMN_PRIMITIVE \<and> tok_text js t = s \<and> (\<forall>key. tok_eq js t key \<longleftrightarrow> s = key)"
proof -
  obtain A pos B where v: "toks = A @ jtoks ws pos (JPrim s) @ B" "length A = i" "text_at js pos s"
    using assms unfolding value_at_def by auto
  then show ?thesis using tok_text_at [of js pos s] tok_eq_at [of js pos s] by (auto simp: tok_at_def nth_append)
qed

lemma value_at_0: "value_at ws (jtext ws v) (jtoks ws 0 v) 0 v"
  using value_atI [of "jtext ws v" 0 ws v "[]" "[]"] text_at_here [of "[]" "jtext ws v" "[]"] by simp

section \<open>Properties of the tokeniser\<close>

text \<open>
  C20: The tokeniser reads back what a client writes: on the text of any well-formed JSON value, with any white space behind
  brackets, colons and commas, it returns exactly the tokens of that value, each with its type, the bounds of its text and the
  number of its children, provided the array has room for them.
\<close>

theorem jsmn_reads_text:
  assumes "jwf v" and "list_all json_space ws" and "length (jtoks ws 0 v) \<le> num"
  shows "jsmn_parse num (jtext ws v) = Inr (jtoks ws 0 v)"
  using assms by (rule jsmn_parse_text)

theorem jsmn_reads_text_witness:
  "jsmn_parse 8 (jtext '' '' (JObj [(''a'', JArr [JPrim ''1'', JStr ''x'']), (''b'', JPrim ''true'')]))
     = Inr (jtoks '' '' 0 (JObj [(''a'', JArr [JPrim ''1'', JStr ''x'']), (''b'', JPrim ''true'')]))"
  by (rule jsmn_reads_text) (simp_all add: prim_ok_def prim_char_def prim_delim_def json_space_def member_toks_def)

text \<open>
  C21: The key lookup on a parsed object never leaves its tokens, finds the value of the first member with the key, and reports
  absence for a key the object does not have; a string found this way has exactly the text of that member.
\<close>

theorem tok_find_key_looks_up:
  assumes "jwf (JObj kvs)" and "list_all json_space ws" and "jsmn_parse num (jtext ws (JObj kvs)) = Inr toks"
    and "length (jtoks ws 0 (JObj kvs)) \<le> num"
  shows "case map_of kvs key of
      None \<Rightarrow> tok_find_key (jtext ws (JObj kvs)) toks 0 key = Some None
    | Some v \<Rightarrow> \<exists>i. tok_find_key (jtext ws (JObj kvs)) toks 0 key = Some (Some i) \<and> value_at ws (jtext ws (JObj kvs)) toks i v
        \<and> (\<forall>s. v = JStr s \<longrightarrow> map_option (tok_text (jtext ws (JObj kvs))) (tok_at toks i) = Some s)"
proof -
  have toks: "toks = jtoks ws 0 (JObj kvs)" using jsmn_parse_text [OF assms(1,2,4)] assms(3) by simp
  have "value_at ws (jtext ws (JObj kvs)) toks 0 (JObj kvs)" unfolding toks by (rule value_at_0)
  from find_key_object [OF this, of key] show ?thesis
    by (auto split: option.splits dest!: string_at simp del: jtext.simps)
qed

theorem tok_find_key_looks_up_witness:
  "tok_find_key (jtext [] (JObj [(''id'', JStr ''7''), (''x'', JPrim ''1'')])) (jtoks [] 0 (JObj [(''id'', JStr ''7''), (''x'', JPrim ''1'')])) 0 ''y'' = Some None"
  using tok_find_key_looks_up [of "[(''id'', JStr ''7''), (''x'', JPrim ''1'')]" "[]" 8 _ "''y''"]
    jsmn_parse_text [of "JObj [(''id'', JStr ''7''), (''x'', JPrim ''1'')]" "[]" 8]
  by (simp add: prim_ok_def prim_char_def prim_delim_def member_toks_def del: jtext.simps)

end
