(* ===== verification/Cp_State.thy ===== *)
theory Cp_State
  imports Vita_Tx Auth Jsmn_Roundtrip
begin

text \<open>
  The state the control plane shares: the session table, the holder of the exclusive rx channel and the stream
  counter of \<open>cp/cp_session.c\<close>, together with the driver and sender states they act on and the trace of what
  leaves the process (control frames per session, datagrams). Framing, access control and the event broadcast
  are here; the command handlers and the session loop build on them.
\<close>

section \<open>Sessions\<close>

datatype SessionState = SESSION_AWAIT_HELLO | SESSION_IDLE | SESSION_STREAM_OPEN | SESSION_STREAMING

record Session =
  ss_fd :: int
  ss_state :: SessionState
  ss_client_ip :: u32
  ss_owns_rx :: bool
  ss_client_name :: string
  ss_nonce :: "u8 list"
  ss_nonce_hex :: string
  ss_nonce_valid :: bool
  ss_rx_unlocked :: bool
  ss_auth_failures :: u32
  ss_auth_window_ns :: u64
  ss_close_after_reply :: bool
  ss_stream_open :: bool
  ss_stream_id :: string
  ss_vita_stream_id :: u32
  ss_dest_ip :: u32
  ss_dest_port :: u16
  ss_iq_fmt :: iq_format_t
  ss_vita_token :: int
  ss_frequency_hz :: u64
  ss_sample_rate_sps :: u32
  ss_rf_gain_db :: double

text \<open>The slot \<open>memset\<close> leaves: descriptor 0 marks it free.\<close>

definition session_zero :: Session where
  "session_zero = \<lparr>ss_fd = 0, ss_state = SESSION_AWAIT_HELLO, ss_client_ip = 0, ss_owns_rx = False,
     ss_client_name = [], ss_nonce = replicate AUTH_NONCE_BYTES 0, ss_nonce_hex = [], ss_nonce_valid = False,
     ss_rx_unlocked = False, ss_auth_failures = 0, ss_auth_window_ns = 0, ss_close_after_reply = False,
     ss_stream_open = False, ss_stream_id = [], ss_vita_stream_id = 0, ss_dest_ip = 0, ss_dest_port = 0,
     ss_iq_fmt = IQ_FMT_INT16, ss_vita_token = 0, ss_frequency_hz = 0, ss_sample_rate_sps = 0, ss_rf_gain_db = Fin 0\<rparr>"

section \<open>The process state\<close>

text \<open>
  A session is named by its slot. The fields after the counter are the configuration \<open>main\<close> sets before the
  server starts, the gain table \<open>cp_commands.c\<close> caches, and the two outputs in the order they were written.
\<close>

record 'd world =
  w_rtl :: "'d rtl"
  w_vita :: vita
  w_sessions :: "Session list"
  w_rx_owner :: "nat option"
  w_stream_counter :: u32
  w_rx_auth :: bool
  w_keys :: auth_keyring_t
  w_device_name :: string
  w_vita_src_port :: int
  w_u8_zero_point :: double
  w_gains :: "int list option"
  w_gain_default :: double
  w_out :: "(nat \<times> string) list"
  w_udp :: "datagram list"

text \<open>
  What the system answers while one request is served: the libraries, whether a thread can be created, the
  clocks, the random source, the local address of the control connection, and the files of sysfs. \<open>e_scan path\<close> is the number
  \<open>fscanf\<close> reads from the file at \<open>path\<close>, if it can be opened and starts with one; \<open>e_gets path\<close> is its first line, as far as a
  buffer of 64 bytes takes it and empty at once at the end of the file, if it can be opened.
\<close>

record 'd env =
  e_lib :: "'d librtlsdr"
  e_libm :: libm
  e_thread_ok :: bool
  e_mono_ns :: u64
  e_time :: u32
  e_stamp :: string
  e_millis :: nat
  e_epoch_s :: int
  e_random :: "getrandom_result list"
  e_local_ip :: "u32 option"
  e_scan :: "string \<Rightarrow> double option"
  e_gets :: "string \<Rightarrow> string option"

definition sess :: "nat \<Rightarrow> 'd world \<Rightarrow> Session" where
  "sess i w = w_sessions w ! i"

definition upd :: "nat \<Rightarrow> (Session \<Rightarrow> Session) \<Rightarrow> 'd world \<Rightarrow> 'd world" where
  "upd i f w = w\<lparr>w_sessions := (w_sessions w)[i := f (w_sessions w ! i)]\<rparr>"

text \<open>Running a sender operation: the table is replaced and its datagrams leave the process.\<close>

definition on_vita :: "(vita \<Rightarrow> vita \<times> datagram list) \<Rightarrow> 'd world \<Rightarrow> 'd world" where
  "on_vita f w = (case f (w_vita w) of (v, ds) \<Rightarrow> w\<lparr>w_vita := v, w_udp := w_udp w @ ds\<rparr>)"

definition on_rtl :: "('d rtl \<Rightarrow> 'd rtl) \<Rightarrow> 'd world \<Rightarrow> 'd world" where
  "on_rtl f w = w\<lparr>w_rtl := f (w_rtl w)\<rparr>"

section \<open>Framing\<close>

definition send_framed :: "nat \<Rightarrow> string \<Rightarrow> 'd world \<Rightarrow> 'd world" where
  "send_framed i json w = (if ss_fd (sess i w) \<le> 0 then w else w\<lparr>w_out := w_out w @ [(i, json)]\<rparr>)"

text \<open>The bytes of one frame, and what the reader of the other side does with a byte stream.\<close>

definition frame_bytes :: "string \<Rightarrow> u8 list" where
  "frame_bytes json = be32 (of_nat (length json)) @ octets_of json"

definition recv_exact :: "nat \<Rightarrow> u8 list \<Rightarrow> (u8 list \<times> u8 list) option" where
  "recv_exact n input = (if n \<le> length input then Some (take n input, drop n input) else None)"

datatype inbound = Closed | Bad_length u32 | Message string "u8 list"

definition text_of :: "u8 list \<Rightarrow> string" where
  "text_of bs = map (\<lambda>b. char_of (unat b)) bs"

definition read_frame :: "u8 list \<Rightarrow> inbound" where
  "read_frame input =
     (case recv_exact 4 input of
        None \<Rightarrow> Closed
      | Some (hdr, rest) \<Rightarrow>
          let len = from_be32 hdr in
          if len = 0 \<or> of_nat MAX_MSG_BYTES < len then Bad_length len
          else case recv_exact (unat len) rest of
                 None \<Rightarrow> Closed
               | Some (payload, rest') \<Rightarrow> Message (text_of payload) rest')"

section \<open>Stream identifiers\<close>

definition alloc_stream_id :: "'d world \<Rightarrow> (string \<times> u32) \<times> 'd world" where
  "alloc_stream_id w =
     (let n = w_stream_counter w + 1 in ((snprintf 32 (''rx-'' @ fmt_u n), n), w\<lparr>w_stream_counter := n\<rparr>))"

section \<open>Event broadcast\<close>

definition event_json :: "string \<Rightarrow> string \<Rightarrow> string" where
  \<open>event_json event params =
     snprintf 512 (''{"type":"event","event":"'' @ event @ ''","params":'' @ params @ ''}'')\<close>

definition hears :: "nat option \<Rightarrow> nat \<Rightarrow> Session \<Rightarrow> bool" where
  "hears skip i s \<longleftrightarrow> 0 < ss_fd s \<and> skip \<noteq> Some i \<and> ss_state s \<noteq> SESSION_AWAIT_HELLO"

definition broadcast :: "nat option \<Rightarrow> string \<Rightarrow> string \<Rightarrow> 'd world \<Rightarrow> 'd world" where
  "broadcast skip event params w =
     foldl (\<lambda>w i. if hears skip i (sess i w) then send_framed i (event_json event params) w else w) w [0..<MAX_SESSIONS]"

definition cp_broadcast_event :: "string \<Rightarrow> string \<Rightarrow> 'd world \<Rightarrow> 'd world" where
  "cp_broadcast_event event params w = broadcast None event params w"

definition cp_broadcast_event_except :: "nat \<Rightarrow> string \<Rightarrow> string \<Rightarrow> 'd world \<Rightarrow> 'd world" where
  "cp_broadcast_event_except i event params w = broadcast (Some i) event params w"

section \<open>Access control\<close>

definition cp_rx_requires_auth :: "'d world \<Rightarrow> bool" where
  "cp_rx_requires_auth w = w_rx_auth w"

definition cp_rx_claim :: "nat \<Rightarrow> 'd world \<Rightarrow> bool \<times> 'd world" where
  "cp_rx_claim i w =
     (if w_rx_owner w = None \<or> w_rx_owner w = Some i
      then (True, upd i (\<lambda>s. s\<lparr>ss_owns_rx := True\<rparr>) (w\<lparr>w_rx_owner := Some i\<rparr>))
      else (False, w))"

definition cp_rx_release :: "nat \<Rightarrow> 'd world \<Rightarrow> 'd world" where
  \<open>cp_rx_release i w =
     (let released = (w_rx_owner w = Some i);
          w = (if released then w\<lparr>w_rx_owner := None\<rparr> else w);
          w = upd i (\<lambda>s. s\<lparr>ss_owns_rx := False\<rparr>) w
      in if released
         then cp_broadcast_event_except i ''control_revoked'' ''{"function":"rx","control_state":"free"}'' w else w)\<close>

definition cp_rx_owned_by_other :: "nat \<Rightarrow> 'd world \<Rightarrow> bool" where
  "cp_rx_owned_by_other i w \<longleftrightarrow> w_rx_owner w \<noteq> None \<and> w_rx_owner w \<noteq> Some i"

definition cp_rx_control_state :: "nat \<Rightarrow> 'd world \<Rightarrow> string" where
  "cp_rx_control_state i w =
     (if w_rx_owner w = None then ''free'' else if w_rx_owner w = Some i then ''owned_by_me'' else ''owned_by_other'')"

section \<open>ADC overload event\<close>

definition cp_on_adc_overload :: "double \<Rightarrow> 'd world \<Rightarrow> 'd world" where
  \<open>cp_on_adc_overload level w =
     (let sid = (case find_slot (\<lambda>s. 0 < ss_fd s \<and> ss_state s = SESSION_STREAMING) (w_sessions w) of
                   None \<Rightarrow> [] | Some i \<Rightarrow> snprintf 32 (ss_stream_id (sess i w)));
          params = snprintf 224 (''{"stream_id":"'' @ sid @ ''","function":"rx","adc_level_dbfs":'' @ fmt_f 1 level
                     @ '',"suggested_action":"reduce_rf_gain"}'')
      in cp_broadcast_event ''adc_overload'' params w)\<close>

section \<open>Creating a session\<close>

definition session_create :: "int \<Rightarrow> u32 \<Rightarrow> 'd world \<Rightarrow> nat option \<times> 'd world" where
  "session_create fd client_ip w =
     (case find_slot (\<lambda>s. ss_fd s = 0) (w_sessions w) of
        None \<Rightarrow> (None, w)
      | Some i \<Rightarrow>
          (Some i, upd i (\<lambda>_. session_zero\<lparr>ss_fd := fd, ss_client_ip := client_ip, ss_vita_token := - 1,
                     ss_frequency_hz := ucast RTL_DEFAULT_FREQ, ss_sample_rate_sps := RTL_DEFAULT_RATE_NORMAL,
                     ss_rf_gain_db := tenths (g_gain_tenth_db (w_rtl w))\<rparr>) w))"

section \<open>What an output leaves alone\<close>

lemma send_framed_frame [simp, frame]:
  "w_rtl (send_framed i s w) = w_rtl w" "w_vita (send_framed i s w) = w_vita w"
  "w_sessions (send_framed i s w) = w_sessions w" "w_rx_owner (send_framed i s w) = w_rx_owner w"
  "w_stream_counter (send_framed i s w) = w_stream_counter w" "w_rx_auth (send_framed i s w) = w_rx_auth w"
  "w_keys (send_framed i s w) = w_keys w" "w_device_name (send_framed i s w) = w_device_name w"
  "w_vita_src_port (send_framed i s w) = w_vita_src_port w" "w_u8_zero_point (send_framed i s w) = w_u8_zero_point w"
  "w_gains (send_framed i s w) = w_gains w" "w_gain_default (send_framed i s w) = w_gain_default w"
  "w_udp (send_framed i s w) = w_udp w"
  by (simp_all add: send_framed_def)

text \<open>A broadcast only appends frames, one to each listener, in slot order.\<close>

definition audience :: "nat option \<Rightarrow> 'd world \<Rightarrow> nat list" where
  "audience skip w = filter (\<lambda>i. hears skip i (sess i w)) [0..<MAX_SESSIONS]"

lemma broadcast_eq:
  "broadcast skip event params w = w\<lparr>w_out := w_out w @ map (\<lambda>i. (i, event_json event params)) (audience skip w)\<rparr>"
proof -
  let ?e = "event_json event params"
  have "foldl (\<lambda>w i. if hears skip i (sess i w) then send_framed i ?e w else w) w is
      = w\<lparr>w_out := w_out w @ map (\<lambda>i. (i, ?e)) (filter (\<lambda>i. hears skip i (sess i w)) is)\<rparr>" for "is"
  proof (induction "is" arbitrary: w)
    case (Cons i "is")
    show ?case
    proof (cases "hears skip i (sess i w)")
      case True
      then have "send_framed i ?e w = w\<lparr>w_out := w_out w @ [(i, ?e)]\<rparr>" by (simp add: send_framed_def hears_def)
      moreover have "sess j (w\<lparr>w_out := x\<rparr>) = sess j w" for j x by (simp add: sess_def)
      ultimately show ?thesis using True by (simp add: Cons)
    qed (simp add: Cons)
  qed simp
  then show ?thesis by (simp add: broadcast_def audience_def)
qed

lemma broadcast_frame [simp, frame]:
  "w_rtl (broadcast k s p w) = w_rtl w" "w_vita (broadcast k s p w) = w_vita w"
  "w_sessions (broadcast k s p w) = w_sessions w" "w_rx_owner (broadcast k s p w) = w_rx_owner w"
  "w_stream_counter (broadcast k s p w) = w_stream_counter w" "w_rx_auth (broadcast k s p w) = w_rx_auth w"
  "w_keys (broadcast k s p w) = w_keys w" "w_device_name (broadcast k s p w) = w_device_name w"
  "w_vita_src_port (broadcast k s p w) = w_vita_src_port w" "w_u8_zero_point (broadcast k s p w) = w_u8_zero_point w"
  "w_gains (broadcast k s p w) = w_gains w" "w_gain_default (broadcast k s p w) = w_gain_default w"
  "w_udp (broadcast k s p w) = w_udp w"
  by (simp_all add: broadcast_eq)

declare cp_broadcast_event_def [simp] cp_broadcast_event_except_def [simp]

lemma sess_framed [simp, frame]: "sess j (send_framed i s w) = sess j w" "sess j (broadcast k ev p w) = sess j w"
  by (simp_all add: sess_def)

lemma sess_upd: "i < length (w_sessions w) \<Longrightarrow> sess j (upd i f w) = (if i = j then f (sess i w) else sess j w)"
  by (simp add: sess_def upd_def)

lemma sess_upd_other [simp]: "j \<noteq> i \<Longrightarrow> sess j (upd i f w) = sess j w"
  by (simp add: sess_def upd_def)

lemma upd_frame [simp, frame]:
  "w_rtl (upd i f w) = w_rtl w" "w_vita (upd i f w) = w_vita w" "length (w_sessions (upd i f w)) = length (w_sessions w)"
  "w_rx_owner (upd i f w) = w_rx_owner w" "w_rx_auth (upd i f w) = w_rx_auth w" "w_keys (upd i f w) = w_keys w"
  "w_udp (upd i f w) = w_udp w" "w_out (upd i f w) = w_out w" "w_gains (upd i f w) = w_gains w"
  "w_stream_counter (upd i f w) = w_stream_counter w" "w_device_name (upd i f w) = w_device_name w"
  "w_gain_default (upd i f w) = w_gain_default w"
  by (simp_all add: upd_def)

lemma sess_fields [simp, frame]:
  "sess i (w\<lparr>w_rtl := g\<rparr>) = sess i w" "sess i (w\<lparr>w_vita := v\<rparr>) = sess i w" "sess i (w\<lparr>w_out := out\<rparr>) = sess i w"
  "sess i (w\<lparr>w_udp := u\<rparr>) = sess i w" "sess i (w\<lparr>w_rx_owner := ow\<rparr>) = sess i w" "sess i (w\<lparr>w_gains := gs\<rparr>) = sess i w"
  "sess i (w\<lparr>w_gain_default := gd\<rparr>) = sess i w" "sess i (w\<lparr>w_stream_counter := n\<rparr>) = sess i w"
  by (simp_all add: sess_def)

section \<open>Framing round trip\<close>

lemma text_of_octets [simp]: "text_of (octets_of s) = s"
  by (induction s) (simp_all add: text_of_def octets_of_def unat_of_char)

lemma read_frame_bytes:
  assumes "s \<noteq> []" and "length s \<le> MAX_MSG_BYTES"
  shows "read_frame (frame_bytes s @ rest) = Message s rest"
proof -
  have len: "unat (of_nat (length s) :: u32) = length s"
    using assms(2) by (simp add: unat_of_nat take_bit_nat_eq_self MAX_MSG_BYTES_def)
  have nz: "(of_nat (length s) :: u32) \<noteq> 0"
    using assms(1) len by (metis length_0_conv unat_0)
  have le: "\<not> of_nat MAX_MSG_BYTES < (of_nat (length s) :: u32)"
    using assms(2) len by (simp add: word_less_nat_alt MAX_MSG_BYTES_def)
  have "recv_exact 4 (frame_bytes s @ rest) = Some (be32 (of_nat (length s)), octets_of s @ rest)"
    by (simp add: recv_exact_def frame_bytes_def)
  moreover have "recv_exact (length s) (octets_of s @ rest) = Some (octets_of s, rest)"
    by (simp add: recv_exact_def octets_of_def)
  ultimately show ?thesis using nz le by (simp add: read_frame_def Let_def len)
qed

end
