(* ===== verification/Cp_Commands.thy ===== *)
theory Cp_Commands
  imports Cp_State
begin

text \<open>
  The command handlers of \<open>cp/cp_commands.c\<close>. A handler takes the slot of the session, the request id, the
  message and its tokens, and returns the state afterwards; \<open>None\<close> stands for a walk that reads tokens the parser
  did not produce. A guard that answers an error and returns takes the rest of the handler as a continuation.
\<close>

section \<open>Response helpers\<close>

definition json_esc :: "char \<Rightarrow> string" where
  "json_esc c =
     (if c = CHR 0x22 then [CHR 0x5C, CHR 0x22]
      else if c = CHR 0x5C then [CHR 0x5C, CHR 0x5C]
      else if c = CHR 0x0A then [CHR 0x5C, CHR ''n'']
      else if c = CHR 0x0D then [CHR 0x5C, CHR ''r'']
      else if c = CHR 0x09 then [CHR 0x5C, CHR ''t'']
      else if c = CHR 0x08 then [CHR 0x5C, CHR ''b'']
      else if c = CHR 0x0C then [CHR 0x5C, CHR ''f'']
      else if (of_char c :: nat) < 32 then [CHR 0x5C, CHR ''u''] @ show_hex 4 (of_char c)
      else [c])"

text \<open>The copying loop: it stops before the escape that would not leave room for the NUL.\<close>

fun escape_upto :: "nat \<Rightarrow> string \<Rightarrow> string" where
  "escape_upto cap [] = []"
| "escape_upto cap (c # s) =
     (let e = json_esc c in if cap \<le> length e then [] else e @ escape_upto (cap - length e) s)"

definition json_escape :: "string \<Rightarrow> nat \<Rightarrow> string" where
  "json_escape s cap = escape_upto cap (cstr s)"

definition ok_json :: "string \<Rightarrow> string \<Rightarrow> string" where
  \<open>ok_json rid result =
     snprintf MAX_MSG_BYTES (''{"type":"response","id":"'' @ json_escape rid 288 @ ''","status":"ok","result":'' @ result @ ''}'')\<close>

definition send_ok :: "nat \<Rightarrow> string \<Rightarrow> string \<Rightarrow> 'd world \<Rightarrow> 'd world" where
  "send_ok i rid result w = send_framed i (ok_json rid result) w"

definition error_json :: "string \<Rightarrow> string \<Rightarrow> string \<Rightarrow> string" where
  \<open>error_json rid code message =
     snprintf 1024 (''{"type":"response","id":"'' @ json_escape rid 288 @ ''","status":"error","error":{"code":"'' @ code
       @ ''","message":"'' @ json_escape message 512 @ ''"}}'')\<close>

definition send_error :: "nat \<Rightarrow> string \<Rightarrow> string \<Rightarrow> string \<Rightarrow> 'd world \<Rightarrow> 'd world" where
  "send_error i rid code message w = send_framed i (error_json rid code message) w"

definition send_event :: "nat \<Rightarrow> string \<Rightarrow> string \<Rightarrow> 'd world \<Rightarrow> 'd world" where
  "send_event i event params w = send_framed i (event_json event params) w"

section \<open>Parameter helpers\<close>

definition with_key :: "string \<Rightarrow> jsmntok_t list \<Rightarrow> nat \<Rightarrow> string \<Rightarrow> (nat option \<Rightarrow> 'r option) \<Rightarrow> 'r option" where
  "with_key js t obj key k = (case tok_find_key js t obj key of None \<Rightarrow> None | Some r \<Rightarrow> k r)"

definition with_tok :: "jsmntok_t list \<Rightarrow> nat \<Rightarrow> (jsmntok_t \<Rightarrow> 'r option) \<Rightarrow> 'r option" where
  "with_tok t i k = (case tok_at t i of None \<Rightarrow> None | Some tok \<Rightarrow> k tok)"

definition find_params :: "string \<Rightarrow> jsmntok_t list \<Rightarrow> (nat option \<Rightarrow> 'r option) \<Rightarrow> 'r option" where
  "find_params js t k = with_key js t 0 ''params'' k"

definition require_function ::
    "nat \<Rightarrow> string \<Rightarrow> string \<Rightarrow> jsmntok_t list \<Rightarrow> 'd world \<Rightarrow> (nat \<Rightarrow> 'd world option) \<Rightarrow> 'd world option" where
  "require_function i rid js t w k =
     find_params js t (\<lambda>p. case p of
       None \<Rightarrow> Some (send_error i rid ''missing_parameter'' ''params required'' w)
     | Some p \<Rightarrow> with_key js t p ''function'' (\<lambda>f. case f of
         None \<Rightarrow> with_key js t p ''direction'' (\<lambda>d. case d of
             Some _ \<Rightarrow> Some (send_error i rid ''missing_parameter''
                  ''function required (Release 1.2 renamed direction to function; see SDR-SLC-CP-1.0 12.1)'' w)
           | None \<Rightarrow> Some (send_error i rid ''missing_parameter'' ''function required'' w))
       | Some f \<Rightarrow> with_tok t f (\<lambda>tok.
           if tok_eq js tok ''rx'' then k p
           else Some (send_error i rid ''not_supported'' ''This device implements the rx function block only'' w))))"

definition channel_ok ::
    "nat \<Rightarrow> string \<Rightarrow> string \<Rightarrow> jsmntok_t list \<Rightarrow> nat \<Rightarrow> 'd world \<Rightarrow> 'd world option \<Rightarrow> 'd world option" where
  "channel_ok i rid js t p w k =
     with_key js t p ''channel'' (\<lambda>c. case c of
       None \<Rightarrow> k
     | Some _ \<Rightarrow> Some (send_error i rid ''invalid_parameter''
         ''This device has a single signal path and publishes no channels; omit the channel parameter'' w))"

definition may_configure :: "nat \<Rightarrow> string \<Rightarrow> 'd world \<Rightarrow> 'd world option \<Rightarrow> 'd world option" where
  "may_configure i rid w k =
     (if \<not> cp_rx_owned_by_other i w then k
      else Some (send_error i rid ''in_use'' ''The rx channel is held by another client'' w))"

text \<open>The three guards every configuration command starts with.\<close>

definition guarded ::
    "nat \<Rightarrow> string \<Rightarrow> string \<Rightarrow> jsmntok_t list \<Rightarrow> 'd world \<Rightarrow> (nat \<Rightarrow> 'd world option) \<Rightarrow> 'd world option" where
  "guarded i rid js t w k =
     require_function i rid js t w (\<lambda>p. channel_ok i rid js t p w (may_configure i rid w (k p)))"

text \<open>The hardware monitors: board temperature in millidegrees, and the supply of the hwmon that calls itself \<open>rpi_volt\<close>.\<close>

definition read_sysfs_number :: "'d env \<Rightarrow> string \<Rightarrow> double \<Rightarrow> double option" where
  "read_sysfs_number e path scale = map_option (\<lambda>v. dmul v scale) (e_scan e path)"

definition read_board_temperature :: "'d env \<Rightarrow> double option" where
  "read_board_temperature e =
     (case read_sysfs_number e ''/sys/class/thermal/thermal_zone0/temp'' (fl (1 / 1000)) of
        None \<Rightarrow> None
      | Some t \<Rightarrow> if dless (Fin (- 40)) t \<and> dless t (Fin 150) then Some t else None)"

fun supply_loop :: "'d env \<Rightarrow> nat list \<Rightarrow> double option" where
  "supply_loop e [] = None"
| "supply_loop e (i # is') =
     (let dir = ''/sys/class/hwmon/hwmon'' @ show_nat i in
      case e_gets e (snprintf 96 (dir @ ''/name'')) of
        None \<Rightarrow> supply_loop e is'
      | Some name \<Rightarrow>
          if take 8 (cstr name) \<noteq> ''rpi_volt'' then supply_loop e is'
          else case read_sysfs_number e (snprintf 96 (dir @ ''/in0_input'')) (fl (1 / 1000)) of
                 None \<Rightarrow> supply_loop e is'
               | Some v \<Rightarrow> if dless (Fin 0) v \<and> dless v (Fin 30) then Some v else None)"

definition read_supply_voltage :: "'d env \<Rightarrow> double option" where
  "read_supply_voltage e = supply_loop e [0..<16]"

definition fmt_nullable :: "double option \<Rightarrow> string" where
  "fmt_nullable v = (case v of Some x \<Rightarrow> snprintf 24 (fmt_f 1 x) | None \<Rightarrow> ''null'')"

definition bool_text :: "bool \<Rightarrow> string" where
  "bool_text b = (if b then ''true'' else ''false'')"

definition ds_name :: "sampling_mode_t \<Rightarrow> string" where
  "ds_name m = (case m of SAMPLING_NORMAL \<Rightarrow> ''off'' | SAMPLING_DIRECT_I \<Rightarrow> ''i_branch'' | SAMPLING_DIRECT_Q \<Rightarrow> ''q_branch'')"

section \<open>Capabilities\<close>

definition load_gain_table :: "'d env \<Rightarrow> 'd world \<Rightarrow> 'd world" where
  "load_gain_table e w =
     (case w_gains w of
        Some _ \<Rightarrow> w
      | None \<Rightarrow>
          (case rtl_get_gain_list (e_lib e) (w_rtl w) of
             [] \<Rightarrow> w\<lparr>w_gains := Some [], w_gain_default := tenths RTL_DEFAULT_GAIN\<rparr>
           | g # gs \<Rightarrow> w\<lparr>w_gains := Some (g # gs), w_gain_default := tenths (nearest RTL_DEFAULT_GAIN gs g)\<rparr>))"

definition gain_table :: "'d world \<Rightarrow> int list" where
  "gain_table w = (case w_gains w of None \<Rightarrow> [] | Some gs \<Rightarrow> gs)"

definition cp_default_gain_db :: "'d env \<Rightarrow> 'd world \<Rightarrow> double \<times> 'd world" where
  "cp_default_gain_db e w = (let w = load_gain_table e w in (w_gain_default w, w))"

text \<open>\<open>strncat(dst, src, sizeof dst - strlen dst - 1)\<close>, and the array loops built on it.\<close>

definition strncat :: "nat \<Rightarrow> string \<Rightarrow> string \<Rightarrow> string" where
  "strncat cap d s = take (cap - 1) (d @ s)"

fun array_loop :: "nat \<Rightarrow> bool \<Rightarrow> string list \<Rightarrow> string \<Rightarrow> string" where
  "array_loop cap first [] acc = strncat cap acc '']''"
| "array_loop cap first (x # xs) acc =
     array_loop cap False xs (strncat cap acc (snprintf 16 ((if first then [] else '','') @ x)))"

definition controls_json :: "double \<Rightarrow> double \<Rightarrow> double \<Rightarrow> string \<Rightarrow> string" where
  \<open>controls_json gain_min gain_max pref_gain gains_arr =
     snprintf 1200 (''[{"name":"rf_gain","type":"float","unit":"dB","min":'' @ fmt_f 1 gain_min @ '',"max":'' @ fmt_f 1 gain_max
       @ '',"default":'' @ fmt_f 1 pref_gain @ '',"allowed_values":'' @ gains_arr
       @ ''},{"name":"agc","type":"boolean","default":false},''
       @ ''{"name":"bias_tee","type":"float","unit":"V","min":0.0,"max":'' @ fmt_f 1 RTL_BIAS_TEE_VOLTS
       @ '',"step":'' @ fmt_f 1 RTL_BIAS_TEE_VOLTS @ '',"default":0.0,"allowed_values":[0.0,'' @ fmt_f 1 RTL_BIAS_TEE_VOLTS
       @ '']},{"name":"ppm_correction","type":"integer","min":-100,"max":100,"step":1,"default":0},''
       @ ''{"name":"direct_sampling","type":"enum","values":["off","i_branch","q_branch"],"default":"off"}]'')\<close>

definition build_capabilities_json :: "'d world \<Rightarrow> string" where
  \<open>build_capabilities_json w =
     (let g = w_rtl w; gs = gain_table w;
          gain_min = (if gs \<noteq> [] then tenths (hd gs) else Fin 0);
          gain_max = (if gs \<noteq> [] then tenths (last gs) else fl (496 / 10));
          gains_arr = array_loop 400 True (map (\<lambda>x. fmt_f 1 (tenths x)) gs) ''['';
          rates_arr = array_loop 160 True (map fmt_u (rtl_rate_list g)) ''['';
          pref_gain = w_gain_default w
      in snprintf 6144 (''{"schema":"sdrslc.capabilities","schema_version":'' @ fmt_d CAP_SCHEMA_VERSION
           @ '',"rx":{"tier":'' @ fmt_d RX_TIER @ '',"access":"exclusive","auth":"''
           @ (if cp_rx_requires_auth w then AUTH_METHOD_PSK else ''none'')
           @ ''","frequency_ranges_hz":[{"min":'' @ fmt_u (rtl_freq_min g) @ '',"max":'' @ fmt_u (rtl_freq_max g)
           @ ''}],"sample_rates_sps":'' @ rates_arr @ '',"preferred_sample_rate_sps":'' @ fmt_u (rtl_preferred_rate g)
           @ '',"preferred_gain_db":'' @ fmt_f 1 pref_gain
           @ '',"reference_level_dbm_at_preferred_gain":'' @ fmt_f 1 (rtl_reference_level_dbm pref_gain)
           @ '',"reference_level_accuracy_db":'' @ fmt_f 1 RTL_REF_LEVEL_ACCURACY_DB
           @ '',"transports":[{"protocol":"vita49","protocol_version":"VITA-A/1.0","source_port":'' @ fmt_d (w_vita_src_port w)
           @ '',"samples_per_packet":'' @ fmt_u (g_samples_per_pkt g)
           @ ''}],"iq_formats":[{"encoding":"unsigned","bits_per_component":8,"container_bits":8,"packing":"interleaved",''
           @ ''"byte_order":"big_endian","zero_point":'' @ fmt_f 2 (w_u8_zero_point w)
           @ '',"native":true,"supported":true,"label":"u8"}],"controls":''
           @ controls_json gain_min gain_max pref_gain gains_arr @ ''}}''))\<close>

section \<open>Envelope\<close>

text \<open>The version loop of \<open>cmd_hello\<close>: whether 1.0 and whether a release number was offered.\<close>

definition is_release :: "string \<Rightarrow> jsmntok_t \<Rightarrow> bool" where
  "is_release js t \<longleftrightarrow> tok_eq js t ''1.1'' \<or> tok_eq js t ''1.2'' \<or> tok_eq js t ''1.3''"

fun hello_versions :: "string \<Rightarrow> jsmntok_t list \<Rightarrow> nat \<Rightarrow> nat \<Rightarrow> bool \<times> bool \<Rightarrow> (bool \<times> bool) option" where
  "hello_versions js t 0 vi acc = Some acc"
| "hello_versions js t (Suc k) vi (supports, offered) =
     (case tok_at t vi of
        None \<Rightarrow> None
      | Some tok \<Rightarrow>
          let acc = (if tok_eq js tok PROTO_VERSION then (True, offered)
                     else if is_release js tok then (supports, True) else (supports, offered))
          in (case skip_tree t (tk_size tok) (Suc vi) of
                None \<Rightarrow> None | Some vi' \<Rightarrow> hello_versions js t k vi' acc))"

definition hello_result :: "string \<Rightarrow> string \<Rightarrow> string" where
  \<open>hello_result device_name auth_obj =
     snprintf 800 (''{"protocol_name":"'' @ PROTO_NAME @ ''","selected_protocol_version":"'' @ PROTO_VERSION
       @ ''","device_name":"'' @ device_name @ ''","manufacturer":"'' @ MANUFACTURER @ ''","model":"'' @ MODEL_NAME
       @ ''","hardware_revision":"'' @ HW_REVISION @ ''","firmware_version":"'' @ SLC_FW_STRING @ ''"'' @ auth_obj @ ''}'')\<close>

definition issue_nonce :: "'d env \<Rightarrow> nat \<Rightarrow> 'd world \<Rightarrow> 'd world" where
  "issue_nonce e i w =
     (case auth_make_nonce (e_random e) of
        None \<Rightarrow> upd i (\<lambda>s. s\<lparr>ss_nonce_valid := False, ss_nonce_hex := []\<rparr>) w
      | Some ((raw, hex), _) \<Rightarrow> upd i (\<lambda>s. s\<lparr>ss_nonce := raw, ss_nonce_hex := hex, ss_nonce_valid := True\<rparr>) w)"

definition hello_accept :: "'d env \<Rightarrow> nat \<Rightarrow> string \<Rightarrow> string \<Rightarrow> 'd world \<Rightarrow> 'd world" where
  \<open>hello_accept e i rid name w =
     (let w = upd i (\<lambda>s. s\<lparr>ss_client_name := name, ss_state := SESSION_IDLE\<rparr>) w;
          w = (if cp_rx_requires_auth w then issue_nonce e i w else w);
          auth_obj = (if cp_rx_requires_auth w
                      then snprintf 160 ('',"auth":{"methods":["'' @ AUTH_METHOD_PSK @ ''"],"nonce":"''
                             @ ss_nonce_hex (sess i w) @ ''"}'') else [])
      in send_ok i rid (hello_result (w_device_name w) auth_obj) w)\<close>

definition cmd_hello :: "'d env \<Rightarrow> nat \<Rightarrow> string \<Rightarrow> string \<Rightarrow> jsmntok_t list \<Rightarrow> 'd world \<Rightarrow> 'd world option" where
  \<open>cmd_hello e i rid js t w =
     find_params js t (\<lambda>p. case p of
       None \<Rightarrow> Some (send_error i rid ''missing_parameter'' ''params required'' w)
     | Some p \<Rightarrow> with_key js t p ''supported_protocol_versions'' (\<lambda>v.
         let bad = send_error i rid ''missing_parameter''
               ''hello requires supported_protocol_versions, an array of version strings such as ["1.0"]'' w
         in case v of
           None \<Rightarrow> Some bad
         | Some v \<Rightarrow> with_tok t v (\<lambda>arr.
             if tk_type arr \<noteq> JSMN_ARRAY then Some bad
             else case hello_versions js t (nat (tk_size arr)) (Suc v) (False, False) of
               None \<Rightarrow> None
             | Some (supports, offered_release) \<Rightarrow>
                 if \<not> supports then Some (send_error i rid ''unsupported_protocol_version''
                   (if offered_release
                    then ''No common protocol version: this device speaks "1.0". Release numbers (1.1, 1.2, 1.3) are document revisions, not protocol versions (SDR-SLC-CP-1.0 10.1)''
                    else ''No common protocol version; this device speaks "1.0"'') w)
                 else with_key js t p ''client_name'' (\<lambda>cn. case cn of
                     Some c \<Rightarrow> with_tok t c (\<lambda>tok. Some (hello_accept e i rid (tok_str js tok 48) w))
                   | None \<Rightarrow> Some (hello_accept e i rid ''(unnamed)'' w)))))\<close>

section \<open>Authentication\<close>

definition AUTH_MAX_FAILURES :: u32 where "AUTH_MAX_FAILURES = 10"
definition AUTH_WINDOW_NS :: u64 where "AUTH_WINDOW_NS = 60000000000"

definition auth_failed_json :: "string \<Rightarrow> string \<Rightarrow> string" where
  \<open>auth_failed_json rid details =
     snprintf 640 (''{"type":"response","id":"'' @ json_escape rid 288
       @ ''","status":"error","error":{"code":"auth_failed","message":"authentication was rejected","details":''
       @ details @ ''}}'')\<close>

text \<open>A refused attempt: it is counted, a fresh nonce is issued with the reply, the tenth closes the connection.\<close>

definition auth_refuse :: "'d env \<Rightarrow> nat \<Rightarrow> string \<Rightarrow> 'd world \<Rightarrow> 'd world" where
  \<open>auth_refuse e i rid w =
     (let w = upd i (\<lambda>s. s\<lparr>ss_auth_failures := ss_auth_failures s + 1\<rparr>) w;
          (details, w) = (case auth_make_nonce (e_random e) of
             Some ((raw, hex), _) \<Rightarrow>
               (snprintf 96 (''{"nonce":"'' @ hex @ ''"}''),
                upd i (\<lambda>s. s\<lparr>ss_nonce := raw, ss_nonce_hex := hex, ss_nonce_valid := True\<rparr>) w)
           | None \<Rightarrow> (''{}'', upd i (\<lambda>s. s\<lparr>ss_nonce_valid := False\<rparr>) w));
          w = send_framed i (auth_failed_json rid details) w
      in if AUTH_MAX_FAILURES \<le> ss_auth_failures (sess i w)
         then upd i (\<lambda>s. s\<lparr>ss_close_after_reply := True\<rparr>) w else w)\<close>

definition auth_decide :: "'d env \<Rightarrow> nat \<Rightarrow> string \<Rightarrow> string \<Rightarrow> string \<Rightarrow> string \<Rightarrow> 'd world \<Rightarrow> 'd world" where
  \<open>auth_decide e i rid method kid resp w =
     (let now = e_mono_ns e;
          w = (if AUTH_WINDOW_NS < now - ss_auth_window_ns (sess i w)
               then upd i (\<lambda>s. s\<lparr>ss_auth_window_ns := now, ss_auth_failures := 0\<rparr>) w else w);
          ok = (ss_nonce_valid (sess i w) \<and> method = AUTH_METHOD_PSK \<and> kr_keys (w_keys w) \<noteq> []
                \<and> auth_verify (w_keys w) kid (ss_nonce (sess i w)) resp)
      in if \<not> ok then auth_refuse e i rid w
         else send_ok i rid ''{"authenticated":true,"functions":["rx"]}''
                (upd i (\<lambda>s. s\<lparr>ss_rx_unlocked := True, ss_nonce_valid := False\<rparr>) w))\<close>

text \<open>The optional lookups of \<open>cmd_authenticate\<close>: absent parameters behave as absent keys.\<close>

definition with_param_key :: "string \<Rightarrow> jsmntok_t list \<Rightarrow> nat option \<Rightarrow> string \<Rightarrow> (nat option \<Rightarrow> 'r option) \<Rightarrow> 'r option" where
  "with_param_key js t p key k = (case p of None \<Rightarrow> k None | Some p \<Rightarrow> with_key js t p key k)"

definition cmd_authenticate :: "'d env \<Rightarrow> nat \<Rightarrow> string \<Rightarrow> string \<Rightarrow> jsmntok_t list \<Rightarrow> 'd world \<Rightarrow> 'd world option" where
  \<open>cmd_authenticate e i rid js t w =
     (if \<not> cp_rx_requires_auth w then Some (send_ok i rid ''{"authenticated":true,"functions":[]}'' w)
      else find_params js t (\<lambda>p.
        with_param_key js t p ''method'' (\<lambda>mi.
        with_param_key js t p ''key_id'' (\<lambda>ki.
        with_param_key js t p ''response'' (\<lambda>ri.
          case (mi, ri) of
            (Some mi, Some ri) \<Rightarrow>
              with_tok t mi (\<lambda>mt. with_tok t ri (\<lambda>rt.
                case ki of
                  Some ki \<Rightarrow> with_tok t ki (\<lambda>kt.
                    Some (auth_decide e i rid (tok_str js mt 48) (tok_str js kt AUTH_KEY_ID_MAX) (tok_str js rt 80) w))
                | None \<Rightarrow> Some (auth_decide e i rid (tok_str js mt 48) ''default'' (tok_str js rt 80) w)))
          | _ \<Rightarrow> Some (send_error i rid ''missing_parameter''
                   ''authenticate requires "method" and "response"; "key_id" defaults to "default"'' w))))))\<close>

text \<open>\<open>cmd_addresses_rx\<close>, the gate's question; \<open>None\<close> as for the handlers.\<close>

definition cmd_addresses_rx :: "string \<Rightarrow> string \<Rightarrow> jsmntok_t list \<Rightarrow> bool option" where
  "cmd_addresses_rx cmd js t =
     (if cmd \<in> {''start_rx'', ''stop_rx'', ''close_stream''} then Some True
      else if cmd \<notin> {''set_frequency'', ''set_sample_rate'', ''set_control'', ''open_stream''} then Some False
      else find_params js t (\<lambda>p. case p of
             None \<Rightarrow> Some False
           | Some p \<Rightarrow> with_key js t p ''function'' (\<lambda>f. case f of
               None \<Rightarrow> Some False
             | Some f \<Rightarrow> with_tok t f (\<lambda>tok. Some (tok_eq js tok ''rx'')))))"

section \<open>Status\<close>

definition cmd_get_capabilities :: "'d env \<Rightarrow> nat \<Rightarrow> string \<Rightarrow> 'd world \<Rightarrow> 'd world option" where
  \<open>cmd_get_capabilities e i rid w =
     (let w = load_gain_table e w
      in Some (send_ok i rid (snprintf 6272 (''{"capabilities":'' @ build_capabilities_json w @ ''}'')) w))\<close>

definition cmd_ping :: "nat \<Rightarrow> string \<Rightarrow> 'd world \<Rightarrow> 'd world option" where
  "cmd_ping i rid w = Some (send_ok i rid ''{}'' w)"

definition status_json :: "'d env \<Rightarrow> nat \<Rightarrow> 'd world \<Rightarrow> string" where
  \<open>status_json e i w =
     (let g = w_rtl w;
          adc = (case rtl_get_adc_level_dbfs (e_libm e) g of Some x \<Rightarrow> snprintf 32 (fmt_f 1 x) | None \<Rightarrow> ''null'')
      in snprintf 1024 (''{"rx":{"enabled":true,"streaming":'' @ bool_text (ss_state (sess i w) = SESSION_STREAMING)
           @ '',"control_state":"'' @ cp_rx_control_state i w @ ''","frequency_hz":'' @ fmt_u (g_freq_hz g)
           @ '',"sample_rate_sps":'' @ fmt_u (g_rate_requested_sps g) @ '',"actual_sample_rate_sps":'' @ fmt_u (g_rate_sps g)
           @ '',"reference_level_dbm":'' @ fmt_f 1 (rtl_reference_level_dbm (tenths (g_gain_tenth_db g)))
           @ '',"adc_overload":'' @ bool_text (g_adc_overload g) @ '',"adc_level_dbfs":'' @ adc
           @ '',"lo_locked":null,"controls":{"rf_gain":'' @ fmt_f 1 (tenths (g_gain_tenth_db g))
           @ '',"agc":'' @ bool_text (g_agc_enabled g) @ '',"bias_tee":'' @ fmt_f 1 (g_bias_tee_volts g)
           @ '',"ppm_correction":'' @ fmt_d (g_ppm_correction g) @ '',"direct_sampling":"'' @ ds_name (g_sampling_mode g)
           @ ''"},"hardware_monitors":{"pa_temperature_celsius":null,"pa_supply_voltage_v":null,''
           @ ''"pa_drain_current_ma":null,"board_temperature_celsius":'' @ fmt_nullable (read_board_temperature e)
           @ '',"supply_voltage_v":'' @ fmt_nullable (read_supply_voltage e) @ '',"total_current_ma":null}}}''))\<close>

definition cmd_get_status :: "'d env \<Rightarrow> nat \<Rightarrow> string \<Rightarrow> 'd world \<Rightarrow> 'd world option" where
  "cmd_get_status e i rid w = Some (send_ok i rid (status_json e i w) w)"

definition utc_now :: "'d env \<Rightarrow> string" where
  "utc_now e = snprintf 40 (snprintf 32 (e_stamp e) @ ''.'' @ pad_zero 3 (show_nat (e_millis e)) @ ''Z'')"

definition cmd_get_clock_status :: "'d env \<Rightarrow> nat \<Rightarrow> string \<Rightarrow> 'd world \<Rightarrow> 'd world option" where
  \<open>cmd_get_clock_status e i rid w =
     Some (send_ok i rid (snprintf 256 (''{"source":"free_running","synced":false,"accuracy_us":null,"utc_time":"'' @ utc_now e
       @ ''","epoch_s":'' @ fmt_d (e_epoch_s e) @ '',"ptp":{"available":false},"gps":{"available":false}}'')) w)\<close>

section \<open>Configuration\<close>

definition frequency_event :: "u32 \<Rightarrow> string" where
  \<open>frequency_event applied = snprintf 128 (''{"function":"rx","frequency_hz":'' @ fmt_u applied @ ''}'')\<close>

definition rate_event :: "u32 \<Rightarrow> u32 \<Rightarrow> string" where
  \<open>rate_event rate applied =
     snprintf 192 (''{"function":"rx","sample_rate_sps":'' @ fmt_u rate @ '',"actual_sample_rate_sps":'' @ fmt_u applied @ ''}'')\<close>

text \<open>Everything \<open>cmd_set_frequency\<close> does once the text of the number is known.\<close>

definition set_frequency_value :: "'d env \<Rightarrow> nat \<Rightarrow> string \<Rightarrow> string \<Rightarrow> 'd world \<Rightarrow> 'd world" where
  \<open>set_frequency_value e i rid fstr w =
     (case strtoull fstr of (freq, erange) \<Rightarrow>
      if erange \<or> freq < 1 then send_error i rid ''invalid_parameter'' ''frequency_hz out of range'' w
      else if freq < rtl_freq_min (w_rtl w) \<or> rtl_freq_max (w_rtl w) < freq
      then send_error i rid ''unsupported_frequency'' ''Frequency outside the published range for this mode'' w
      else case rtl_set_frequency (e_lib e) freq (w_rtl w) of (applied, g) \<Rightarrow>
        let w = w\<lparr>w_rtl := g\<rparr> in
        if applied = 0 then send_error i rid ''device_error'' ''Frequency set failed'' w
        else let w = upd i (\<lambda>s. s\<lparr>ss_frequency_hz := ucast applied\<rparr>) w;
                 w = send_ok i rid (snprintf 128 (''{"function":"rx","applied_frequency_hz":'' @ fmt_u applied @ ''}'')) w
             in cp_broadcast_event ''frequency_changed'' (frequency_event applied) w)\<close>

definition cmd_set_frequency :: "'d env \<Rightarrow> nat \<Rightarrow> string \<Rightarrow> string \<Rightarrow> jsmntok_t list \<Rightarrow> 'd world \<Rightarrow> 'd world option" where
  "cmd_set_frequency e i rid js t w =
     guarded i rid js t w (\<lambda>p. with_key js t p ''frequency_hz'' (\<lambda>fi. case fi of
       None \<Rightarrow> Some (send_error i rid ''missing_parameter'' ''frequency_hz required'' w)
     | Some fi \<Rightarrow> with_tok t fi (\<lambda>tok. Some (set_frequency_value e i rid (tok_str js tok 32) w))))"

definition set_sample_rate_value :: "'d env \<Rightarrow> nat \<Rightarrow> string \<Rightarrow> string \<Rightarrow> 'd world \<Rightarrow> 'd world" where
  \<open>set_sample_rate_value e i rid rstr w =
     (let rate = (ucast (fst (strtoull rstr)) :: u32) in
      if rate \<notin> set (rtl_rate_list (w_rtl w))
      then send_error i rid ''unsupported_sample_rate'' ''Rate not present in the published sample_rates_sps'' w
      else case rtl_set_sample_rate (e_lib e) rate (w_rtl w) of (applied, g) \<Rightarrow>
        let w = w\<lparr>w_rtl := g\<rparr> in
        if applied = 0 then send_error i rid ''device_error'' ''Sample rate set failed'' w
        else let w = upd i (\<lambda>s. s\<lparr>ss_sample_rate_sps := applied\<rparr>) w;
                 w = send_ok i rid (snprintf 160 (''{"function":"rx","applied_sample_rate_sps":'' @ fmt_u rate @ ''}'')) w
             in cp_broadcast_event ''sample_rate_changed'' (rate_event rate applied) w)\<close>

definition cmd_set_sample_rate :: "'d env \<Rightarrow> nat \<Rightarrow> string \<Rightarrow> string \<Rightarrow> jsmntok_t list \<Rightarrow> 'd world \<Rightarrow> 'd world option" where
  "cmd_set_sample_rate e i rid js t w =
     guarded i rid js t w (\<lambda>p.
       if ss_state (sess i w) = SESSION_STREAMING \<or> ss_state (sess i w) = SESSION_STREAM_OPEN
       then Some (send_error i rid ''stream_reconfiguration_required'' ''Close the stream before changing the sample rate'' w)
       else with_key js t p ''sample_rate_sps'' (\<lambda>ri. case ri of
              None \<Rightarrow> Some (send_error i rid ''missing_parameter'' ''sample_rate_sps required'' w)
            | Some ri \<Rightarrow> with_tok t ri (\<lambda>tok. Some (set_sample_rate_value e i rid (tok_str js tok 16) w))))"

text \<open>\<open>apply_mode_change_side_effects\<close>: frequency, sample rate, then the payload format and a Context packet.\<close>

definition clamp_frequency :: "'d env \<Rightarrow> 'd world \<Rightarrow> 'd world" where
  "clamp_frequency e w =
     (let g = w_rtl w in
      if g_freq_hz g < rtl_freq_min g \<or> rtl_freq_max g < g_freq_hz g then
        (let target = (if g_freq_hz g < rtl_freq_min g then rtl_freq_min g else rtl_freq_max g) in
         case rtl_set_frequency (e_lib e) target g of (applied, g) \<Rightarrow>
           let w = w\<lparr>w_rtl := g\<rparr>
           in if applied \<noteq> 0 then cp_broadcast_event ''frequency_changed'' (frequency_event applied) w else w)
      else w)"

definition clamp_rate :: "'d env \<Rightarrow> 'd world \<Rightarrow> 'd world" where
  "clamp_rate e w =
     (let g = w_rtl w in
      if g_rate_requested_sps g \<in> set (rtl_rate_list g) then w
      else (let want = rtl_preferred_rate g in
            case rtl_set_sample_rate (e_lib e) want g of (applied, g) \<Rightarrow>
              let w = w\<lparr>w_rtl := g\<rparr>
              in if applied \<noteq> 0 then cp_broadcast_event ''sample_rate_changed'' (rate_event want applied) w else w))"

definition send_context_all :: "'d world \<Rightarrow> 'd world" where
  "send_context_all w = on_vita (vita_send_context_all (g_gain_tenth_db (w_rtl w))) w"

definition apply_mode_change_side_effects :: "'d env \<Rightarrow> 'd world \<Rightarrow> 'd world" where
  "apply_mode_change_side_effects e w =
     (let w = clamp_rate e (clamp_frequency e w);
          w = w\<lparr>w_vita := vita_update_payload_format (sampling_mode_payload_fmt (g_sampling_mode (w_rtl w))) (w_vita w)\<rparr>
      in send_context_all w)"

section \<open>Controls\<close>

definition control_result :: "string \<Rightarrow> string \<Rightarrow> string" where
  \<open>control_result name v = snprintf 160 (''{"function":"rx","name":"'' @ name @ ''","applied_value":'' @ v @ ''}'')\<close>

definition control_event :: "string \<Rightarrow> string \<Rightarrow> string" where
  \<open>control_event name v = snprintf 192 (''{"function":"rx","name":"'' @ name @ ''","value":'' @ v @ ''}'')\<close>

definition quote :: "string \<Rightarrow> string" where
  "quote s = [CHR 0x22] @ s @ [CHR 0x22]"

text \<open>A number token: a primitive that is neither \<open>true\<close> nor \<open>false\<close>.\<close>

definition number_tok :: "string \<Rightarrow> jsmntok_t \<Rightarrow> bool" where
  "number_tok js tok \<longleftrightarrow> tk_type tok = JSMN_PRIMITIVE \<and> \<not> tok_is_bool js tok"

definition on_gain_list :: "double \<Rightarrow> int list \<Rightarrow> bool" where
  "on_gain_list val gs \<longleftrightarrow> (\<exists>g \<in> set gs. dless (dfabs (dsub val (tenths g))) (fl (5 / 100)))"

definition set_rf_gain :: "'d env \<Rightarrow> nat \<Rightarrow> string \<Rightarrow> string \<Rightarrow> jsmntok_t \<Rightarrow> string \<Rightarrow> 'd world \<Rightarrow> 'd world option" where
  "set_rf_gain e i rid js tok valstr w =
     (if \<not> number_tok js tok then Some (send_error i rid ''invalid_parameter'' ''rf_gain requires a numeric value'' w)
      else if g_agc_enabled (w_rtl w)
      then Some (send_ok i rid (control_result ''rf_gain'' (fmt_f 1 (rtl_get_gain (w_rtl w)))) w)
      else let val = strtod valstr; w = load_gain_table e w in
        if \<not> on_gain_list val (gain_table w)
        then Some (send_error i rid ''invalid_parameter''
               ''rf_gain must be one of the tuner's steps listed in capabilities.rx.controls[rf_gain].allowed_values'' w)
        else case rtl_set_gain (e_lib e) val (w_rtl w) of
               None \<Rightarrow> None
             | Some (applied, g) \<Rightarrow>
                 let w = upd i (\<lambda>s. s\<lparr>ss_rf_gain_db := applied\<rparr>) (w\<lparr>w_rtl := g\<rparr>);
                     w = send_ok i rid (control_result ''rf_gain'' (fmt_f 1 applied)) w;
                     w = send_context_all w
                 in Some (cp_broadcast_event ''control_changed'' (control_event ''rf_gain'' (fmt_f 1 applied)) w))"

definition set_agc :: "'d env \<Rightarrow> nat \<Rightarrow> string \<Rightarrow> string \<Rightarrow> jsmntok_t \<Rightarrow> 'd world \<Rightarrow> 'd world option" where
  "set_agc e i rid js tok w =
     (if \<not> tok_is_bool js tok then Some (send_error i rid ''invalid_parameter'' ''agc requires true or false'' w)
      else let en = tok_is_true js tok;
               w = on_rtl (\<lambda>g. snd (rtl_set_agc (e_lib e) en g)) w;
               w = send_ok i rid (control_result ''agc'' (bool_text en)) w;
               w = send_context_all w
           in Some (cp_broadcast_event ''control_changed'' (control_event ''agc'' (bool_text en)) w))"

definition set_bias_tee :: "'d env \<Rightarrow> nat \<Rightarrow> string \<Rightarrow> string \<Rightarrow> jsmntok_t \<Rightarrow> string \<Rightarrow> 'd world \<Rightarrow> 'd world option" where
  "set_bias_tee e i rid js tok valstr w =
     (if \<not> number_tok js tok
      then Some (send_error i rid ''invalid_parameter'' ''bias_tee is a float in volts (0.0 or 5.0), not a boolean'' w)
      else let volts = strtod valstr in
        if \<not> deq volts (Fin 0) \<and> \<not> deq volts RTL_BIAS_TEE_VOLTS
        then Some (send_error i rid ''invalid_parameter'' ''bias_tee accepts only the published allowed_values'' w)
        else case rtl_set_bias_tee (e_lib e) volts (w_rtl w) of (r, g) \<Rightarrow>
          let w = w\<lparr>w_rtl := g\<rparr> in
          if r \<noteq> 0 then Some (send_error i rid ''not_supported'' ''bias_tee not supported by this hardware'' w)
          else let v = fmt_f 1 (g_bias_tee_volts g); w = send_ok i rid (control_result ''bias_tee'' v) w
               in Some (cp_broadcast_event ''control_changed'' (control_event ''bias_tee'' v) w))"

definition set_ppm :: "'d env \<Rightarrow> nat \<Rightarrow> string \<Rightarrow> string \<Rightarrow> jsmntok_t \<Rightarrow> string \<Rightarrow> 'd world \<Rightarrow> 'd world option" where
  "set_ppm e i rid js tok valstr w =
     (if \<not> number_tok js tok then Some (send_error i rid ''invalid_parameter'' ''ppm_correction requires an integer'' w)
      else let ppm = to_int32 (strtol valstr) in
        if ppm < - 100 \<or> 100 < ppm
        then Some (send_error i rid ''invalid_parameter'' ''ppm_correction out of range [-100,100]'' w)
        else let w = on_rtl (\<lambda>g. snd (rtl_set_ppm (e_lib e) ppm g)) w;
                 v = fmt_d (g_ppm_correction (w_rtl w));
                 w = send_ok i rid (control_result ''ppm_correction'' v) w
             in Some (cp_broadcast_event ''control_changed'' (control_event ''ppm_correction'' v) w))"

definition ds_mode :: "string \<Rightarrow> jsmntok_t \<Rightarrow> sampling_mode_t option" where
  "ds_mode js tok =
     (if tok_eq js tok ''off'' then Some SAMPLING_NORMAL
      else if tok_eq js tok ''i_branch'' then Some SAMPLING_DIRECT_I
      else if tok_eq js tok ''q_branch'' then Some SAMPLING_DIRECT_Q else None)"

definition set_direct_sampling :: "'d env \<Rightarrow> nat \<Rightarrow> string \<Rightarrow> string \<Rightarrow> jsmntok_t \<Rightarrow> string \<Rightarrow> 'd world \<Rightarrow> 'd world option" where
  \<open>set_direct_sampling e i rid js tok valstr w =
     (if tk_type tok \<noteq> JSMN_STRING
      then Some (send_error i rid ''invalid_parameter'' ''direct_sampling requires a string from the published values'' w)
      else case ds_mode js tok of
        None \<Rightarrow> Some (send_error i rid ''invalid_parameter'' ''direct_sampling must be off, i_branch or q_branch'' w)
      | Some mode \<Rightarrow>
          if mode = g_sampling_mode (w_rtl w)
          then Some (send_ok i rid (control_result ''direct_sampling'' (quote valstr)) w)
          else if ss_stream_open (sess i w)
          then Some (send_error i rid ''stream_reconfiguration_required'' ''Close the stream before changing direct_sampling'' w)
          else case rtl_set_direct_sampling (e_lib e) mode (w_rtl w) of (r, g) \<Rightarrow>
            let w = w\<lparr>w_rtl := g\<rparr> in
            if r \<noteq> 0 then Some (send_error i rid ''device_error'' ''direct_sampling change failed'' w)
            else let w = send_ok i rid (control_result ''direct_sampling'' (quote (ds_name mode))) w;
                     w = cp_broadcast_event ''control_changed'' (control_event ''direct_sampling'' (quote (ds_name mode))) w;
                     w = apply_mode_change_side_effects e w
                 in Some (cp_broadcast_event ''warning''
                      ''{"code":"capabilities_changed","message":"direct_sampling changed; re-read get_capabilities for the current frequency range and sample rates"}'' w))\<close>

definition set_control_value ::
    "'d env \<Rightarrow> nat \<Rightarrow> string \<Rightarrow> string \<Rightarrow> jsmntok_t \<Rightarrow> jsmntok_t \<Rightarrow> 'd world \<Rightarrow> 'd world option" where
  "set_control_value e i rid js nt vt w =
     (let name = tok_str js nt 32; valstr = tok_str js vt 64 in
      if name = ''rf_gain'' then set_rf_gain e i rid js vt valstr w
      else if name = ''agc'' then set_agc e i rid js vt w
      else if name = ''bias_tee'' then set_bias_tee e i rid js vt valstr w
      else if name = ''ppm_correction'' then set_ppm e i rid js vt valstr w
      else if name = ''direct_sampling'' then set_direct_sampling e i rid js vt valstr w
      else Some (send_error i rid ''not_supported'' ''Unknown control name'' w))"

definition cmd_set_control :: "'d env \<Rightarrow> nat \<Rightarrow> string \<Rightarrow> string \<Rightarrow> jsmntok_t list \<Rightarrow> 'd world \<Rightarrow> 'd world option" where
  "cmd_set_control e i rid js t w =
     guarded i rid js t w (\<lambda>p.
       with_key js t p ''name'' (\<lambda>ni. with_key js t p ''value'' (\<lambda>vi.
         case (ni, vi) of
           (Some ni, Some vi) \<Rightarrow> with_tok t ni (\<lambda>nt. with_tok t vi (\<lambda>vt. set_control_value e i rid js nt vt w))
         | _ \<Rightarrow> Some (send_error i rid ''missing_parameter'' ''name and value required'' w))))"

definition get_control_value :: "'d rtl \<Rightarrow> string \<Rightarrow> string option" where
  "get_control_value g name =
     (if name = ''rf_gain'' then Some (fmt_f 1 (rtl_get_gain g))
      else if name = ''agc'' then Some (bool_text (g_agc_enabled g))
      else if name = ''bias_tee'' then Some (fmt_f 1 (g_bias_tee_volts g))
      else if name = ''ppm_correction'' then Some (fmt_d (g_ppm_correction g))
      else if name = ''direct_sampling'' then Some (quote (ds_name (g_sampling_mode g))) else None)"

definition cmd_get_control :: "nat \<Rightarrow> string \<Rightarrow> string \<Rightarrow> jsmntok_t list \<Rightarrow> 'd world \<Rightarrow> 'd world option" where
  \<open>cmd_get_control i rid js t w =
     require_function i rid js t w (\<lambda>p. channel_ok i rid js t p w (
       with_key js t p ''name'' (\<lambda>ni. case ni of
         None \<Rightarrow> Some (send_error i rid ''missing_parameter'' ''name required'' w)
       | Some ni \<Rightarrow> with_tok t ni (\<lambda>nt.
           let name = tok_str js nt 32 in
           case get_control_value (w_rtl w) name of
             None \<Rightarrow> Some (send_error i rid ''not_supported'' ''Unknown control name'' w)
           | Some v \<Rightarrow> Some (send_ok i rid (snprintf 160 (''{"function":"rx","name":"'' @ name @ ''","value":'' @ v @ ''}'')) w)))))\<close>

section \<open>Streams\<close>

text \<open>The failure exits of \<open>cmd_open_stream\<close> after the claim: release the channel, then answer.\<close>

definition open_fail :: "nat \<Rightarrow> string \<Rightarrow> string \<Rightarrow> string \<Rightarrow> 'd world \<Rightarrow> 'd world option" where
  "open_fail i rid code msg w = Some (send_error i rid code msg (cp_rx_release i w))"

text \<open>Whether the requested sample format is unsigned 8 bit, by its label, its two fields or its encoding alone.\<close>

definition tok_is :: "string \<Rightarrow> jsmntok_t list \<Rightarrow> nat \<Rightarrow> string \<Rightarrow> bool option" where
  "tok_is js t j s = with_tok t j (\<lambda>tok. Some (tok_eq js tok s))"

definition format_matched :: "string \<Rightarrow> jsmntok_t list \<Rightarrow> nat option \<Rightarrow> nat option \<Rightarrow> nat option \<Rightarrow> bool option" where
  "format_matched js t lbl enc bits =
     (case (case lbl of None \<Rightarrow> Some False | Some l \<Rightarrow> tok_is js t l ''u8'') of
        None \<Rightarrow> None
      | Some True \<Rightarrow> Some True
      | Some False \<Rightarrow>
          (case (enc, bits) of
             (Some en, Some b) \<Rightarrow>
               (case tok_is js t en ''unsigned'' of Some True \<Rightarrow> tok_is js t b ''8'' | r \<Rightarrow> r)
           | (Some en, None) \<Rightarrow> tok_is js t en ''unsigned''
           | _ \<Rightarrow> Some False))"

definition open_format ::
    "nat \<Rightarrow> string \<Rightarrow> string \<Rightarrow> jsmntok_t list \<Rightarrow> nat \<Rightarrow> 'd world \<Rightarrow> 'd world option \<Rightarrow> 'd world option" where
  "open_format i rid js t vi w k =
     with_key js t vi ''format'' (\<lambda>fmt_i. case fmt_i of
       None \<Rightarrow> k
     | Some f \<Rightarrow> with_tok t f (\<lambda>ft.
         if tk_type ft \<noteq> JSMN_OBJECT then k
         else with_key js t f ''label'' (\<lambda>lbl. with_key js t f ''encoding'' (\<lambda>enc.
           with_key js t f ''bits_per_component'' (\<lambda>bits.
             case format_matched js t lbl enc bits of
               None \<Rightarrow> None
             | Some True \<Rightarrow> k
             | Some False \<Rightarrow> open_fail i rid ''unsupported_format''
                  ''This device streams unsigned 8-bit IQ only; see capabilities.rx.iq_formats'' w)))))"

definition open_result :: "'d env \<Rightarrow> nat \<Rightarrow> string \<Rightarrow> u16 \<Rightarrow> 'd world \<Rightarrow> string" where
  \<open>open_result e i ip_str dest_port w =
     (let s = sess i w; g = w_rtl w;
          src_ip = (case e_local_ip e of Some a \<Rightarrow> inet_ntop a | None \<Rightarrow> ''0.0.0.0'');
          zero_point_field = snprintf 40 (''"zero_point":'' @ fmt_f 2 (w_u8_zero_point w) @ '','')
      in snprintf 1400 (''{"stream_id":"'' @ ss_stream_id s @ ''","function":"rx","sample_rate_sps":'' @ fmt_u (g_rate_sps g)
           @ '',"signal_type":"'' @ sampling_mode_signal_type (g_sampling_mode g)
           @ ''","vita":{"protocol_version":"VITA-A/1.0","source":{"ip":"'' @ src_ip @ ''","port":'' @ fmt_d (w_vita_src_port w)
           @ ''},"destination":{"ip":"'' @ ip_str @ ''","port":'' @ fmt_u dest_port
           @ ''},"samples_per_packet":'' @ fmt_u (g_samples_per_pkt g) @ '',"stream_id":'' @ fmt_u (ss_vita_stream_id s)
           @ '',"packet_class":"if_data","timestamp_mode":"utc_picoseconds","format":{"encoding":"unsigned",''
           @ ''"bits_per_component":8,"container_bits":8,"packing":"interleaved","byte_order":"big_endian",''
           @ zero_point_field @ ''"native":true,"supported":true,"label":"u8"}}}''))\<close>

text \<open>The successful end of \<open>cmd_open_stream\<close>.\<close>

definition open_accept :: "'d env \<Rightarrow> nat \<Rightarrow> string \<Rightarrow> string \<Rightarrow> u32 \<Rightarrow> u16 \<Rightarrow> 'd world \<Rightarrow> 'd world" where
  \<open>open_accept e i rid ip_str dest_addr dest_port w =
     (case alloc_stream_id w of ((sid, vid), w) \<Rightarrow>
      let w = upd i (\<lambda>s. s\<lparr>ss_stream_id := sid, ss_vita_stream_id := vid, ss_dest_ip := dest_addr,
                   ss_dest_port := dest_port, ss_iq_fmt := IQ_FMT_U8, ss_stream_open := True,
                   ss_state := SESSION_STREAM_OPEN\<rparr>) w;
          w = send_ok i rid (open_result e i ip_str dest_port w) w
      in cp_broadcast_event_except i ''control_revoked'' ''{"function":"rx","control_state":"owned_by_other"}'' w)\<close>

definition open_destination :: "'d env \<Rightarrow> nat \<Rightarrow> string \<Rightarrow> string \<Rightarrow> jsmntok_t list \<Rightarrow> nat \<Rightarrow> 'd world \<Rightarrow> 'd world option" where
  "open_destination e i rid js t vi w =
     with_key js t vi ''destination'' (\<lambda>d. case d of
       None \<Rightarrow> open_fail i rid ''missing_parameter'' ''vita.destination required'' w
     | Some d \<Rightarrow> with_tok t d (\<lambda>dt.
         if tk_type dt \<noteq> JSMN_OBJECT then open_fail i rid ''missing_parameter'' ''vita.destination required'' w
         else with_key js t d ''ip'' (\<lambda>ip_i. with_key js t d ''port'' (\<lambda>port_i.
           case (ip_i, port_i) of
             (Some ip_i, Some port_i) \<Rightarrow> with_tok t ip_i (\<lambda>it. with_tok t port_i (\<lambda>pt.
               let ip_str = tok_str js it 16; port_str = tok_str js pt 8 in
               case inet_pton ip_str of
                 None \<Rightarrow> open_fail i rid ''invalid_parameter'' ''vita.destination.ip invalid'' w
               | Some dest_addr \<Rightarrow>
                   let dp = fst (strtoull port_str) in
                   if dp = 0 \<or> 65535 < dp
                   then open_fail i rid ''invalid_parameter'' ''vita.destination.port invalid'' w
                   else Some (open_accept e i rid ip_str dest_addr (ucast dp) w)))
           | _ \<Rightarrow> open_fail i rid ''missing_parameter'' ''vita.destination.ip and .port required'' w))))"

definition open_transport :: "'d env \<Rightarrow> nat \<Rightarrow> string \<Rightarrow> string \<Rightarrow> jsmntok_t list \<Rightarrow> nat \<Rightarrow> 'd world \<Rightarrow> 'd world option" where
  "open_transport e i rid js t p w =
     with_key js t p ''vita'' (\<lambda>v.
       let missing = with_key js t p ''destination'' (\<lambda>d.
             open_fail i rid ''missing_parameter''
               (if d \<noteq> None then ''Transport parameters belong inside a vita object since Release 1.2; see SDR-SLC-CP-1.0 14.2''
                else ''vita transport object required'') w)
       in case v of
         None \<Rightarrow> missing
       | Some vi \<Rightarrow> with_tok t vi (\<lambda>vt.
           if tk_type vt \<noteq> JSMN_OBJECT then missing
           else with_key js t vi ''protocol_version'' (\<lambda>pv.
             let rest = open_format i rid js t vi w (open_destination e i rid js t vi w) in
             case pv of
               None \<Rightarrow> rest
             | Some pv \<Rightarrow> with_tok t pv (\<lambda>tok.
                 if tok_eq js tok ''VITA-A/1.0'' then rest
                 else open_fail i rid ''unsupported_stream_protocol''
                        ''capabilities.rx.transports advertises VITA-A/1.0 only'' w))))"

definition cmd_open_stream :: "'d env \<Rightarrow> nat \<Rightarrow> string \<Rightarrow> string \<Rightarrow> jsmntok_t list \<Rightarrow> 'd world \<Rightarrow> 'd world option" where
  "cmd_open_stream e i rid js t w =
     require_function i rid js t w (\<lambda>p. channel_ok i rid js t p w (
       if ss_stream_open (sess i w)
       then Some (send_error i rid ''stream_already_open'' ''This session already holds an rx stream; call close_stream first'' w)
       else case cp_rx_claim i w of (ok, w) \<Rightarrow>
         if \<not> ok then Some (send_error i rid ''in_use'' ''The rx channel is held by another client'' w)
         else with_key js t p ''protocol'' (\<lambda>pr. case pr of
           None \<Rightarrow> open_fail i rid ''missing_parameter'' ''protocol required'' w
         | Some pr \<Rightarrow> with_tok t pr (\<lambda>tok.
             if \<not> tok_eq js tok ''vita49''
             then open_fail i rid ''unsupported_stream_protocol'' ''Only vita49 is present in capabilities.rx.transports'' w
             else open_transport e i rid js t p w))))"

text \<open>
  The common start of the three stream-handle commands: find \<open>stream_id\<close> and compare it with the session's own.
\<close>

definition with_stream ::
    "nat \<Rightarrow> string \<Rightarrow> string \<Rightarrow> jsmntok_t list \<Rightarrow> 'd world \<Rightarrow> 'd world option \<Rightarrow> 'd world option" where
  "with_stream i rid js t w k =
     find_params js t (\<lambda>p. with_param_key js t p ''stream_id'' (\<lambda>si. case si of
       None \<Rightarrow> Some (send_error i rid ''missing_parameter'' ''stream_id required'' w)
     | Some si \<Rightarrow> with_tok t si (\<lambda>tok.
         if \<not> ss_stream_open (sess i w) \<or> tok_str js tok 32 \<noteq> ss_stream_id (sess i w)
         then Some (send_error i rid ''stream_not_found'' ''stream_id not found'' w)
         else k)))"

definition stream_event :: "string \<Rightarrow> bool \<Rightarrow> string \<Rightarrow> string" where
  \<open>stream_event sid streaming reason =
     snprintf 192 (''{"stream_id":"'' @ sid @ ''","streaming":'' @ bool_text streaming
       @ '',"function":"rx","reason":"'' @ reason @ ''"}'')\<close>

definition streaming_result :: "bool \<Rightarrow> string" where
  \<open>streaming_result b = ''{"function":"rx","streaming":'' @ bool_text b @ ''}''\<close>

definition start_rx_do :: "'d env \<Rightarrow> nat \<Rightarrow> string \<Rightarrow> 'd world \<Rightarrow> 'd world" where
  "start_rx_do e i rid w =
     (if ss_state (sess i w) = SESSION_STREAMING then send_ok i rid (streaming_result True) w
      else let s = sess i w; g = w_rtl w in
        case vita_session_add (g_gain_tenth_db g) (e_time e) (g_rate_sps g) (ss_stream_id s) (ss_vita_stream_id s)
               (ss_dest_ip s) (ss_dest_port s) (ss_iq_fmt s) (sampling_mode_payload_fmt (g_sampling_mode g)) (w_vita w) of
          (tok, v, ds) \<Rightarrow>
        let w = upd i (\<lambda>s. s\<lparr>ss_vita_token := tok\<rparr>) (w\<lparr>w_vita := v, w_udp := w_udp w @ ds\<rparr>) in
        if tok < 0 then send_error i rid ''busy'' ''No free stream slot; retry shortly'' w
        else case rtl_bridge_start (e_lib e) (e_thread_ok e) (w_rtl w) of (r, g) \<Rightarrow>
          let w = w\<lparr>w_rtl := g\<rparr> in
          if r < 0
          then send_error i rid ''device_error'' ''Failed to start RTL async read''
                 (upd i (\<lambda>s. s\<lparr>ss_vita_token := - 1\<rparr>) (w\<lparr>w_vita := vita_session_remove tok (w_vita w)\<rparr>))
          else let w = upd i (\<lambda>s. s\<lparr>ss_state := SESSION_STREAMING\<rparr>) w;
                   w = send_ok i rid (streaming_result True) w
               in send_event i ''stream_state'' (stream_event (ss_stream_id (sess i w)) True ''client_request'') w)"

definition cmd_start_rx :: "'d env \<Rightarrow> nat \<Rightarrow> string \<Rightarrow> string \<Rightarrow> jsmntok_t list \<Rightarrow> 'd world \<Rightarrow> 'd world option" where
  "cmd_start_rx e i rid js t w = with_stream i rid js t w (Some (start_rx_do e i rid w))"

text \<open>Dropping the session's VITA slot, and stopping the reader.\<close>

definition drop_vita :: "nat \<Rightarrow> 'd world \<Rightarrow> 'd world" where
  "drop_vita i w =
     (if 0 \<le> ss_vita_token (sess i w)
      then upd i (\<lambda>s. s\<lparr>ss_vita_token := - 1\<rparr>) (w\<lparr>w_vita := vita_session_remove (ss_vita_token (sess i w)) (w_vita w)\<rparr>)
      else w)"

definition stop_reader :: "'d env \<Rightarrow> 'd world \<Rightarrow> 'd world" where
  "stop_reader e w = on_rtl (\<lambda>g. rtl_reset_adc_level (rtl_bridge_stop (e_lib e) g)) w"

definition stop_rx_do :: "'d env \<Rightarrow> nat \<Rightarrow> string \<Rightarrow> 'd world \<Rightarrow> 'd world" where
  "stop_rx_do e i rid w =
     (if ss_state (sess i w) \<noteq> SESSION_STREAMING then send_ok i rid (streaming_result False) w
      else let w = stop_reader e (drop_vita i w);
               w = upd i (\<lambda>s. s\<lparr>ss_state := SESSION_STREAM_OPEN\<rparr>) w;
               w = send_ok i rid (streaming_result False) w
           in send_event i ''stream_state'' (stream_event (ss_stream_id (sess i w)) False ''client_request'') w)"

definition cmd_stop_rx :: "'d env \<Rightarrow> nat \<Rightarrow> string \<Rightarrow> string \<Rightarrow> jsmntok_t list \<Rightarrow> 'd world \<Rightarrow> 'd world option" where
  "cmd_stop_rx e i rid js t w = with_stream i rid js t w (Some (stop_rx_do e i rid w))"

definition close_stream_do :: "'d env \<Rightarrow> nat \<Rightarrow> string \<Rightarrow> 'd world \<Rightarrow> 'd world" where
  \<open>close_stream_do e i rid w =
     (let w = drop_vita i w;
          was_streaming = (ss_state (sess i w) = SESSION_STREAMING);
          w = (if was_streaming then stop_reader e w else w);
          closed_id = snprintf 32 (ss_stream_id (sess i w));
          w = upd i (\<lambda>s. s\<lparr>ss_stream_open := False, ss_state := SESSION_IDLE, ss_stream_id := []\<rparr>) w;
          w = cp_rx_release i w;
          w = send_ok i rid ''{"closed":true}'' w
      in if was_streaming then send_event i ''stream_state'' (stream_event closed_id False ''client_request'') w else w)\<close>

definition cmd_close_stream :: "'d env \<Rightarrow> nat \<Rightarrow> string \<Rightarrow> string \<Rightarrow> jsmntok_t list \<Rightarrow> 'd world \<Rightarrow> 'd world option" where
  "cmd_close_stream e i rid js t w = with_stream i rid js t w (Some (close_stream_do e i rid w))"

section \<open>Escaping\<close>

lemma is_hex_hex_char: "n < 16 \<Longrightarrow> is_hex (hex_char n)"
  by (auto simp: is_hex_def hex_char_def Let_def)

lemma show_hex_safe: "json_safe (CHR 0x5C # CHR ''u'' # show_hex 4 n @ s) \<longleftrightarrow> json_safe s"
proof -
  have len: "length (show_hex 4 n) = 4" by simp
  have "list_all is_hex (show_hex k n)" for k n
    by (induction k n rule: show_hex.induct) (simp_all add: is_hex_hex_char)
  moreover have "take 4 (show_hex 4 n @ s) = show_hex 4 n" "drop 4 (show_hex 4 n @ s) = s" using len by auto
  ultimately show ?thesis by (simp del: show_hex.simps)
qed

lemma json_esc_safe: "json_safe (json_esc c @ s) \<longleftrightarrow> json_safe s"
  using show_hex_safe [of "of_char c" s]
  by (auto simp: json_esc_def simple_escape_def simp del: show_hex.simps)

lemma escape_upto_safe: "json_safe (escape_upto cap s)"
  by (induction cap s rule: escape_upto.induct) (auto simp: Let_def json_esc_safe simp del: json_safe.simps(2))

lemma json_esc_length: "length (json_esc c) \<le> 6"
  by (simp add: json_esc_def)

lemma escape_upto_length: "0 < cap \<Longrightarrow> length (escape_upto cap s) < cap"
  by (induction cap s rule: escape_upto.induct) (auto simp: Let_def)

text \<open>With room for every escape the whole string is written; in general a prefix of its escapes.\<close>

lemma escape_upto_all: "6 * length s < cap \<Longrightarrow> escape_upto cap s = concat (map json_esc s)"
proof (induction s arbitrary: cap)
  case (Cons c s)
  have "length (json_esc c) \<le> 6" by (rule json_esc_length)
  with Cons show ?case by (simp add: Let_def)
qed simp

lemma escape_upto_prefix: "\<exists>k. escape_upto cap s = concat (map json_esc (take k s))"
proof (induction cap s rule: escape_upto.induct)
  case (2 cap c s)
  show ?case
  proof (cases "cap \<le> length (json_esc c)")
    case True
    then show ?thesis by (intro exI [of _ 0]) simp
  next
    case False
    with 2 obtain k where "escape_upto (cap - length (json_esc c)) s = concat (map json_esc (take k s))" by auto
    with False show ?thesis by (intro exI [of _ "Suc k"]) (simp add: Let_def)
  qed
qed simp

text \<open>The error response never reaches the end of its buffer, whatever the client chose as its id.\<close>

lemma error_json_fits:
  assumes "length code \<le> 64"
  shows \<open>error_json rid code msg = ''{"type":"response","id":"'' @ json_escape rid 288
       @ ''","status":"error","error":{"code":"'' @ code @ ''","message":"'' @ json_escape msg 512 @ ''"}}''\<close>
proof -
  have "length (json_escape rid 288) < 288" "length (json_escape msg 512) < 512"
    by (simp_all add: json_escape_def escape_upto_length)
  then show ?thesis using assms unfolding error_json_def by (intro snprintf_fits) simp
qed

section \<open>Proof rules for the guards\<close>

text \<open>
  \<open>pred_option P\<close> says of a handler that every state it ends in satisfies \<open>P\<close>. The rules below take a guard
  apart into its error exits and its continuation.
\<close>

named_theorems vcg

declare send_ok_def [simp] send_error_def [simp] send_event_def [simp]

lemma post_key [vcg]: "(\<And>r. pred_option P (k r)) \<Longrightarrow> pred_option P (with_key js t ob key k)"
  by (simp add: with_key_def split: option.splits)

lemma post_tok [vcg]: "(\<And>r. pred_option P (k r)) \<Longrightarrow> pred_option P (with_tok t j k)"
  by (simp add: with_tok_def split: option.splits)

lemma post_params [vcg]: "(\<And>r. pred_option P (k r)) \<Longrightarrow> pred_option P (find_params js t k)"
  unfolding find_params_def by (rule post_key)

lemma post_param_key [vcg]: "(\<And>r. pred_option P (k r)) \<Longrightarrow> pred_option P (with_param_key js t p key k)"
  by (simp add: with_param_key_def post_key split: option.splits)

lemma post_option_case [vcg]:
  "pred_option P a \<Longrightarrow> (\<And>x. r = Some x \<Longrightarrow> pred_option P (b x)) \<Longrightarrow> pred_option P (case r of None \<Rightarrow> a | Some x \<Rightarrow> b x)"
  by (cases r) auto

lemma post_if [vcg]:
  "(c \<Longrightarrow> pred_option P a) \<Longrightarrow> (\<not> c \<Longrightarrow> pred_option P b) \<Longrightarrow> pred_option P (if c then a else b)"
  by simp

lemma post_function [vcg]:
  "(\<And>c m. P (send_error i rid c m w)) \<Longrightarrow> (\<And>p. pred_option P (k p)) \<Longrightarrow> pred_option P (require_function i rid js t w k)"
  unfolding require_function_def by (intro vcg) (auto simp: pred_option_def)

lemma post_channel [vcg]:
  "(\<And>c m. P (send_error i rid c m w)) \<Longrightarrow> pred_option P k \<Longrightarrow> pred_option P (channel_ok i rid js t p w k)"
  unfolding channel_ok_def by (intro vcg) (auto simp: pred_option_def)

lemma post_configure [vcg]:
  "(\<And>c m. P (send_error i rid c m w)) \<Longrightarrow> (\<not> cp_rx_owned_by_other i w \<Longrightarrow> pred_option P k) \<Longrightarrow>
     pred_option P (may_configure i rid w k)"
  unfolding may_configure_def by (intro vcg) (auto simp: pred_option_def)

lemma post_guarded [vcg]:
  "(\<And>c m. P (send_error i rid c m w)) \<Longrightarrow> (\<And>p. \<not> cp_rx_owned_by_other i w \<Longrightarrow> pred_option P (k p)) \<Longrightarrow>
     pred_option P (guarded i rid js t w k)"
  unfolding guarded_def by (intro vcg) auto

lemma post_stream [vcg]:
  "(\<And>c m. P (send_error i rid c m w)) \<Longrightarrow> (ss_stream_open (sess i w) \<Longrightarrow> pred_option P k) \<Longrightarrow>
     pred_option P (with_stream i rid js t w k)"
  unfolding with_stream_def by (intro vcg) (auto simp: pred_option_def)

end
