(* ===== verification/Cp_Session.thy ===== *)
theory Cp_Session
  imports Cp_Commands
begin

text \<open>
  The session life cycle of \<open>cp/cp_session.c\<close>: the dispatch table, the handling of one message with its
  hello-first rule and authentication gate, the end of a session and the loop of a session thread over the
  bytes a client sends. The USB callback of \<open>rtl_bridge.c\<close>, which feeds both the overload event and the
  sender, is composed here as well.
\<close>

section \<open>One message\<close>

definition dispatch :: "'d env \<Rightarrow> nat \<Rightarrow> string \<Rightarrow> string \<Rightarrow> string \<Rightarrow> jsmntok_t list \<Rightarrow> 'd world \<Rightarrow> 'd world option" where
  "dispatch e i cmd rid js t w =
     (if cmd = ''hello'' then cmd_hello e i rid js t w
      else if cmd = ''authenticate'' then cmd_authenticate e i rid js t w
      else if cmd = ''get_capabilities'' then cmd_get_capabilities e i rid w
      else if cmd = ''set_frequency'' then cmd_set_frequency e i rid js t w
      else if cmd = ''set_sample_rate'' then cmd_set_sample_rate e i rid js t w
      else if cmd = ''set_control'' then cmd_set_control e i rid js t w
      else if cmd = ''open_stream'' then cmd_open_stream e i rid js t w
      else if cmd = ''start_rx'' then cmd_start_rx e i rid js t w
      else if cmd = ''stop_rx'' then cmd_stop_rx e i rid js t w
      else if cmd = ''close_stream'' then cmd_close_stream e i rid js t w
      else if cmd = ''ping'' then cmd_ping i rid w
      else if cmd = ''get_status'' then cmd_get_status e i rid w
      else if cmd = ''get_control'' then cmd_get_control i rid js t w
      else if cmd = ''get_clock_status'' then cmd_get_clock_status e i rid w
      else Some (send_error i rid ''unknown_command'' ''Unrecognised command'' w))"

text \<open>The gate and the dispatch, once id and command are extracted.\<close>

definition serve :: "'d env \<Rightarrow> nat \<Rightarrow> string \<Rightarrow> string \<Rightarrow> string \<Rightarrow> jsmntok_t list \<Rightarrow> 'd world \<Rightarrow> 'd world option" where
  "serve e i cmd rid js t w =
     (if ss_state (sess i w) = SESSION_AWAIT_HELLO \<and> cmd \<noteq> ''hello''
      then Some (send_error i rid ''invalid_request'' ''hello must be the first command'' w)
      else case (if cp_rx_requires_auth w \<and> \<not> ss_rx_unlocked (sess i w) then cmd_addresses_rx cmd js t else Some False) of
        None \<Rightarrow> None
      | Some True \<Rightarrow>
          Some (send_error i rid ''unauthorized''
            (if kr_keys (w_keys w) = []
             then ''the rx function requires authentication and this device has no pre-shared key configured, so rx is locked (SDR-SLC-CP-1.0 26.3). On the device, run: sudo sdr-slc-rtld keygen''
             else ''the rx function requires authentication (psk-hmac-sha256); send authenticate with the nonce from hello before addressing rx'') w)
      | Some False \<Rightarrow> dispatch e i cmd rid js t w)"

text \<open>
  The body of the loop in \<open>cp_session_thread\<close> for one message; the command names a \<open>break\<close> by the flag
  \<open>close_after_reply\<close>, which the loop reads afterwards.
\<close>

definition handle_message :: "'d env \<Rightarrow> nat \<Rightarrow> string \<Rightarrow> 'd world \<Rightarrow> 'd world option" where
  "handle_message e i js w =
     (let bad = send_error i ''?'' ''invalid_request'' ''Malformed JSON envelope'' w in
      case jsmn_parse MAX_JSON_TOKENS js of
        Inl _ \<Rightarrow> Some bad
      | Inr t \<Rightarrow>
          if t = [] \<or> tk_type (hd t) \<noteq> JSMN_OBJECT then Some bad
          else with_key js t 0 ''type'' (\<lambda>ti. with_key js t 0 ''id'' (\<lambda>ii. with_key js t 0 ''command'' (\<lambda>ci.
            case (ti, ii, ci) of
              (Some ti, Some ii, Some ci) \<Rightarrow>
                with_tok t ti (\<lambda>tt.
                  if \<not> tok_eq js tt ''request'' then Some w
                  else with_tok t ii (\<lambda>it. with_tok t ci (\<lambda>ct.
                    serve e i (tok_str js ct 64) (tok_str js it 128) js t w)))
            | _ \<Rightarrow> Some (send_error i ''?'' ''invalid_request'' ''Missing type/id/command'' w)))))"

section \<open>The end of a session\<close>

definition session_destroy :: "'d env \<Rightarrow> nat \<Rightarrow> 'd world \<Rightarrow> 'd world" where
  "session_destroy e i w =
     (let w = drop_vita i w;
          w = (if ss_state (sess i w) = SESSION_STREAMING
               then cp_broadcast_event_except i ''stream_state''
                      (stream_event (ss_stream_id (sess i w)) False ''control_lost'') (stop_reader e w)
               else w);
          w = cp_rx_release i w;
          w = (if g_bias_tee_enabled (w_rtl w) \<and> \<not> g_bias_tee_persist (w_rtl w)
               then on_rtl (\<lambda>g. snd (rtl_set_bias_tee (e_lib e) (Fin 0) g)) w else w)
      in upd i (\<lambda>_. session_zero) w)"

section \<open>The thread of a session\<close>

lemma read_frame_shrinks: "read_frame input = Message m rest \<Longrightarrow> length rest < length input"
  by (auto simp: read_frame_def recv_exact_def Let_def unat_gt_0 split: if_splits option.splits)

text \<open>
  \<open>cp_session_thread\<close> over everything a client sends until it disconnects: \<open>env k\<close> is what the system answers
  during message \<open>k\<close>, the last one serving the teardown.
\<close>

function cp_session_thread :: "(nat \<Rightarrow> 'd env) \<Rightarrow> nat \<Rightarrow> nat \<Rightarrow> u8 list \<Rightarrow> 'd world \<Rightarrow> 'd world option" where
  "cp_session_thread env k i input w =
     (case read_frame input of
        Message js rest \<Rightarrow>
          (case handle_message (env k) i js w of
             None \<Rightarrow> None
           | Some w \<Rightarrow>
               if ss_close_after_reply (sess i w) then Some (session_destroy (env (Suc k)) i w)
               else cp_session_thread env (Suc k) i rest w)
      | _ \<Rightarrow> Some (session_destroy (env k) i w))"
  by pat_completeness auto
termination
  by (relation "measure (\<lambda>(env, k, i, input, w). length input)") (auto dest: read_frame_shrinks)

declare cp_session_thread.simps [simp del]

section \<open>The USB callback\<close>

definition rtl_callback :: "libm \<Rightarrow> u64 \<Rightarrow> u8 list \<Rightarrow> 'd world \<Rightarrow> 'd world" where
  "rtl_callback m now_ms buf w =
     (if \<not> s_running (w_rtl w) then w
      else let g = w_rtl w;
               g = g\<lparr>s_cb_count := s_cb_count g + 1, g_samples_per_pkt := of_nat VITA_SAMPLES_PER_PKT\<rparr>;
               (g, ev) = measure_adc_level m now_ms buf g;
               w = w\<lparr>w_rtl := g\<rparr>;
               w = (case ev of None \<Rightarrow> w | Some level \<Rightarrow> cp_on_adc_overload level w)
           in on_vita (vita_send_callback buf) w)"

end
