(* ===== verification/Cp_Invariant.thy ===== *)
theory Cp_Invariant
  imports Cp_Session
begin

text \<open>
  The invariant of the control plane, kept by every message, by the USB callback and by the creation and the
  end of a session: the channel has at most one holder, who is exactly the session with an open stream; a
  streaming session has a live VITA slot and a running reader; and while authentication is required, the
  holder has authenticated.
\<close>

section \<open>The invariant\<close>

definition slot_ok :: "'d world \<Rightarrow> nat \<Rightarrow> Session \<Rightarrow> bool" where
  "slot_ok w i s \<longleftrightarrow>
     (ss_stream_open s \<longleftrightarrow> w_rx_owner w = Some i) \<and> (ss_owns_rx s \<longleftrightarrow> w_rx_owner w = Some i)
     \<and> (ss_state s \<in> {SESSION_STREAM_OPEN, SESSION_STREAMING} \<longrightarrow> ss_stream_open s)
     \<and> (ss_state s = SESSION_STREAMING \<longrightarrow> 0 \<le> ss_vita_token s \<and> s_running (w_rtl w))
     \<and> (ss_fd s \<noteq> 0 \<and> 0 \<le> ss_vita_token s \<longrightarrow>
          ss_stream_open s \<and> ss_vita_token s < int MAX_VITA_SESSIONS
          \<and> vs_active (vt_sessions (w_vita w) ! nat (ss_vita_token s)))
     \<and> (ss_fd s = 0 \<longrightarrow> s = session_zero)
     \<and> (w_rx_auth w \<and> ss_stream_open s \<longrightarrow> ss_rx_unlocked s)"

definition cp_inv :: "'d world \<Rightarrow> bool" where
  "cp_inv w \<longleftrightarrow>
     length (w_sessions w) = MAX_SESSIONS \<and> length (vt_sessions (w_vita w)) = MAX_VITA_SESSIONS
     \<and> reader_inv (w_rtl w) \<and> (\<forall>i. w_rx_owner w = Some i \<longrightarrow> i < MAX_SESSIONS)
     \<and> (\<forall>i < MAX_SESSIONS. slot_ok w i (sess i w))"

lemma cp_invD:
  assumes "cp_inv w"
  shows "length (w_sessions w) = MAX_SESSIONS" and "length (vt_sessions (w_vita w)) = MAX_VITA_SESSIONS"
    and "reader_inv (w_rtl w)" and "i < MAX_SESSIONS \<Longrightarrow> slot_ok w i (sess i w)"
    and "w_rx_owner w = Some j \<Longrightarrow> j < MAX_SESSIONS"
  using assms by (simp_all add: cp_inv_def)

text \<open>The invariant reads neither the outputs nor the caches.\<close>

lemma slot_ok_cong:
  "w_rx_owner w' = w_rx_owner w \<Longrightarrow> s_running (w_rtl w') = s_running (w_rtl w) \<Longrightarrow> w_rx_auth w' = w_rx_auth w \<Longrightarrow>
   (\<And>k. k < MAX_VITA_SESSIONS \<Longrightarrow> vs_active (vt_sessions (w_vita w') ! k) = vs_active (vt_sessions (w_vita w) ! k)) \<Longrightarrow>
     slot_ok w' i s = slot_ok w i s"
  by (auto simp: slot_ok_def nat_less_iff)

lemma cp_inv_output [simp]:
  "cp_inv (w\<lparr>w_out := out\<rparr>) = cp_inv w" "cp_inv (w\<lparr>w_udp := u\<rparr>) = cp_inv w" "cp_inv (w\<lparr>w_gains := gs\<rparr>) = cp_inv w"
  "cp_inv (w\<lparr>w_gain_default := gd\<rparr>) = cp_inv w" "cp_inv (w\<lparr>w_stream_counter := n\<rparr>) = cp_inv w"
  by (simp_all add: cp_inv_def slot_ok_def)

lemma cp_inv_framed [simp]: "cp_inv (send_framed i s w) = cp_inv w" "cp_inv (broadcast k ev p w) = cp_inv w"
  by (simp_all add: cp_inv_def slot_ok_def)

lemma cp_inv_upd:
  assumes "cp_inv w" and "i < MAX_SESSIONS" and "slot_ok w i (f (sess i w))"
  shows "cp_inv (upd i f w)"
proof -
  have "slot_ok (upd i f w) j s = slot_ok w j s" for j s by (rule slot_ok_cong) simp_all
  with assms show ?thesis by (auto simp: cp_inv_def sess_upd)
qed

text \<open>Hardware settings that leave the reader alone, and sender operations that keep the slots' activity.\<close>

lemma cp_inv_rtl:
  "cp_inv w \<Longrightarrow> s_running g = s_running (w_rtl w) \<Longrightarrow> s_stream_count g = s_stream_count (w_rtl w) \<Longrightarrow>
     cp_inv (w\<lparr>w_rtl := g\<rparr>)"
  using slot_ok_cong [of "w\<lparr>w_rtl := g\<rparr>" w] by (simp add: cp_inv_def reader_inv_def)

definition same_slots :: "vita \<Rightarrow> vita \<Rightarrow> bool" where
  "same_slots v v' \<longleftrightarrow> length (vt_sessions v') = length (vt_sessions v)
     \<and> (\<forall>k < length (vt_sessions v). vs_active (vt_sessions v' ! k) = vs_active (vt_sessions v ! k))"

lemma cp_inv_vita: "cp_inv w \<Longrightarrow> same_slots (w_vita w) v \<Longrightarrow> cp_inv (w\<lparr>w_vita := v\<rparr>)"
  by (auto simp: cp_inv_def slot_ok_def same_slots_def nat_less_iff)

lemma cp_inv_on_vita: "cp_inv w \<Longrightarrow> (\<And>v ds. f (w_vita w) = (v, ds) \<Longrightarrow> same_slots (w_vita w) v) \<Longrightarrow> cp_inv (on_vita f w)"
  by (cases "f (w_vita w)") (simp add: on_vita_def cp_inv_vita)

lemma context_entry_activity [simp, frame]: "vs_active (fst (context_entry k en g s)) = vs_active s"
  by (simp add: context_entry_def Let_def)

lemma callback_entry_activity [simp, frame]: "vs_active (fst (callback_entry buf s)) = vs_active s"
  by (cases "vs_active s") (simp_all add: callback_entry_session, simp add: callback_entry_def)

lemma context_all_same:
  assumes "length (vt_sessions v) = MAX_VITA_SESSIONS" and "vita_send_context_all gain v = (v', ds)"
  shows "same_slots v v'"
  using assms
  by (cases "vt_sock v") (auto simp: vita_send_context_all_eq same_slots_def, auto simp: vita_send_context_all_def same_slots_def)

lemma callback_same: "vita_send_callback buf v = (v', ds) \<Longrightarrow> same_slots v v'"
  by (auto simp: vita_send_callback_def same_slots_def Let_def split: if_splits)

lemma update_format_same: "same_slots v (vita_update_payload_format pf v)"
  by (simp add: vita_update_payload_format_def same_slots_def)

lemma cp_inv_context_all: "cp_inv w \<Longrightarrow> cp_inv (send_context_all w)"
  unfolding send_context_all_def by (rule cp_inv_on_vita) (auto intro: context_all_same dest: cp_invD)

section \<open>Hardware settings keep the reader\<close>

definition same_reader :: "'d rtl \<Rightarrow> 'd rtl \<Rightarrow> bool" where
  "same_reader g g' \<longleftrightarrow> s_running g' = s_running g \<and> s_stream_count g' = s_stream_count g"

lemma settings_same_reader:
  "same_reader g (snd (rtl_set_frequency lib f g))" "same_reader g (snd (rtl_set_sample_rate lib r g))"
  "same_reader g (snd (rtl_set_agc lib en g))" "same_reader g (snd (rtl_set_bias_tee lib v g))"
  "same_reader g (snd (rtl_set_ppm lib p g))" "same_reader g (snd (rtl_set_direct_sampling lib m g))"
  "rtl_set_gain lib x g = Some (a, g') \<Longrightarrow> same_reader g g'" "same_reader g (fst (measure_adc_level lm t buf g))"
  by (auto simp: same_reader_def rtl_set_frequency_def rtl_set_sample_rate_def rtl_set_agc_def rtl_set_bias_tee_def
      rtl_set_ppm_def rtl_set_direct_sampling_def rtl_set_gain_def measure_adc_level_def Let_def dev_call_def
      case_prod_unfold split: option.splits if_splits)

lemma cp_inv_same_reader: "cp_inv w \<Longrightarrow> same_reader (w_rtl w) g \<Longrightarrow> cp_inv (w\<lparr>w_rtl := g\<rparr>)"
  by (simp add: cp_inv_rtl same_reader_def)

lemma cp_inv_setting: "cp_inv w \<Longrightarrow> f (w_rtl w) = (x, g) \<Longrightarrow> same_reader (w_rtl w) (snd (f (w_rtl w))) \<Longrightarrow> cp_inv (w\<lparr>w_rtl := g\<rparr>)"
  by (simp add: cp_inv_same_reader)

section \<open>Handlers without streams\<close>

definition live :: "nat \<Rightarrow> 'd world \<Rightarrow> bool" where
  "live i w \<longleftrightarrow> i < MAX_SESSIONS \<and> 0 < ss_fd (sess i w)"

lemma live_frame [simp]:
  "live i (send_framed j s w) = live i w" "live i (broadcast k ev p w) = live i w" "live i (w\<lparr>w_rtl := g\<rparr>) = live i w"
  "live i (w\<lparr>w_vita := v\<rparr>) = live i w" "live i (w\<lparr>w_out := out\<rparr>) = live i w" "live i (w\<lparr>w_udp := u\<rparr>) = live i w"
  "live i (w\<lparr>w_gains := gs\<rparr>) = live i w" "live i (w\<lparr>w_gain_default := gd\<rparr>) = live i w"
  by (simp_all add: live_def)

lemma live_upd: "cp_inv w \<Longrightarrow> live i w \<Longrightarrow> ss_fd (f (sess i w)) = ss_fd (sess i w) \<Longrightarrow> live i (upd i f w)"
  by (simp add: live_def sess_upd cp_invD(1))

text \<open>Updates of the fields the invariant does not read.\<close>

definition neutral :: "(Session \<Rightarrow> Session) \<Rightarrow> bool" where
  "neutral f \<longleftrightarrow> (\<forall>s. ss_fd (f s) = ss_fd s \<and> ss_state (f s) = ss_state s \<and> ss_owns_rx (f s) = ss_owns_rx s
     \<and> ss_stream_open (f s) = ss_stream_open s \<and> ss_vita_token (f s) = ss_vita_token s
     \<and> (ss_rx_unlocked s \<longrightarrow> ss_rx_unlocked (f s)))"

lemma neutral_intros [simp]:
  "neutral (\<lambda>s. s\<lparr>ss_nonce_valid := b, ss_nonce_hex := h\<rparr>)" "neutral (\<lambda>s. s\<lparr>ss_nonce_valid := b\<rparr>)"
  "neutral (\<lambda>s. s\<lparr>ss_nonce := n, ss_nonce_hex := h, ss_nonce_valid := b\<rparr>)"
  "neutral (\<lambda>s. s\<lparr>ss_auth_failures := ss_auth_failures s + 1\<rparr>)" "neutral (\<lambda>s. s\<lparr>ss_close_after_reply := b\<rparr>)"
  "neutral (\<lambda>s. s\<lparr>ss_auth_window_ns := t, ss_auth_failures := 0\<rparr>)"
  "neutral (\<lambda>s. s\<lparr>ss_rx_unlocked := True, ss_nonce_valid := b\<rparr>)"
  "neutral (\<lambda>s. s\<lparr>ss_frequency_hz := f\<rparr>)" "neutral (\<lambda>s. s\<lparr>ss_sample_rate_sps := r\<rparr>)" "neutral (\<lambda>s. s\<lparr>ss_rf_gain_db := x\<rparr>)"
  by (simp_all add: neutral_def)

lemma neutral_inv: "neutral f \<Longrightarrow> cp_inv w \<Longrightarrow> live i w \<Longrightarrow> cp_inv (upd i f w) \<and> live i (upd i f w)"
  using cp_invD(4) [of w i]
  by (intro conjI cp_inv_upd live_upd) (auto simp: neutral_def live_def slot_ok_def)

lemma neutral_inv' [simp]: "neutral f \<Longrightarrow> cp_inv w \<Longrightarrow> live i w \<Longrightarrow> cp_inv (upd i f w)"
  "neutral f \<Longrightarrow> cp_inv w \<Longrightarrow> live i w \<Longrightarrow> live i (upd i f w)"
  using neutral_inv by blast+

lemma hello_accept_inv: "cp_inv w \<Longrightarrow> live i w \<Longrightarrow> cp_inv (hello_accept e i rid name w)"
proof -
  assume inv: "cp_inv w" and live: "live i w"
  let ?f = "\<lambda>s. s\<lparr>ss_client_name := name, ss_state := SESSION_IDLE\<rparr>"
  have "cp_inv (upd i ?f w)"
    using inv live cp_invD(4) [OF inv, of i] by (intro cp_inv_upd) (auto simp: live_def slot_ok_def)
  moreover have "live i (upd i ?f w)" using inv live by (intro live_upd) simp_all
  ultimately have "cp_inv (upd i ?f w)" "live i (upd i ?f w)" by simp_all
  then have "cp_inv (issue_nonce e i (upd i ?f w))"
    by (simp add: issue_nonce_def split: option.splits prod.splits)
  with \<open>cp_inv (upd i ?f w)\<close> show ?thesis by (simp add: hello_accept_def Let_def)
qed

lemma auth_refuse_inv: "cp_inv w \<Longrightarrow> live i w \<Longrightarrow> cp_inv (auth_refuse e i rid w)"
  by (simp add: auth_refuse_def Let_def split: option.splits prod.splits)

lemma auth_decide_inv: "cp_inv w \<Longrightarrow> live i w \<Longrightarrow> cp_inv (auth_decide e i rid method kid resp w)"
  by (simp add: auth_decide_def Let_def auth_refuse_inv)

lemma load_gain_table_inv [simp]: "cp_inv (load_gain_table e w) = cp_inv w" "live i (load_gain_table e w) = live i w"
  "w_rtl (load_gain_table e w) = w_rtl w"
  by (simp_all add: load_gain_table_def split: option.splits list.splits)

lemma set_frequency_inv: "cp_inv w \<Longrightarrow> live i w \<Longrightarrow> cp_inv (set_frequency_value e i rid s w)"
  using settings_same_reader(1) [of "w_rtl w" "e_lib e"]
  by (auto simp: set_frequency_value_def Let_def case_prod_unfold cp_inv_same_reader)

lemma set_sample_rate_inv: "cp_inv w \<Longrightarrow> live i w \<Longrightarrow> cp_inv (set_sample_rate_value e i rid s w)"
  using settings_same_reader(2) [of "w_rtl w" "e_lib e"]
  by (auto simp: set_sample_rate_value_def Let_def case_prod_unfold cp_inv_same_reader)

lemma clamp_frequency_inv: "cp_inv w \<Longrightarrow> cp_inv (clamp_frequency e w)"
  using settings_same_reader(1) [of "w_rtl w" "e_lib e"]
  by (auto simp: clamp_frequency_def Let_def case_prod_unfold cp_inv_same_reader)

lemma clamp_rate_inv: "cp_inv w \<Longrightarrow> cp_inv (clamp_rate e w)"
  using settings_same_reader(2) [of "w_rtl w" "e_lib e"]
  by (auto simp: clamp_rate_def Let_def case_prod_unfold cp_inv_same_reader)

lemma mode_change_inv: "cp_inv w \<Longrightarrow> cp_inv (apply_mode_change_side_effects e w)"
  by (simp add: apply_mode_change_side_effects_def Let_def cp_inv_context_all cp_inv_vita update_format_same
      clamp_rate_inv clamp_frequency_inv)

lemma set_rf_gain_inv: "cp_inv w \<Longrightarrow> live i w \<Longrightarrow> pred_option cp_inv (set_rf_gain e i rid js tok s w)"
  using settings_same_reader(7) [of "e_lib e" _ "w_rtl w"]
  by (auto simp: set_rf_gain_def Let_def cp_inv_same_reader cp_inv_context_all split: option.splits)

lemma set_agc_inv: "cp_inv w \<Longrightarrow> pred_option cp_inv (set_agc e i rid js tok w)"
  using settings_same_reader(3) [of "w_rtl w" "e_lib e"]
  by (auto simp: set_agc_def Let_def on_rtl_def cp_inv_same_reader cp_inv_context_all)

lemma set_bias_tee_inv: "cp_inv w \<Longrightarrow> pred_option cp_inv (set_bias_tee e i rid js tok s w)"
  using settings_same_reader(4) [of "w_rtl w" "e_lib e"]
  by (auto simp: set_bias_tee_def Let_def case_prod_unfold cp_inv_same_reader)

lemma set_ppm_inv: "cp_inv w \<Longrightarrow> pred_option cp_inv (set_ppm e i rid js tok s w)"
  using settings_same_reader(5) [of "w_rtl w" "e_lib e"]
  by (auto simp: set_ppm_def Let_def on_rtl_def cp_inv_same_reader)

lemma set_direct_sampling_inv: "cp_inv w \<Longrightarrow> pred_option cp_inv (set_direct_sampling e i rid js tok s w)"
  using settings_same_reader(6) [of "w_rtl w" "e_lib e"]
  by (auto simp: set_direct_sampling_def Let_def case_prod_unfold cp_inv_same_reader mode_change_inv split: option.splits)

lemma set_control_value_inv: "cp_inv w \<Longrightarrow> live i w \<Longrightarrow> pred_option cp_inv (set_control_value e i rid js nt vt w)"
  by (simp add: set_control_value_def Let_def set_rf_gain_inv set_agc_inv set_bias_tee_inv set_ppm_inv
      set_direct_sampling_inv)

section \<open>Stream handlers\<close>

text \<open>A session that neither held nor holds the channel is judged without looking at the hardware.\<close>

lemma slot_ok_other: "w_rx_owner w \<noteq> Some j \<Longrightarrow> w_rx_owner w' \<noteq> Some j \<Longrightarrow> slot_ok w j s \<Longrightarrow> slot_ok w' j s"
  by (auto simp: slot_ok_def)

lemma cp_inv_owner_step:
  assumes inv: "cp_inv w" and i: "i < MAX_SESSIONS"
    and own: "w_rx_owner w \<in> {None, Some i}" "w_rx_owner w' \<in> {None, Some i}"
    and len: "length (w_sessions w') = MAX_SESSIONS" "length (vt_sessions (w_vita w')) = MAX_VITA_SESSIONS"
    and rd: "reader_inv (w_rtl w')" and others: "\<And>j. j \<noteq> i \<Longrightarrow> sess j w' = sess j w" and slot: "slot_ok w' i (sess i w')"
  shows "cp_inv w'"
proof -
  have "slot_ok w' j (sess j w')" if j: "j < MAX_SESSIONS" for j
  proof (cases "j = i")
    case False
    then show ?thesis
      using slot_ok_other [of w j w' "sess j w"] own cp_invD(4) [OF inv j] others [OF False] by auto
  qed (use slot in simp)
  then show ?thesis using i own(2) len rd by (auto simp: cp_inv_def)
qed

lemma owner_of_open: "cp_inv w \<Longrightarrow> i < MAX_SESSIONS \<Longrightarrow> ss_stream_open (sess i w) \<longleftrightarrow> w_rx_owner w = Some i"
  using cp_invD(4) [of w i] by (simp add: slot_ok_def)

definition claimed :: "nat \<Rightarrow> 'd world \<Rightarrow> 'd world" where
  "claimed i w = upd i (\<lambda>s. s\<lparr>ss_owns_rx := True\<rparr>) (w\<lparr>w_rx_owner := Some i\<rparr>)"

lemma cp_rx_claim_cases:
  assumes "cp_inv w" and "live i w" and "\<not> ss_stream_open (sess i w)" and "cp_rx_claim i w = (ok, w')"
  shows "if ok then w_rx_owner w = None \<and> w' = claimed i w else w' = w"
  using assms owner_of_open [of w i] by (auto simp: cp_rx_claim_def claimed_def live_def split: if_splits)

lemma release_claimed:
  assumes "cp_inv w" and "i < MAX_SESSIONS" and "w_rx_owner w = None"
  shows "\<exists>ev p. cp_rx_release i (claimed i w) = broadcast (Some i) ev p w"
proof -
  have "\<not> ss_owns_rx (w_sessions w ! i)" "i < length (w_sessions w)"
    using cp_invD(4) [OF assms(1,2)] cp_invD(1) [OF assms(1)] assms(2,3) by (auto simp: slot_ok_def sess_def)
  then have "(w_sessions w)[i := (w_sessions w ! i)\<lparr>ss_owns_rx := False\<rparr>] = w_sessions w"
    by (intro list_update_same_conv [THEN iffD2]) auto
  then have "upd i (\<lambda>s. s\<lparr>ss_owns_rx := False\<rparr>) (claimed i w\<lparr>w_rx_owner := None\<rparr>) = w"
    using assms(3) \<open>i < length (w_sessions w)\<close> by (cases w) (simp add: upd_def claimed_def)
  then show ?thesis by (auto simp: cp_rx_release_def Let_def claimed_def upd_def)
qed

lemma open_fail_inv:
  "cp_inv w \<Longrightarrow> i < MAX_SESSIONS \<Longrightarrow> w_rx_owner w = None \<Longrightarrow> pred_option cp_inv (open_fail i rid c m (claimed i w))"
  using release_claimed [of w i] by (auto simp: open_fail_def)

lemma open_accept_inv:
  assumes inv: "cp_inv w" and live: "live i w" and own: "w_rx_owner w = None"
    and auth: "w_rx_auth w \<longrightarrow> ss_rx_unlocked (sess i w)"
  shows "cp_inv (open_accept e i rid ip addr port (claimed i w))"
proof -
  have i: "i < MAX_SESSIONS" "0 < ss_fd (sess i w)" using live by (auto simp: live_def)
  have len: "i < length (w_sessions w)" using cp_invD(1) [OF inv] i by simp
  have tok: "\<not> 0 \<le> ss_vita_token (sess i w)"
    using cp_invD(4) [OF inv i(1)] i(2) own by (auto simp: slot_ok_def)
  define w1 where "w1 = (snd (alloc_stream_id (claimed i w)))"
  define f :: "Session \<Rightarrow> Session" where "f = (\<lambda>s. s\<lparr>ss_stream_id := fst (fst (alloc_stream_id (claimed i w))),
     ss_vita_stream_id := snd (fst (alloc_stream_id (claimed i w))), ss_dest_ip := addr,
     ss_dest_port := port, ss_iq_fmt := IQ_FMT_U8, ss_stream_open := True, ss_state := SESSION_STREAM_OPEN\<rparr>)"
  have w1: "w_rtl w1 = w_rtl w" "w_vita w1 = w_vita w" "w_rx_owner w1 = Some i" "w_rx_auth w1 = w_rx_auth w"
    "w_sessions w1 = (w_sessions w)[i := (sess i w)\<lparr>ss_owns_rx := True\<rparr>]"
    by (simp_all add: w1_def alloc_stream_id_def claimed_def upd_def sess_def Let_def)
  have "cp_inv (upd i f w1)"
    using len tok i own auth cp_invD [OF inv]
    by (intro cp_inv_owner_step [OF inv i(1)]) (auto simp: w1 upd_def f_def sess_def slot_ok_def)
  then show ?thesis
    by (simp add: open_accept_def case_prod_unfold Let_def w1_def [symmetric] f_def [symmetric])
qed

lemma open_stream_body_inv:
  assumes inv: "cp_inv w" and live: "live i w" and own: "w_rx_owner w = None"
    and auth: "w_rx_auth w \<longrightarrow> ss_rx_unlocked (sess i w)"
  shows "pred_option cp_inv (open_transport e i rid js t p (claimed i w))"
proof -
  have fail: "pred_option cp_inv (open_fail i rid c m (claimed i w))" for c m
    using live by (intro open_fail_inv inv own) (simp add: live_def)
  have "pred_option cp_inv (open_destination e i rid js t vi (claimed i w))" for vi
    unfolding open_destination_def
    by (intro vcg) (auto simp: fail Let_def open_accept_inv [OF assms] intro!: vcg split: option.splits)
  then have "pred_option cp_inv (open_format i rid js t vi (claimed i w) (open_destination e i rid js t vi (claimed i w)))" for vi
    unfolding open_format_def by (intro vcg) (auto simp: fail split: bool.splits)
  then show ?thesis
    unfolding open_transport_def Let_def by (intro vcg) (auto simp: fail)
qed

lemma cmd_open_stream_inv:
  assumes "cp_inv w" and "live i w" and "w_rx_auth w \<longrightarrow> ss_rx_unlocked (sess i w)"
  shows "pred_option cp_inv (cmd_open_stream e i rid js t w)"
proof -
  obtain ok w' where cl: "cp_rx_claim i w = (ok, w')" by (cases "cp_rx_claim i w")
  have fail: "w_rx_owner w = None \<Longrightarrow> pred_option cp_inv (open_fail i rid c m (claimed i w))" for c m
    using assms(2) by (intro open_fail_inv assms(1)) (simp_all add: live_def)
  show ?thesis
  proof (cases "ss_stream_open (sess i w)")
    case True
    then show ?thesis unfolding cmd_open_stream_def using assms(1) by (intro vcg) simp_all
  next
    case False
    note c = cp_rx_claim_cases [OF assms(1,2) False cl]
    show ?thesis
      unfolding cmd_open_stream_def cl prod.case
      using False c assms(1) by (intro vcg) (auto simp: fail split: if_splits intro: open_stream_body_inv [OF assms(1,2) _ assms(3)])
  qed
qed

lemma vita_remove_length [simp]: "length (vt_sessions (vita_session_remove tok v)) = length (vt_sessions v)"
  by (simp add: vita_session_remove_def)

lemma start_rx_inv:
  assumes inv: "cp_inv w" and live: "live i w" and op: "ss_stream_open (sess i w)"
  shows "cp_inv (start_rx_do e i rid w)"
proof (cases "ss_state (sess i w) = SESSION_STREAMING")
  case True
  then show ?thesis using inv by (simp add: start_rx_do_def)
next
  case False
  have i: "i < MAX_SESSIONS" "i < length (w_sessions w)" "0 < ss_fd (sess i w)"
    using live cp_invD(1) [OF inv] by (auto simp: live_def)
  note d = cp_invD [OF inv]
  have own: "w_rx_owner w = Some i" using owner_of_open [OF inv i(1)] op by simp
  have s0: "slot_ok w i (sess i w)" by (rule d(4) [OF i(1)])
  let ?s = "sess i w" and ?g = "w_rtl w"
  obtain tok v ds where add: "vita_session_add (g_gain_tenth_db ?g) (e_time e) (g_rate_sps ?g) (ss_stream_id ?s)
      (ss_vita_stream_id ?s) (ss_dest_ip ?s) (ss_dest_port ?s) (ss_iq_fmt ?s)
      (sampling_mode_payload_fmt (g_sampling_mode ?g)) (w_vita w) = (tok, v, ds)"
    using prod_cases3 by blast
  define w1 where "w1 = upd i (\<lambda>s. s\<lparr>ss_vita_token := tok\<rparr>) (w\<lparr>w_vita := v, w_udp := w_udp w @ ds\<rparr>)"
  have w1: "w_rtl w1 = w_rtl w" "w_vita w1 = v" "w_rx_owner w1 = Some i" "w_rx_auth w1 = w_rx_auth w"
    "sess i w1 = ?s\<lparr>ss_vita_token := tok\<rparr>" "\<And>j. j \<noteq> i \<Longrightarrow> sess j w1 = sess j w" "length (w_sessions w1) = MAX_SESSIONS"
    using i(2) own d(1) by (simp_all add: w1_def sess_upd)
  show ?thesis
  proof (cases "tok < 0")
    case True
    then have "v = w_vita w" using add by (auto simp: vita_session_add_def split: option.splits prod.splits if_splits)
    then have "cp_inv w1"
      using s0 True own d w1 False i by (intro cp_inv_owner_step [OF inv i(1)]) (auto simp: slot_ok_def)
    then show ?thesis using False True add by (simp add: start_rx_do_def Let_def w1_def)
  next
    case pos: False
    with vita_session_add_ok [OF add] obtain k where k: "tok = int k" "k < length (vt_sessions (w_vita w))"
      "vs_active (vt_sessions v ! k)" "length (vt_sessions v) = length (vt_sessions (w_vita w))"
      by (metis linorder_not_le)
    obtain r g where st: "rtl_bridge_start (e_lib e) (e_thread_ok e) ?g = (r, g)" by (cases "rtl_bridge_start (e_lib e) (e_thread_ok e) ?g")
    have g: "reader_inv g" using start_reader_inv [OF d(3), of "e_lib e" "e_thread_ok e"] st by simp
    have rc: "r < 0 \<longleftrightarrow> s_stream_count ?g = 0 \<and> \<not> e_thread_ok e" using start_result [of "e_lib e" "e_thread_ok e" ?g] st by auto
    show ?thesis
    proof (cases "r < 0")
      case True
      define w2 where "w2 = upd i (\<lambda>s. s\<lparr>ss_vita_token := - 1\<rparr>) (w1\<lparr>w_rtl := g, w_vita := vita_session_remove tok v\<rparr>)"
      have "cp_inv w2"
        using s0 own d w1 False g k(4) i
        by (intro cp_inv_owner_step [OF inv i(1)]) (auto simp: w2_def slot_ok_def sess_upd)
      moreover have "start_rx_do e i rid w = send_error i rid ''device_error'' ''Failed to start RTL async read'' w2"
        using False pos True add st by (simp add: start_rx_do_def Let_def w1_def [symmetric] w1(1,2) w2_def)
      ultimately show ?thesis by simp
    next
      case ok: False
      define w2 where "w2 = upd i (\<lambda>s. s\<lparr>ss_state := SESSION_STREAMING\<rparr>) (w1\<lparr>w_rtl := g\<rparr>)"
      have "0 < s_stream_count g"
        using start_count [of "e_lib e" "e_thread_ok e" ?g] st ok rc d(3) by (auto simp: reader_inv_def split: if_splits)
      then have "s_running g" using g by (simp add: reader_inv_def)
      then have "cp_inv w2"
        using s0 own d w1 False g k i op
        by (intro cp_inv_owner_step [OF inv i(1)]) (auto simp: w2_def slot_ok_def sess_upd)
      moreover have "\<exists>f ev. start_rx_do e i rid w = send_framed i ev (send_framed i f w2)"
        using False pos ok add st by (simp add: start_rx_do_def Let_def w1_def [symmetric] w1(1,2) w2_def) blast
      ultimately show ?thesis by auto
    qed
  qed
qed

lemma drop_vita_frame [simp]:
  "w_rx_owner (drop_vita i w) = w_rx_owner w" "w_rx_auth (drop_vita i w) = w_rx_auth w"
  "w_rtl (drop_vita i w) = w_rtl w" "length (w_sessions (drop_vita i w)) = length (w_sessions w)"
  "length (vt_sessions (w_vita (drop_vita i w))) = length (vt_sessions (w_vita w))"
  "j \<noteq> i \<Longrightarrow> sess j (drop_vita i w) = sess j w" "w_out (drop_vita i w) = w_out w"
  by (simp_all add: drop_vita_def)

lemma drop_vita_sess: "i < length (w_sessions w) \<Longrightarrow>
   sess i (drop_vita i w) = (if 0 \<le> ss_vita_token (sess i w) then (sess i w)\<lparr>ss_vita_token := - 1\<rparr> else sess i w)"
  by (simp add: drop_vita_def sess_upd)

lemma stop_reader_frame [simp]:
  "w_rx_owner (stop_reader e w) = w_rx_owner w" "w_rx_auth (stop_reader e w) = w_rx_auth w"
  "w_vita (stop_reader e w) = w_vita w" "w_sessions (stop_reader e w) = w_sessions w" "sess j (stop_reader e w) = sess j w"
  "w_out (stop_reader e w) = w_out w"
  by (simp_all add: stop_reader_def on_rtl_def sess_def)

lemma stop_reader_world_inv [simp]: "reader_inv (w_rtl w) \<Longrightarrow> reader_inv (w_rtl (stop_reader e w))"
  using stop_reader_inv [of "w_rtl w" "e_lib e"] by (simp add: stop_reader_def on_rtl_def reader_inv_def)

lemma stop_rx_inv:
  assumes inv: "cp_inv w" and live: "live i w" and op: "ss_stream_open (sess i w)"
  shows "cp_inv (stop_rx_do e i rid w)"
proof (cases "ss_state (sess i w) = SESSION_STREAMING")
  case True
  have i: "i < MAX_SESSIONS" "i < length (w_sessions w)" "0 < ss_fd (sess i w)"
    using live cp_invD(1) [OF inv] by (auto simp: live_def)
  define w1 where "w1 = upd i (\<lambda>s. s\<lparr>ss_state := SESSION_STREAM_OPEN\<rparr>) (stop_reader e (drop_vita i w))"
  have "cp_inv w1"
    using cp_invD [OF inv] cp_invD(4) [OF inv i(1)] owner_of_open [OF inv i(1)] i op
    by (intro cp_inv_owner_step [OF inv i(1)]) (auto simp: w1_def slot_ok_def sess_upd drop_vita_sess)
  then show ?thesis using True by (simp add: stop_rx_do_def Let_def w1_def)
qed (use inv in \<open>simp add: stop_rx_do_def\<close>)

lemma release_frame [simp]:
  "w_rtl (cp_rx_release i w) = w_rtl w" "w_vita (cp_rx_release i w) = w_vita w" "w_rx_auth (cp_rx_release i w) = w_rx_auth w"
  "length (w_sessions (cp_rx_release i w)) = length (w_sessions w)" "j \<noteq> i \<Longrightarrow> sess j (cp_rx_release i w) = sess j w"
  "w_rx_owner (cp_rx_release i w) = (if w_rx_owner w = Some i then None else w_rx_owner w)"
  "w_udp (cp_rx_release i w) = w_udp w"
  by (simp_all add: cp_rx_release_def Let_def)

lemma release_sess: "i < length (w_sessions w) \<Longrightarrow> sess i (cp_rx_release i w) = (sess i w)\<lparr>ss_owns_rx := False\<rparr>"
  by (simp add: cp_rx_release_def Let_def sess_upd)

lemma close_stream_inv:
  assumes inv: "cp_inv w" and live: "live i w" and op: "ss_stream_open (sess i w)"
  shows "cp_inv (close_stream_do e i rid w)"
proof -
  have i: "i < MAX_SESSIONS" "i < length (w_sessions w)" "0 < ss_fd (sess i w)"
    using live cp_invD(1) [OF inv] by (auto simp: live_def)
  define w1 where "w1 = (if ss_state (sess i (drop_vita i w)) = SESSION_STREAMING then stop_reader e (drop_vita i w) else drop_vita i w)"
  define w2 where "w2 = cp_rx_release i (upd i (\<lambda>s. s\<lparr>ss_stream_open := False, ss_state := SESSION_IDLE, ss_stream_id := []\<rparr>) w1)"
  have w1: "w_rx_owner w1 = Some i" "length (w_sessions w1) = MAX_SESSIONS" "length (vt_sessions (w_vita w1)) = MAX_VITA_SESSIONS"
    "reader_inv (w_rtl w1)" "\<And>j. j \<noteq> i \<Longrightarrow> sess j w1 = sess j w" "sess i w1 = sess i (drop_vita i w)"
    using cp_invD [OF inv] owner_of_open [OF inv i(1)] op by (auto simp: w1_def)
  have "cp_inv w2"
    using w1 cp_invD [OF inv] cp_invD(4) [OF inv i(1)] owner_of_open [OF inv i(1)] i op
    by (intro cp_inv_owner_step [OF inv i(1)]) (auto simp: w2_def slot_ok_def sess_upd drop_vita_sess release_sess)
  then show ?thesis by (simp add: close_stream_do_def Let_def w1_def w2_def split: if_splits)
qed

section \<open>Dispatch and messages\<close>

text \<open>
  The gate: a command that does not address rx for the gate cannot get past \<open>require_function\<close>; so a locked
  session never reaches the body of a configuration command.
\<close>

definition gated :: "string set" where
  "gated = {''set_frequency'', ''set_sample_rate'', ''set_control'', ''open_stream''}"

definition names_rx :: "string \<Rightarrow> jsmntok_t list \<Rightarrow> bool option" where
  "names_rx js t =
     find_params js t (\<lambda>p. case p of
             None \<Rightarrow> Some False
           | Some p \<Rightarrow> with_key js t p ''function'' (\<lambda>f. case f of
               None \<Rightarrow> Some False
             | Some f \<Rightarrow> with_tok t f (\<lambda>tok. Some (tok_eq js tok ''rx''))))"

lemma addresses_gated: "cmd \<in> gated \<Longrightarrow> cmd_addresses_rx cmd js t = names_rx js t"
  by (auto simp: gated_def cmd_addresses_rx_def names_rx_def)

lemma gate_blocks:
  assumes "names_rx js t = Some False"
  shows "require_function i rid js t w k = None \<or> (\<exists>c m. require_function i rid js t w k = Some (send_error i rid c m w))"
proof (cases "tok_find_key js t 0 ''params''")
  case None
  then show ?thesis by (simp add: require_function_def find_params_def with_key_def)
next
  case (Some po)
  show ?thesis
  proof (cases po)
    case None
    with Some show ?thesis by (simp add: require_function_def find_params_def with_key_def del: send_error_def) blast
  next
    case pp: (Some p)
    show ?thesis
    proof (cases "tok_find_key js t p ''function''")
      case None
      with Some pp show ?thesis by (simp add: require_function_def find_params_def with_key_def)
    next
      case ff: (Some fo)
      with Some pp assms show ?thesis
        by (cases fo)
          (simp_all add: require_function_def names_rx_def find_params_def with_key_def with_tok_def del: send_error_def
            split: option.splits, blast+)
    qed
  qed
qed

lemma gate_streams: "cmd \<in> {''start_rx'', ''stop_rx'', ''close_stream''} \<Longrightarrow> cmd_addresses_rx cmd js t = Some True"
  by (simp add: cmd_addresses_rx_def)

lemma cmd_hello_inv: "cp_inv w \<Longrightarrow> live i w \<Longrightarrow> pred_option cp_inv (cmd_hello e i rid js t w)"
  unfolding cmd_hello_def Let_def
  by (intro vcg) (auto simp: hello_accept_inv intro!: vcg split: option.splits prod.splits)

lemma cmd_authenticate_inv: "cp_inv w \<Longrightarrow> live i w \<Longrightarrow> pred_option cp_inv (cmd_authenticate e i rid js t w)"
  unfolding cmd_authenticate_def
  by (intro vcg) (auto simp: auth_decide_inv intro!: vcg split: option.splits)

lemma cmd_get_control_inv: "cp_inv w \<Longrightarrow> pred_option cp_inv (cmd_get_control i rid js t w)"
  unfolding cmd_get_control_def Let_def by (intro vcg) auto

lemma cmd_configure_inv:
  assumes "cp_inv w" and "live i w"
  shows "pred_option cp_inv (cmd_set_frequency e i rid js t w)" "pred_option cp_inv (cmd_set_sample_rate e i rid js t w)"
    "pred_option cp_inv (cmd_set_control e i rid js t w)"
  unfolding cmd_set_frequency_def cmd_set_sample_rate_def cmd_set_control_def
  using assms
  by (intro vcg; auto simp: set_frequency_inv set_sample_rate_inv set_control_value_inv intro!: vcg split: option.splits)+

lemma cmd_stream_inv:
  assumes "cp_inv w" and "live i w"
  shows "pred_option cp_inv (cmd_start_rx e i rid js t w)" "pred_option cp_inv (cmd_stop_rx e i rid js t w)"
    "pred_option cp_inv (cmd_close_stream e i rid js t w)"
  unfolding cmd_start_rx_def cmd_stop_rx_def cmd_close_stream_def
  using assms by (intro vcg; simp add: start_rx_inv stop_rx_inv close_stream_inv)+

lemma dispatch_inv:
  assumes "cp_inv w" and "live i w" and "cmd = ''open_stream'' \<Longrightarrow> pred_option cp_inv (cmd_open_stream e i rid js t w)"
  shows "pred_option cp_inv (dispatch e i cmd rid js t w)"
  unfolding dispatch_def
  using assms
  by (intro post_if cmd_hello_inv cmd_authenticate_inv cmd_configure_inv cmd_stream_inv cmd_get_control_inv)
    (simp_all add: cmd_get_capabilities_def cmd_ping_def cmd_get_status_def cmd_get_clock_status_def Let_def)

lemma locked_require:
  "names_rx js t = Some False \<Longrightarrow> (\<And>c m. P (send_error i rid c m w)) \<Longrightarrow> pred_option P (require_function i rid js t w k)"
  using gate_blocks [of js t i rid w k] by (auto simp del: send_error_def)

lemma serve_inv:
  assumes "cp_inv w" and "live i w"
  shows "pred_option cp_inv (serve e i cmd rid js t w)"
proof (cases "w_rx_auth w \<and> \<not> ss_rx_unlocked (sess i w)")
  case True
  have "pred_option cp_inv (cmd_open_stream e i rid js t w)"
    if "cmd = ''open_stream''" "cmd_addresses_rx cmd js t = Some False"
    unfolding cmd_open_stream_def
    using that assms(1) by (intro locked_require) (simp_all add: addresses_gated gated_def)
  then have "cmd_addresses_rx cmd js t = Some False \<Longrightarrow> pred_option cp_inv (dispatch e i cmd rid js t w)"
    by (intro dispatch_inv assms)
  with True assms(1) show ?thesis
    by (simp add: serve_def cp_rx_requires_auth_def split: option.split bool.split)
next
  case False
  then have "pred_option cp_inv (cmd_open_stream e i rid js t w)" using assms by (intro cmd_open_stream_inv) auto
  then have "pred_option cp_inv (dispatch e i cmd rid js t w)" by (intro dispatch_inv assms)
  with False assms(1) show ?thesis by (auto simp: serve_def cp_rx_requires_auth_def)
qed

lemma handle_message_inv: "cp_inv w \<Longrightarrow> live i w \<Longrightarrow> pred_option cp_inv (handle_message e i js w)"
  unfolding handle_message_def Let_def
  by (auto intro!: vcg serve_inv split: sum.splits option.splits)

section \<open>Life cycle\<close>

lemma session_create_inv:
  assumes "cp_inv w" and "0 < fd" and "session_create fd ip w = (r, w')"
  shows "cp_inv w'" and "r = Some i \<Longrightarrow> live i w' \<and> ss_state (sess i w') = SESSION_AWAIT_HELLO \<and> \<not> ss_rx_unlocked (sess i w')"
proof -
  have "cp_inv w' \<and> (r = Some i \<longrightarrow> live i w' \<and> ss_state (sess i w') = SESSION_AWAIT_HELLO \<and> \<not> ss_rx_unlocked (sess i w'))"
  proof (cases "find_slot (\<lambda>s. ss_fd s = 0) (w_sessions w)")
    case None
    then show ?thesis using assms by (simp add: session_create_def)
  next
    case (Some k)
    note fs = find_slot_Some [OF Some] and d = cp_invD [OF assms(1)]
    have k: "k < MAX_SESSIONS" "ss_fd (sess k w) = 0" using fs d(1) by (simp_all add: sess_def)
    then have z: "sess k w = session_zero" using d(4) by (simp add: slot_ok_def)
    then have "w_rx_owner w \<noteq> Some k" using d(4) [OF k(1)] by (simp add: slot_ok_def session_zero_def)
    then have "cp_inv w'"
      using assms Some k by (auto simp: session_create_def slot_ok_def session_zero_def intro!: cp_inv_upd)
    moreover have "r = Some k" using assms Some by (simp add: session_create_def)
    ultimately show ?thesis
      using assms Some k fs by (auto simp: session_create_def live_def sess_upd session_zero_def)
  qed
  then show "cp_inv w'" and "r = Some i \<Longrightarrow> live i w' \<and> ss_state (sess i w') = SESSION_AWAIT_HELLO \<and> \<not> ss_rx_unlocked (sess i w')"
    by simp_all
qed

lemma bias_off_frame:
  "same_reader g (if c then snd (rtl_set_bias_tee lib v g) else g)"
  using settings_same_reader(4) [of g lib v] by (simp add: same_reader_def)

text \<open>The stages of \<open>session_destroy\<close>.\<close>

definition destroy_stop :: "'d env \<Rightarrow> nat \<Rightarrow> 'd world \<Rightarrow> 'd world" where
  "destroy_stop e i w =
     (if ss_state (sess i w) = SESSION_STREAMING
      then cp_broadcast_event_except i ''stream_state''
             (stream_event (ss_stream_id (sess i w)) False ''control_lost'') (stop_reader e w)
      else w)"

definition destroy_bias :: "'d env \<Rightarrow> 'd world \<Rightarrow> 'd world" where
  "destroy_bias e w =
     (if g_bias_tee_enabled (w_rtl w) \<and> \<not> g_bias_tee_persist (w_rtl w)
      then on_rtl (\<lambda>g. snd (rtl_set_bias_tee (e_lib e) (Fin 0) g)) w else w)"

lemma session_destroy_stages:
  "session_destroy e i w = upd i (\<lambda>_. session_zero) (destroy_bias e (cp_rx_release i (destroy_stop e i (drop_vita i w))))"
  by (simp add: session_destroy_def destroy_stop_def destroy_bias_def Let_def)

lemma destroy_stop_frame [simp]:
  "w_rx_owner (destroy_stop e i w) = w_rx_owner w" "w_rx_auth (destroy_stop e i w) = w_rx_auth w"
  "w_vita (destroy_stop e i w) = w_vita w" "w_sessions (destroy_stop e i w) = w_sessions w"
  "sess j (destroy_stop e i w) = sess j w" "reader_inv (w_rtl w) \<Longrightarrow> reader_inv (w_rtl (destroy_stop e i w))"
  "w_udp (destroy_stop e i w) = w_udp w"
  by (simp_all add: destroy_stop_def, simp add: stop_reader_def on_rtl_def)

lemma destroy_bias_frame [simp]:
  "w_rx_owner (destroy_bias e w) = w_rx_owner w" "w_rx_auth (destroy_bias e w) = w_rx_auth w"
  "w_vita (destroy_bias e w) = w_vita w" "w_sessions (destroy_bias e w) = w_sessions w" "sess j (destroy_bias e w) = sess j w"
  "same_reader (w_rtl w) (w_rtl (destroy_bias e w))" "w_udp (destroy_bias e w) = w_udp w"
  using settings_same_reader(4) [of "w_rtl w" "e_lib e" "Fin 0"]
  by (simp_all add: destroy_bias_def on_rtl_def same_reader_def)

lemma same_reader_inv: "same_reader g g' \<Longrightarrow> reader_inv g \<Longrightarrow> reader_inv g'"
  by (simp add: same_reader_def reader_inv_def)

lemma session_destroy_inv:
  assumes inv: "cp_inv w" and live: "live i w"
  shows "cp_inv (session_destroy e i w)"
proof -
  note d = cp_invD [OF inv]
  have i: "i < MAX_SESSIONS" "i < length (w_sessions w)" "0 < ss_fd (sess i w)" using live d(1) by (auto simp: live_def)
  have si: "slot_ok w i (sess i w)" by (rule d(4) [OF i(1)])
  show ?thesis
  proof (cases "w_rx_owner w \<in> {None, Some i}")
    case True
    let ?w3 = "cp_rx_release i (destroy_stop e i (drop_vita i w))"
    have "reader_inv (w_rtl (destroy_bias e ?w3))"
      by (rule same_reader_inv [OF destroy_bias_frame(6)]) (simp add: d(3))
    then show ?thesis
      unfolding session_destroy_stages
      using True d i by (intro cp_inv_owner_step [OF inv i(1)]) (auto simp: slot_ok_def session_zero_def sess_upd)
  next
    case False
    then have ns: "ss_state (sess i w) \<noteq> SESSION_STREAMING" "\<not> 0 \<le> ss_vita_token (sess i w)"
      using si i(3) by (auto simp: slot_ok_def)
    then have "drop_vita i w = w" "destroy_stop e i w = w" by (simp_all add: drop_vita_def destroy_stop_def)
    moreover have "cp_inv (cp_rx_release i w)"
      using False si i(1) inv i(3) by (auto simp: cp_rx_release_def Let_def slot_ok_def intro!: cp_inv_upd)
    then have "cp_inv (destroy_bias e (cp_rx_release i w))"
      using settings_same_reader(4) [of "w_rtl w" "e_lib e" "Fin 0"]
      by (simp add: destroy_bias_def on_rtl_def cp_inv_same_reader)
    then have "cp_inv (upd i (\<lambda>_. session_zero) (destroy_bias e (cp_rx_release i w)))"
      using False i(1) by (intro cp_inv_upd) (auto simp: slot_ok_def session_zero_def)
    ultimately show ?thesis by (simp add: session_destroy_stages)
  qed
qed

lemma rtl_callback_inv: "cp_inv w \<Longrightarrow> cp_inv (rtl_callback m t buf w)"
proof -
  assume inv: "cp_inv w"
  let ?g = "(w_rtl w)\<lparr>s_cb_count := s_cb_count (w_rtl w) + 1, g_samples_per_pkt := of_nat VITA_SAMPLES_PER_PKT\<rparr>"
  obtain g ev where me: "measure_adc_level m t buf ?g = (g, ev)" by (cases "measure_adc_level m t buf ?g")
  have "same_reader ?g g" using settings_same_reader(8) [of ?g m t buf] me by simp
  then have "same_reader (w_rtl w) g" by (simp add: same_reader_def)
  then have g: "cp_inv (w\<lparr>w_rtl := g\<rparr>)" by (rule cp_inv_same_reader [OF inv])
  then have "cp_inv (case ev of None \<Rightarrow> w\<lparr>w_rtl := g\<rparr> | Some level \<Rightarrow> cp_on_adc_overload level (w\<lparr>w_rtl := g\<rparr>))"
    by (simp add: cp_on_adc_overload_def Let_def split: option.splits)
  then show ?thesis
    using inv me by (auto simp: rtl_callback_def Let_def intro: cp_inv_on_vita callback_same)
qed

end
