(* ===== verification/Cp_Safety.thy ===== *)
theory Cp_Safety
  imports Cp_Invariant
begin

text \<open>
  What one client can do to the others: a message from a session that does not hold the channel while
  another does, or from a session that has not authenticated where it must, leaves the hardware, the sender,
  the channel and every other session as they were; and only a verified response unlocks a session.
\<close>

section \<open>Messages without effect on others\<close>

definition untouched :: "nat \<Rightarrow> 'd world \<Rightarrow> 'd world \<Rightarrow> bool" where
  "untouched i w w' \<longleftrightarrow> w_rtl w' = w_rtl w \<and> w_vita w' = w_vita w \<and> w_rx_owner w' = w_rx_owner w \<and> w_udp w' = w_udp w
     \<and> w_rx_auth w' = w_rx_auth w \<and> w_keys w' = w_keys w \<and> (\<forall>j. j \<noteq> i \<longrightarrow> sess j w' = sess j w)"

text \<open>
  A message \<open>w \<rightarrow> w'\<close> of session \<open>i\<close> is \<open>modest\<close> when it is without effect on others and unlocks the session only by
  a response that verifies against the valid nonce of the session.
\<close>

definition modest :: "nat \<Rightarrow> 'd world \<Rightarrow> 'd world \<Rightarrow> bool" where
  "modest i w w' \<longleftrightarrow> untouched i w w'
     \<and> (ss_rx_unlocked (sess i w') \<longrightarrow> ss_rx_unlocked (sess i w) \<or>
          ss_nonce_valid (sess i w) \<and> (\<exists>kid resp. auth_verify (w_keys w) kid (ss_nonce (sess i w)) resp))"

lemma modest_refl [simp]: "modest i w w"
  by (simp add: modest_def untouched_def)

lemma modest_output [simp]:
  "modest i w (send_framed j s w') = modest i w w'" "modest i w (w'\<lparr>w_gains := gs\<rparr>) = modest i w w'"
  "modest i w (w'\<lparr>w_gain_default := gd\<rparr>) = modest i w w'"
  by (simp_all add: modest_def untouched_def)

lemma modest_upd:
  assumes "modest i w w'" and "i < length (w_sessions w')"
    and "ss_rx_unlocked (f (sess i w')) \<Longrightarrow> ss_rx_unlocked (sess i w') \<or>
      ss_nonce_valid (sess i w) \<and> (\<exists>kid resp. auth_verify (w_keys w) kid (ss_nonce (sess i w)) resp)"
  shows "modest i w (upd i f w')"
  using assms by (auto simp: modest_def untouched_def sess_upd)

lemma load_gain_table_modest [simp]: "modest i w (load_gain_table e w)"
  by (simp add: load_gain_table_def split: option.splits list.splits)

lemma hello_modest: "i < length (w_sessions w) \<Longrightarrow> pred_option (modest i w) (cmd_hello e i rid js t w)"
proof -
  assume i: "i < length (w_sessions w)"
  have "modest i w (hello_accept e i rid name w)" for name
  proof -
    let ?u = "upd i (\<lambda>s. s\<lparr>ss_client_name := name, ss_state := SESSION_IDLE\<rparr>) w"
    have "modest i w ?u" using i by (intro modest_upd) simp_all
    moreover from this have "modest i w (issue_nonce e i ?u)"
      using i by (auto simp: issue_nonce_def intro!: modest_upd split: option.splits)
    ultimately show ?thesis by (simp add: hello_accept_def Let_def)
  qed
  then show ?thesis
    unfolding cmd_hello_def Let_def by (intro vcg) (auto intro!: vcg split: option.splits prod.splits)
qed

lemma auth_refuse_modest: "modest i w w' \<Longrightarrow> i < length (w_sessions w') \<Longrightarrow> modest i w (auth_refuse e i rid w')"
  by (auto simp: auth_refuse_def Let_def intro!: modest_upd split: option.splits)

lemma auth_decide_modest: "i < length (w_sessions w) \<Longrightarrow> modest i w (auth_decide e i rid method kid resp w)"
proof -
  assume i: "i < length (w_sessions w)"
  define w1 where "w1 = (if AUTH_WINDOW_NS < e_mono_ns e - ss_auth_window_ns (sess i w)
      then upd i (\<lambda>s. s\<lparr>ss_auth_window_ns := e_mono_ns e, ss_auth_failures := 0\<rparr>) w else w)"
  have m: "modest i w w1" using i by (auto simp: w1_def intro!: modest_upd)
  have w1: "i < length (w_sessions w1)" "w_keys w1 = w_keys w" "ss_nonce_valid (sess i w1) = ss_nonce_valid (sess i w)"
    "ss_nonce (sess i w1) = ss_nonce (sess i w)" using i by (simp_all add: w1_def sess_upd)
  show ?thesis
  proof (cases "ss_nonce_valid (sess i w) \<and> method = AUTH_METHOD_PSK \<and> kr_keys (w_keys w) \<noteq> []
      \<and> auth_verify (w_keys w) kid (ss_nonce (sess i w)) resp")
    case True
    then have "modest i w (upd i (\<lambda>s. s\<lparr>ss_rx_unlocked := True, ss_nonce_valid := False\<rparr>) w1)"
      using m w1 by (intro modest_upd) auto
    with True show ?thesis by (simp add: auth_decide_def Let_def w1_def [symmetric] w1)
  next
    case False
    then show ?thesis using m w1 by (simp add: auth_decide_def Let_def w1_def [symmetric] auth_refuse_modest)
  qed
qed

lemma authenticate_modest: "i < length (w_sessions w) \<Longrightarrow> pred_option (modest i w) (cmd_authenticate e i rid js t w)"
  unfolding cmd_authenticate_def
  by (intro vcg) (auto simp: auth_decide_modest intro!: vcg split: option.splits)

lemma get_control_modest: "pred_option (modest i w) (cmd_get_control i rid js t w)"
  unfolding cmd_get_control_def Let_def by (intro vcg) auto

text \<open>The dispatch is modest as soon as the commands that act on the receiver are.\<close>

definition acting :: "string set" where
  "acting = gated \<union> {''start_rx'', ''stop_rx'', ''close_stream''}"

lemma dispatch_modest:
  assumes "i < length (w_sessions w)"
    and "\<And>rid. cmd = ''set_frequency'' \<Longrightarrow> pred_option (modest i w) (cmd_set_frequency e i rid js t w)"
    and "\<And>rid. cmd = ''set_sample_rate'' \<Longrightarrow> pred_option (modest i w) (cmd_set_sample_rate e i rid js t w)"
    and "\<And>rid. cmd = ''set_control'' \<Longrightarrow> pred_option (modest i w) (cmd_set_control e i rid js t w)"
    and "\<And>rid. cmd = ''open_stream'' \<Longrightarrow> pred_option (modest i w) (cmd_open_stream e i rid js t w)"
    and "\<And>rid. cmd = ''start_rx'' \<Longrightarrow> pred_option (modest i w) (cmd_start_rx e i rid js t w)"
    and "\<And>rid. cmd = ''stop_rx'' \<Longrightarrow> pred_option (modest i w) (cmd_stop_rx e i rid js t w)"
    and "\<And>rid. cmd = ''close_stream'' \<Longrightarrow> pred_option (modest i w) (cmd_close_stream e i rid js t w)"
  shows "pred_option (modest i w) (dispatch e i cmd rid js t w)"
  unfolding dispatch_def
  using assms hello_modest [OF assms(1)] authenticate_modest [OF assms(1)]
  by (intro post_if get_control_modest)
    (simp_all add: cmd_get_capabilities_def cmd_ping_def cmd_get_status_def cmd_get_clock_status_def Let_def)

lemma handle_message_serve:
  "(\<And>c m. P (send_error i ''?'' c m w)) \<Longrightarrow> P w \<Longrightarrow> (\<And>cmd rid t. pred_option P (serve e i cmd rid js t w)) \<Longrightarrow>
     pred_option P (handle_message e i js w)"
  unfolding handle_message_def Let_def by (auto intro!: vcg split: sum.splits option.splits)

section \<open>The exclusive channel\<close>

lemma owned_serve_modest:
  assumes inv: "cp_inv w" and live: "live i w" and own: "w_rx_owner w = Some j" "j \<noteq> i"
  shows "pred_option (modest i w) (serve e i cmd rid js t w)"
proof -
  have i: "i < MAX_SESSIONS" "i < length (w_sessions w)" using live cp_invD(1) [OF inv] by (auto simp: live_def)
  have other: "cp_rx_owned_by_other i w" using own by (simp add: cp_rx_owned_by_other_def)
  have closed: "\<not> ss_stream_open (sess i w)" using owner_of_open [OF inv i(1)] own by simp
  have claim: "cp_rx_claim i w = (False, w)" using own by (simp add: cp_rx_claim_def)
  have cfg: "pred_option (modest i w) (guarded i rid js t w k)" for rid k by (rule post_guarded) (simp_all add: other)
  have str: "pred_option (modest i w) (with_stream i rid js t w k)" for rid k by (rule post_stream) (simp_all add: closed)
  have "pred_option (modest i w) (dispatch e i cmd rid js t w)"
    using closed claim
    by (intro dispatch_modest [OF i(2)])
      (simp_all add: cmd_set_frequency_def cmd_set_sample_rate_def cmd_set_control_def cmd_open_stream_def
        cmd_start_rx_def cmd_stop_rx_def cmd_close_stream_def cfg str post_function post_channel)
  then show ?thesis
    by (simp add: serve_def split: option.split bool.split)
qed

section \<open>The authentication gate\<close>

lemma locked_serve_modest:
  assumes i: "i < length (w_sessions w)" and lock: "w_rx_auth w" "\<not> ss_rx_unlocked (sess i w)"
  shows "pred_option (modest i w) (serve e i cmd rid js t w)"
proof -
  have "pred_option (modest i w) (dispatch e i cmd rid js t w)" if "cmd_addresses_rx cmd js t = Some False"
    using that gate_streams [of cmd js t] addresses_gated [of cmd js t]
    by (intro dispatch_modest [OF i])
      (simp_all add: cmd_set_frequency_def cmd_set_sample_rate_def cmd_set_control_def cmd_open_stream_def guarded_def
        locked_require gated_def)
  then show ?thesis using lock by (simp add: serve_def cp_rx_requires_auth_def split: option.split bool.split)
qed

end
