(* ===== verification/Cp_Replies.thy ===== *)
theory Cp_Replies
  imports Cp_Safety
begin

text \<open>
  Requests and replies: whatever a client sends, every handler of \<open>cp/cp_commands.c\<close> writes exactly one reply, to
  the session that asked and under the id it gave, on every path through its guards.
\<close>

section \<open>Replies\<close>

text \<open>
  The frames that answer a request, told from events by how they start; and what it means that a step of session
  \<open>i\<close> answered the request \<open>rid\<close>: exactly one reply leaves the process, to that session, under the escaped id.
\<close>

definition is_reply :: "string \<Rightarrow> bool" where
  \<open>is_reply s \<longleftrightarrow> take 18 s = ''{"type":"response"''\<close>

definition replies :: "'d world \<Rightarrow> (nat \<times> string) list" where
  "replies w = filter (\<lambda>p. is_reply (snd p)) (w_out w)"

definition reply_to :: "string \<Rightarrow> string \<Rightarrow> bool" where
  \<open>reply_to rid s \<longleftrightarrow> (\<exists>rest. s = ''{"type":"response","id":"'' @ json_escape rid 288 @ ''","status":"'' @ rest)\<close>

definition answers :: "nat \<Rightarrow> string \<Rightarrow> 'd world \<Rightarrow> 'd world \<Rightarrow> bool" where
  "answers i rid w w' \<longleftrightarrow> (\<exists>s. reply_to rid s \<and> replies w' = replies w @ [(i, s)])"

lemma reply_to_is_reply: "reply_to rid s \<Longrightarrow> is_reply s"
  by (auto simp: reply_to_def is_reply_def)

lemma event_not_reply [simp]: "\<not> is_reply (event_json ev p)"
  by (simp add: event_json_def is_reply_def snprintf_def)

lemma json_escape_length: "0 < cap \<Longrightarrow> length (json_escape s cap) < cap"
  by (simp add: json_escape_def escape_upto_length)

lemma snprintf_keeps: "length a < cap \<Longrightarrow> \<exists>r. snprintf cap (a @ b) = a @ r"
  by (auto simp: snprintf_def)

text \<open>The three reply texts keep the id and the status whatever follows is cut.\<close>

lemma reply_texts [simp]:
  "reply_to rid (ok_json rid r)" "reply_to rid (error_json rid c m)" "reply_to rid (auth_failed_json rid d)"
proof -
  let ?head = \<open>''{"type":"response","id":"'' @ json_escape rid 288 @ ''","status":"''\<close>
  have len: "length ?head < 600" using json_escape_length [of 288 rid] by simp
  have keep: "reply_to rid (snprintf cap (?head @ b))" if "600 \<le> cap" for cap b
    using snprintf_keeps [of ?head cap b] that len by (auto simp: reply_to_def)
  have "600 \<le> MAX_MSG_BYTES" by (simp add: MAX_MSG_BYTES_def)
  from keep [OF this, of \<open>''ok","result":'' @ r @ ''}''\<close>] show "reply_to rid (ok_json rid r)"
    by (simp add: ok_json_def)
  from keep [of 1024 \<open>''error","error":{"code":"'' @ c @ ''","message":"'' @ json_escape m 512 @ ''"}}''\<close>]
  show "reply_to rid (error_json rid c m)" by (simp add: error_json_def)
  from keep [of 640 \<open>''error","error":{"code":"auth_failed","message":"authentication was rejected","details":'' @ d @ ''}}''\<close>]
  show "reply_to rid (auth_failed_json rid d)" by (simp add: auth_failed_json_def)
qed

section \<open>What writes no reply\<close>

lemma replies_frame [simp]:
  "replies (upd i f w) = replies w" "replies (broadcast k ev p w) = replies w" "replies (w\<lparr>w_rtl := g\<rparr>) = replies w"
  "replies (w\<lparr>w_vita := v\<rparr>) = replies w" "replies (w\<lparr>w_udp := u\<rparr>) = replies w" "replies (w\<lparr>w_gains := gs\<rparr>) = replies w"
  "replies (w\<lparr>w_gain_default := gd\<rparr>) = replies w" "replies (w\<lparr>w_rx_owner := ow\<rparr>) = replies w"
  "replies (w\<lparr>w_stream_counter := n\<rparr>) = replies w" "replies (on_vita vf w) = replies w" "replies (on_rtl h w) = replies w"
  "replies (send_framed j (event_json ev p) w) = replies w"
  by (simp_all add: replies_def broadcast_eq on_vita_def on_rtl_def case_prod_unfold send_framed_def comp_def)

lemma replies_ops [simp]:
  "replies (load_gain_table e w) = replies w" "replies (cp_rx_release i w) = replies w" "replies (drop_vita i w) = replies w"
  "replies (stop_reader e w) = replies w" "replies (send_context_all w) = replies w" "replies (clamp_frequency e w) = replies w"
  "replies (clamp_rate e w) = replies w" "replies (apply_mode_change_side_effects e w) = replies w"
  "replies (issue_nonce e i w) = replies w"
  by (simp_all add: load_gain_table_def cp_rx_release_def drop_vita_def stop_reader_def send_context_all_def
      clamp_frequency_def clamp_rate_def apply_mode_change_side_effects_def issue_nonce_def Let_def case_prod_unfold
      split: option.splits list.splits)

lemma answers_cong: "replies w'' = replies w' \<Longrightarrow> answers i rid w w'' = answers i rid w w'"
  by (simp add: answers_def)

lemma answers_frame [simp]:
  "answers i rid w (upd j f w') = answers i rid w w'" "answers i rid w (broadcast k ev p w') = answers i rid w w'"
  "answers i rid w (send_context_all w') = answers i rid w w'" "answers i rid w (send_framed j (event_json ev p) w') = answers i rid w w'"
  "answers i rid w (apply_mode_change_side_effects e w') = answers i rid w w'"
  by (rule answers_cong, simp)+

lemma answers_framed [simp]:
  "reply_to rid s \<Longrightarrow> 0 < ss_fd (sess i w') \<Longrightarrow> replies w' = replies w \<Longrightarrow> answers i rid w (send_framed i s w')"
  using reply_to_is_reply [of rid s] by (auto simp: answers_def send_framed_def replies_def)

section \<open>What keeps the connection\<close>

definition keeps_fd :: "(Session \<Rightarrow> Session) \<Rightarrow> bool" where
  "keeps_fd f \<longleftrightarrow> (\<forall>s. ss_fd (f s) = ss_fd s)"

lemma fd_upd [simp]: "keeps_fd f \<Longrightarrow> ss_fd (sess i (upd j f w)) = ss_fd (sess i w)"
  by (cases "i = j"; cases "j < length (w_sessions w)") (simp_all add: keeps_fd_def sess_def upd_def list_update_beyond)

lemma fd_frame [simp]:
  "ss_fd (sess i (load_gain_table e w)) = ss_fd (sess i w)" "ss_fd (sess i (cp_rx_release j w)) = ss_fd (sess i w)"
  "ss_fd (sess i (drop_vita j w)) = ss_fd (sess i w)" "ss_fd (sess i (on_rtl h w)) = ss_fd (sess i w)"
  "ss_fd (sess i (issue_nonce e j w)) = ss_fd (sess i w)" "ss_fd (sess i (claimed j w)) = ss_fd (sess i w)"
  by (simp_all add: load_gain_table_def cp_rx_release_def drop_vita_def on_rtl_def issue_nonce_def claimed_def Let_def keeps_fd_def
      split: option.splits list.splits)

section \<open>Every handler answers once\<close>

lemma hello_answers: "0 < ss_fd (sess i w) \<Longrightarrow> pred_option (answers i rid w) (cmd_hello e i rid js t w)"
proof -
  assume fd: "0 < ss_fd (sess i w)"
  then have "answers i rid w (hello_accept e i rid name w)" for name
    by (simp add: hello_accept_def Let_def keeps_fd_def)
  with fd show ?thesis
    unfolding cmd_hello_def Let_def by (intro vcg) (auto intro!: vcg split: option.splits prod.splits)
qed

lemma authenticate_answers: "0 < ss_fd (sess i w) \<Longrightarrow> pred_option (answers i rid w) (cmd_authenticate e i rid js t w)"
proof -
  assume fd: "0 < ss_fd (sess i w)"
  have refuse: "answers i rid w (auth_refuse e i rid w')" if "replies w' = replies w" "0 < ss_fd (sess i w')" for w'
    using that by (simp add: auth_refuse_def Let_def keeps_fd_def split: option.splits)
  have "answers i rid w (auth_decide e i rid meth kid resp w)" for meth kid resp
    using fd by (simp add: auth_decide_def Let_def refuse keeps_fd_def)
  with fd show ?thesis
    unfolding cmd_authenticate_def by (intro vcg) (auto intro!: vcg split: option.splits)
qed

lemma setting_answers:
  assumes "0 < ss_fd (sess i w)"
  shows "answers i rid w (set_frequency_value e i rid s w)" "answers i rid w (set_sample_rate_value e i rid s w)"
    "pred_option (answers i rid w) (set_rf_gain e i rid js tok s w)" "pred_option (answers i rid w) (set_agc e i rid js tok w)"
    "pred_option (answers i rid w) (set_bias_tee e i rid js tok s w)" "pred_option (answers i rid w) (set_ppm e i rid js tok s w)"
    "pred_option (answers i rid w) (set_direct_sampling e i rid js tok s w)"
  using assms
  by (simp_all add: set_frequency_value_def set_sample_rate_value_def set_rf_gain_def set_agc_def set_bias_tee_def
      set_ppm_def set_direct_sampling_def Let_def case_prod_unfold keeps_fd_def split: option.splits)

lemma configure_answers:
  assumes "0 < ss_fd (sess i w)"
  shows "pred_option (answers i rid w) (cmd_set_frequency e i rid js t w)"
    "pred_option (answers i rid w) (cmd_set_sample_rate e i rid js t w)"
    "pred_option (answers i rid w) (cmd_set_control e i rid js t w)"
    "pred_option (answers i rid w) (cmd_get_control i rid js t w)"
  unfolding cmd_set_frequency_def cmd_set_sample_rate_def cmd_set_control_def cmd_get_control_def
  using assms
  by (intro vcg; auto simp: set_control_value_def setting_answers Let_def intro!: vcg split: option.splits)+

lemma open_fail_answers: "0 < ss_fd (sess i w) \<Longrightarrow> replies w = replies w0 \<Longrightarrow> pred_option (answers i rid w0) (open_fail i rid c m w)"
  by (simp add: open_fail_def)

lemma open_transport_answers:
  assumes "0 < ss_fd (sess i w)" and "replies w = replies w0"
  shows "pred_option (answers i rid w0) (open_transport e i rid js t p w)"
proof -
  note fail = open_fail_answers [OF assms]
  have "answers i rid w0 (open_accept e i rid ip addr port w)" for ip addr port
    using assms by (simp add: open_accept_def alloc_stream_id_def Let_def keeps_fd_def)
  then have "pred_option (answers i rid w0) (open_destination e i rid js t vi w)" for vi
    unfolding open_destination_def by (intro vcg) (auto simp: fail Let_def intro!: vcg split: option.splits)
  then have "pred_option (answers i rid w0) (open_format i rid js t vi w (open_destination e i rid js t vi w))" for vi
    unfolding open_format_def by (intro vcg) (auto simp: fail split: bool.splits)
  then show ?thesis unfolding open_transport_def Let_def by (intro vcg) (auto simp: fail)
qed

lemma open_stream_answers: "0 < ss_fd (sess i w) \<Longrightarrow> pred_option (answers i rid w) (cmd_open_stream e i rid js t w)"
proof -
  assume fd: "0 < ss_fd (sess i w)"
  obtain ok w' where cl: "cp_rx_claim i w = (ok, w')" by (cases "cp_rx_claim i w")
  then have w': "0 < ss_fd (sess i w')" "replies w' = replies w"
    using fd by (auto simp: cp_rx_claim_def keeps_fd_def split: if_splits)
  show ?thesis
    unfolding cmd_open_stream_def cl prod.case
    using fd w' by (intro vcg) (auto simp: open_fail_answers open_transport_answers)
qed

lemma stream_answers:
  assumes "0 < ss_fd (sess i w)"
  shows "pred_option (answers i rid w) (cmd_start_rx e i rid js t w)" "pred_option (answers i rid w) (cmd_stop_rx e i rid js t w)"
    "pred_option (answers i rid w) (cmd_close_stream e i rid js t w)"
  unfolding cmd_start_rx_def cmd_stop_rx_def cmd_close_stream_def
  using assms
  by (intro vcg; simp add: start_rx_do_def stop_rx_do_def close_stream_do_def Let_def case_prod_unfold keeps_fd_def)+

lemma serve_answers:
  assumes "0 < ss_fd (sess i w)"
  shows "pred_option (answers i rid w) (serve e i cmd rid js t w)"
proof -
  have "pred_option (answers i rid w) (dispatch e i cmd rid js t w)"
    unfolding dispatch_def
    using assms
    by (intro post_if hello_answers authenticate_answers configure_answers open_stream_answers stream_answers)
      (simp_all add: cmd_get_capabilities_def cmd_ping_def cmd_get_status_def cmd_get_clock_status_def Let_def)
  then show ?thesis using assms by (simp add: serve_def split: option.split bool.split)
qed

section \<open>Request envelopes\<close>

text \<open>The id, the command and the tokens of a message that is a request.\<close>

definition request_of :: "string \<Rightarrow> (string \<times> string \<times> jsmntok_t list) option" where
  "request_of js =
     (case jsmn_parse MAX_JSON_TOKENS js of
        Inl _ \<Rightarrow> None
      | Inr t \<Rightarrow>
          if t = [] \<or> tk_type (hd t) \<noteq> JSMN_OBJECT then None
          else with_key js t 0 ''type'' (\<lambda>ti. with_key js t 0 ''id'' (\<lambda>ii. with_key js t 0 ''command'' (\<lambda>ci.
            case (ti, ii, ci) of
              (Some ti, Some ii, Some ci) \<Rightarrow>
                with_tok t ti (\<lambda>tt. with_tok t ii (\<lambda>it. with_tok t ci (\<lambda>ct.
                  if tok_eq js tt ''request'' then Some (tok_str js it 128, tok_str js ct 64, t) else None)))
            | _ \<Rightarrow> None))))"

lemma handle_message_request:
  "request_of js = Some (rid, cmd, t) \<Longrightarrow> handle_message e i js w = serve e i cmd rid js t w"
  by (auto simp: request_of_def handle_message_def with_key_def with_tok_def Let_def split: sum.splits if_splits option.splits)

lemma handle_message_other:
  "request_of js = None \<Longrightarrow> handle_message e i js w = Some w' \<Longrightarrow> w' = w \<or> (\<exists>c m. w' = send_error i ''?'' c m w)"
  unfolding request_of_def handle_message_def with_key_def with_tok_def Let_def
  by (auto split: sum.splits if_splits option.splits simp del: send_error_def)

end
