(* ===== verification/Cp_Connection.thy ===== *)
theory Cp_Connection
  imports Cp_Replies
begin

text \<open>
  A connection from its first message to its end: no handler closes a descriptor or changes the configured keys, the thread of
  \<open>cp_session_thread\<close> over a byte stream serves the framed messages in order, and it always leaves a free slot.
\<close>

section \<open>A session stays connected while it is served\<close>

text \<open>No handler touches the descriptors or the configured keys; only the end of a session frees its slot.\<close>

definition steady :: "'d world \<Rightarrow> 'd world \<Rightarrow> bool" where
  "steady w w' \<longleftrightarrow> length (w_sessions w') = length (w_sessions w) \<and> (\<forall>j. ss_fd (sess j w') = ss_fd (sess j w))
     \<and> w_rx_auth w' = w_rx_auth w \<and> w_keys w' = w_keys w"

lemma steady_refl [simp]: "steady w w"
  by (simp add: steady_def)

lemma steady_upd [simp]: "keeps_fd f \<Longrightarrow> steady w (upd i f w') = steady w w'"
  by (simp add: steady_def)

lemma steady_frame [simp]:
  "steady w (send_framed i s w') = steady w w'" "steady w (broadcast k ev p w') = steady w w'"
  "steady w (w'\<lparr>w_rtl := g\<rparr>) = steady w w'" "steady w (w'\<lparr>w_vita := v\<rparr>) = steady w w'"
  "steady w (w'\<lparr>w_udp := u\<rparr>) = steady w w'" "steady w (w'\<lparr>w_gains := gs\<rparr>) = steady w w'"
  "steady w (w'\<lparr>w_gain_default := gd\<rparr>) = steady w w'" "steady w (w'\<lparr>w_rx_owner := ow\<rparr>) = steady w w'"
  "steady w (w'\<lparr>w_stream_counter := n\<rparr>) = steady w w'" "steady w (on_vita vf w') = steady w w'"
  "steady w (on_rtl h w') = steady w w'"
  by (simp_all add: steady_def on_vita_def on_rtl_def case_prod_unfold)

lemma steady_ops [simp]:
  "steady w (load_gain_table e w') = steady w w'" "steady w (cp_rx_release i w') = steady w w'"
  "steady w (drop_vita i w') = steady w w'" "steady w (stop_reader e w') = steady w w'"
  "steady w (send_context_all w') = steady w w'" "steady w (clamp_frequency e w') = steady w w'"
  "steady w (clamp_rate e w') = steady w w'" "steady w (apply_mode_change_side_effects e w') = steady w w'"
  "steady w (issue_nonce e i w') = steady w w'"
  by (simp_all add: load_gain_table_def cp_rx_release_def drop_vita_def stop_reader_def send_context_all_def
      clamp_frequency_def clamp_rate_def apply_mode_change_side_effects_def issue_nonce_def Let_def case_prod_unfold keeps_fd_def
      split: option.splits list.splits)

lemma settings_steady:
  "steady w (hello_accept e i rid name w)" "steady w (auth_decide e i rid method kid resp w)"
  "steady w (set_frequency_value e i rid s w)" "steady w (set_sample_rate_value e i rid s w)"
  "pred_option (steady w) (set_rf_gain e i rid js tok s w)" "pred_option (steady w) (set_agc e i rid js tok w)"
  "pred_option (steady w) (set_bias_tee e i rid js tok s w)" "pred_option (steady w) (set_ppm e i rid js tok s w)"
  "pred_option (steady w) (set_direct_sampling e i rid js tok s w)"
  "steady w (start_rx_do e i rid w)" "steady w (stop_rx_do e i rid w)" "steady w (close_stream_do e i rid w)"
  by (simp_all add: hello_accept_def auth_decide_def auth_refuse_def set_frequency_value_def set_sample_rate_value_def
      set_rf_gain_def set_agc_def set_bias_tee_def set_ppm_def set_direct_sampling_def start_rx_do_def stop_rx_do_def
      close_stream_do_def Let_def case_prod_unfold keeps_fd_def split: option.splits)

lemma open_steady:
  assumes "steady w0 w"
  shows "pred_option (steady w0) (open_fail i rid c m w)" "pred_option (steady w0) (open_transport e i rid js t p w)"
proof -
  show fail: "pred_option (steady w0) (open_fail i rid c m w)" for c m using assms by (simp add: open_fail_def)
  have "steady w0 (open_accept e i rid ip addr port w)" for ip addr port
    using assms by (simp add: open_accept_def alloc_stream_id_def Let_def keeps_fd_def)
  then have "pred_option (steady w0) (open_destination e i rid js t vi w)" for vi
    unfolding open_destination_def by (intro vcg) (auto simp: fail Let_def intro!: vcg split: option.splits)
  then have "pred_option (steady w0) (open_format i rid js t vi w (open_destination e i rid js t vi w))" for vi
    unfolding open_format_def by (intro vcg) (auto simp: fail split: bool.splits)
  then show "pred_option (steady w0) (open_transport e i rid js t p w)"
    unfolding open_transport_def Let_def by (intro vcg) (auto simp: fail)
qed

lemma commands_steady:
  "pred_option (steady w) (cmd_hello e i rid js t w)" "pred_option (steady w) (cmd_authenticate e i rid js t w)"
  "pred_option (steady w) (cmd_set_frequency e i rid js t w)" "pred_option (steady w) (cmd_set_sample_rate e i rid js t w)"
  "pred_option (steady w) (cmd_set_control e i rid js t w)" "pred_option (steady w) (cmd_get_control i rid js t w)"
  "pred_option (steady w) (cmd_start_rx e i rid js t w)" "pred_option (steady w) (cmd_stop_rx e i rid js t w)"
  "pred_option (steady w) (cmd_close_stream e i rid js t w)"
  unfolding cmd_hello_def cmd_authenticate_def cmd_set_frequency_def cmd_set_sample_rate_def cmd_set_control_def cmd_get_control_def
    cmd_start_rx_def cmd_stop_rx_def cmd_close_stream_def Let_def
  by (intro vcg; auto simp: settings_steady set_control_value_def Let_def intro!: vcg split: option.splits prod.splits)+

lemma open_stream_steady: "pred_option (steady w) (cmd_open_stream e i rid js t w)"
proof -
  obtain ok w' where cl: "cp_rx_claim i w = (ok, w')" by (cases "cp_rx_claim i w")
  then have w': "steady w w'" by (auto simp: cp_rx_claim_def keeps_fd_def split: if_splits)
  show ?thesis
    unfolding cmd_open_stream_def cl prod.case using w' by (intro vcg) (auto simp: open_steady)
qed

lemma handle_message_steady: "pred_option (steady w) (handle_message e i js w)"
proof -
  have "pred_option (steady w) (dispatch e i cmd rid js t w)" for cmd rid t
    unfolding dispatch_def
    by (intro post_if commands_steady open_stream_steady)
      (simp_all add: cmd_get_capabilities_def cmd_ping_def cmd_get_status_def cmd_get_clock_status_def Let_def)
  then have "pred_option (steady w) (serve e i cmd rid js t w)" for cmd rid t
    by (simp add: serve_def split: option.split bool.split)
  then show ?thesis by (intro handle_message_serve) simp_all
qed

lemma handle_message_live: "live i w \<Longrightarrow> handle_message e i js w = Some w' \<Longrightarrow> live i w'"
  using handle_message_steady [of w e i js] by (simp add: live_def steady_def)

section \<open>A whole connection\<close>

text \<open>However a connection goes, its thread ends with the slot free, the invariant intact and no claim on the channel.\<close>

lemma session_destroy_free:
  "cp_inv w \<Longrightarrow> i < MAX_SESSIONS \<Longrightarrow> sess i (session_destroy e i w) = session_zero"
  unfolding session_destroy_stages using cp_invD(1) [of w] by (subst sess_upd) simp_all

lemma cp_session_thread_ends:
  "cp_session_thread env k i input w = Some w' \<Longrightarrow> cp_inv w \<Longrightarrow> live i w \<Longrightarrow> cp_inv w' \<and> sess i w' = session_zero"
proof (induction env k i input w rule: cp_session_thread.induct)
  case (1 env k i input w)
  have fin: "cp_inv (session_destroy e i v) \<and> sess i (session_destroy e i v) = session_zero" if "cp_inv v" "live i v" for e v
    using that session_destroy_inv session_destroy_free by (auto simp: live_def)
  show ?case
  proof (cases "read_frame input")
    case (Message js rest)
    with "1.prems"(1) obtain v where v: "handle_message (env k) i js w = Some v"
      by (subst (asm) cp_session_thread.simps) (auto split: option.splits)
    have "cp_inv v" "live i v"
      using handle_message_inv [OF "1.prems"(2,3), of "env k" js] handle_message_live [OF "1.prems"(3) v] v by simp_all
    then show ?thesis
      using "1.prems"(1) "1.IH" [OF Message v] fin Message v
      by (subst (asm) cp_session_thread.simps) (auto split: if_splits)
  qed (use 1 fin in \<open>subst (asm) cp_session_thread.simps, auto\<close>)+
qed

text \<open>The thread over a byte stream is the service of its messages in order.\<close>

fun serve_all :: "(nat \<Rightarrow> 'd env) \<Rightarrow> nat \<Rightarrow> nat \<Rightarrow> string list \<Rightarrow> 'd world \<Rightarrow> 'd world option" where
  "serve_all env k i [] w = Some (session_destroy (env k) i w)"
| "serve_all env k i (m # ms) w =
     (case handle_message (env k) i m w of
        None \<Rightarrow> None
      | Some w \<Rightarrow> if ss_close_after_reply (sess i w) then Some (session_destroy (env (Suc k)) i w)
                   else serve_all env (Suc k) i ms w)"

lemma read_frame_end: "read_frame [] = Closed"
  by (simp add: read_frame_def recv_exact_def)

lemma cp_session_thread_frames:
  "\<forall>m \<in> set ms. m \<noteq> [] \<and> length m \<le> MAX_MSG_BYTES \<Longrightarrow>
     cp_session_thread env k i (concat (map frame_bytes ms)) w = serve_all env k i ms w"
proof (induction ms arbitrary: k w)
  case Nil
  then show ?case by (subst cp_session_thread.simps) (simp add: read_frame_end)
next
  case (Cons m ms)
  then have "read_frame (concat (map frame_bytes (m # ms))) = Message m (concat (map frame_bytes ms))"
    using read_frame_bytes [of m "concat (map frame_bytes ms)"] by simp
  with Cons show ?case by (subst cp_session_thread.simps) (auto split: option.splits)
qed

lemma session_destroy_config [simp]:
  "w_rx_auth (session_destroy e i w) = w_rx_auth w" "w_keys (session_destroy e i w) = w_keys w"
proof -
  have "w_keys (drop_vita i v) = w_keys v" "w_keys (cp_rx_release i v) = w_keys v" "w_keys (destroy_stop e i v) = w_keys v"
    "w_keys (destroy_bias e v) = w_keys v" for v :: "'a world"
    by (simp_all add: drop_vita_def cp_rx_release_def destroy_stop_def destroy_bias_def stop_reader_def on_rtl_def Let_def)
  then show "w_rx_auth (session_destroy e i w) = w_rx_auth w" "w_keys (session_destroy e i w) = w_keys w"
    by (simp_all add: session_destroy_stages)
qed

lemma rtl_callback_config [simp]:
  "w_rx_auth (rtl_callback m t buf w) = w_rx_auth w" "w_keys (rtl_callback m t buf w) = w_keys w"
  by (simp_all add: rtl_callback_def cp_on_adc_overload_def on_vita_def Let_def case_prod_unfold split: option.split)

end
