(* ===== verification/Cp_Server.thy ===== *)
theory Cp_Server
  imports Cp_Connection
begin

text \<open>
  The TCP server of \<open>cp/cp_server.c\<close>: opening and closing the listening socket, and one round of the accept thread. The
  descriptor \<open>socket\<close> returns and whether the other calls succeed are inputs.
\<close>

section \<open>The listening socket\<close>

record cp_server =
  sv_listen_fd :: int
  sv_running :: bool
  sv_thread :: bool

definition server_globals :: cp_server where
  "server_globals = \<lparr>sv_listen_fd = - 1, sv_running = False, sv_thread = False\<rparr>"

record listen_env =
  ls_socket :: int
  ls_bind_ok :: bool
  ls_listen_ok :: bool
  ls_thread_ok :: bool

definition cp_server_start :: "listen_env \<Rightarrow> cp_server \<Rightarrow> int \<times> cp_server" where
  "cp_server_start e sv =
     (let sv = sv\<lparr>sv_listen_fd := ls_socket e\<rparr> in
      if ls_socket e < 0 \<or> \<not> ls_bind_ok e \<or> \<not> ls_listen_ok e then (- 1, sv)
      else if \<not> ls_thread_ok e then (- 1, sv\<lparr>sv_running := False\<rparr>)
      else (0, sv\<lparr>sv_running := True, sv_thread := True\<rparr>))"

text \<open>The join returns because the closed socket ends the accept call, see \<open>accept_round\<close> below.\<close>

definition cp_server_stop :: "cp_server \<Rightarrow> cp_server" where
  "cp_server_stop sv =
     (let sv = sv\<lparr>sv_running := False\<rparr>;
          sv = (if 0 \<le> sv_listen_fd sv then sv\<lparr>sv_listen_fd := - 1\<rparr> else sv)
      in sv\<lparr>sv_thread := False\<rparr>)"

lemma server_start_serves: "cp_server_start e sv = (0, sv') \<Longrightarrow> sv_running sv' \<and> sv_thread sv' \<and> 0 \<le> sv_listen_fd sv'"
  by (auto simp: cp_server_start_def Let_def split: if_splits)

lemma server_stopped: "\<not> sv_running (cp_server_stop sv)" "sv_listen_fd (cp_server_stop sv) < 0" "\<not> sv_thread (cp_server_stop sv)"
  by (simp_all add: cp_server_stop_def Let_def)

section \<open>Accepting connections\<close>

text \<open>
  One round of \<open>accept_thread\<close> for a connection: refused when the table is full, undone when no thread can be
  created; otherwise the slot whose thread now runs.
\<close>

definition accept_connection :: "'d env \<Rightarrow> int \<Rightarrow> u32 \<Rightarrow> 'd world \<Rightarrow> nat option \<times> 'd world" where
  "accept_connection e fd ip w =
     (case session_create fd ip w of
        (None, w) \<Rightarrow> (None, w)
      | (Some i, w) \<Rightarrow> if e_thread_ok e then (Some i, w) else (None, session_destroy e i w))"

text \<open>
  A round of the loop of \<open>accept_thread\<close>: what \<open>accept\<close> returns, with \<open>s_running\<close> as it is afterwards; the last component says
  whether the loop goes on.
\<close>

datatype accept_result = Accept_failed | Accepted int u32

definition accept_round :: "cp_server \<Rightarrow> 'd env \<Rightarrow> accept_result \<Rightarrow> 'd world \<Rightarrow> nat option \<times> 'd world \<times> bool" where
  "accept_round sv e r w =
     (case r of
        Accept_failed \<Rightarrow> (None, w, sv_running sv)
      | Accepted fd ip \<Rightarrow> (case accept_connection e fd ip w of (i, w) \<Rightarrow> (i, w, sv_running sv)))"

lemma accept_ends_after_stop: "snd (snd (accept_round (cp_server_stop sv) e r w)) = False"
  by (simp add: accept_round_def server_stopped split: accept_result.split prod.split)

text \<open>A full table refuses the connection and changes nothing; otherwise the first free slot is taken.\<close>

lemma accept_full: "\<forall>s \<in> set (w_sessions w). ss_fd s \<noteq> 0 \<Longrightarrow> accept_connection e fd ip w = (None, w)"
  using find_slot_None [of "\<lambda>s. ss_fd s = 0" "w_sessions w"] by (simp add: accept_connection_def session_create_def)

end
