(* ===== verification/Rtl_Stub.thy ===== *)
theory Rtl_Stub
  imports Cp_Invariant
begin

text \<open>
  The noise source of the fake librtlsdr, \<open>rtlsdr_read_async\<close> of \<open>test/rtlsdr_stub.c\<close>, as the thread of \<open>rtl_bridge.c\<close> runs it: the
  buffers it synthesises are handed to the USB callback one after the other. \<open>pow\<close> of the C library is a parameter.
\<close>

unbundle bit_operations_syntax

text \<open>The amplitude, taken from the gain when the reader starts.\<close>

definition stub_amp :: "(double \<Rightarrow> double \<Rightarrow> double) \<Rightarrow> int \<Rightarrow> double" where
  "stub_amp pow gain = ddiv (dmul (Fin 6) (pow (Fin 10) (ddiv (tenths gain) (Fin 20)))) (Fin 10)"

text \<open>One sample and the next seed; \<open>None\<close> is the undefined conversion of a value that is not a number.\<close>

definition stub_sample :: "double \<Rightarrow> u32 \<Rightarrow> (u8 \<times> u32) option" where
  "stub_sample amp seed =
     (let seed = seed * 1103515245 + 12345;
          n = dsub (ddiv (of_int_d (uint (drop_bit 16 seed AND 0x7FFF))) (Fin 16384)) (Fin 1);
          v = dadd (fl (1274 / 10)) (dmul n amp);
          v = (if dless v (Fin 0) then Fin 0 else v);
          v = (if dless (Fin 255) v then Fin 255 else v)
      in case v of Fin r \<Rightarrow> Some (of_int (trunc r), seed) | _ \<Rightarrow> None)"

fun stub_buffer :: "double \<Rightarrow> nat \<Rightarrow> u32 \<Rightarrow> (u8 list \<times> u32) option" where
  "stub_buffer amp 0 seed = Some ([], seed)"
| "stub_buffer amp (Suc k) seed =
     (case stub_sample amp seed of
        None \<Rightarrow> None
      | Some (b, seed) \<Rightarrow> map_option (\<lambda>(bs, seed). (b # bs, seed)) (stub_buffer amp k seed))"

text \<open>The pause after a buffer, in microseconds.\<close>

definition stub_pace :: "u32 \<Rightarrow> u32 \<Rightarrow> u64" where
  "stub_pace rate buf_len =
     (let r = (if rate \<noteq> 0 then rate else 2048000); us = (ucast (buf_len div 2) * 1000000) div ucast r :: u64
      in if us = 0 then 1 else us)"

text \<open>
  The loop, one round per entry of the list of callback times: the list ends when \<open>rtlsdr_cancel_async\<close> clears the flag.
\<close>

fun stub_read_loop :: "libm \<Rightarrow> double \<Rightarrow> nat \<Rightarrow> u32 \<Rightarrow> u64 list \<Rightarrow> 'd world \<Rightarrow> 'd world option" where
  "stub_read_loop m amp len seed [] w = Some w"
| "stub_read_loop m amp len seed (now # moments) w =
     (case stub_buffer amp len seed of
        None \<Rightarrow> None
      | Some (buf, seed) \<Rightarrow> stub_read_loop m amp len seed moments (rtl_callback m now buf w))"

definition stub_read_async :: "libm \<Rightarrow> (double \<Rightarrow> double \<Rightarrow> double) \<Rightarrow> nat \<Rightarrow> u64 list \<Rightarrow> stub world \<Rightarrow> stub world option" where
  "stub_read_async m pow buf_len moments w =
     stub_read_loop m (stub_amp pow (st_gain (r_device (w_rtl w)))) (if buf_len = 0 then 262144 else buf_len) 12345 moments w"

text \<open>\<open>rtl_async_thread\<close> asks for small buffers.\<close>

definition stub_async_thread :: "libm \<Rightarrow> (double \<Rightarrow> double \<Rightarrow> double) \<Rightarrow> u64 list \<Rightarrow> stub world \<Rightarrow> stub world option" where
  "stub_async_thread m pow moments w = stub_read_async m pow RTL_ASYNC_BUF_LEN moments w"

section \<open>The noise is always defined\<close>

definition clamp_byte :: "double \<Rightarrow> double" where
  "clamp_byte v = (let v = (if dless v (Fin 0) then Fin 0 else v) in if dless (Fin 255) v then Fin 255 else v)"

lemma clamp_byte_fin: "v \<noteq> NaN \<Longrightarrow> \<exists>r. clamp_byte v = Fin r \<and> 0 \<le> r \<and> r \<le> 255"
  by (cases v) (auto simp: clamp_byte_def not_less)

lemma fl_not_nan: "fl x \<noteq> NaN"
  by (simp add: fl_def Let_def)

lemma fl_unit: "0 \<le> k \<Longrightarrow> k < 2 ^ 31 \<Longrightarrow> \<exists>n. dsub (ddiv (of_int_d k) (Fin 16384)) (Fin 1) = Fin n"
proof -
  assume k: "0 \<le> k" "k < 2 ^ 31"
  then have "of_int k \<le> (of_int (2 ^ 31) :: rat)" "(0 :: rat) \<le> of_int k" by (simp_all only: of_int_le_iff of_int_0_le_iff)
  then have kr: "0 \<le> (of_int k :: rat)" "(of_int k :: rat) \<le> 2147483648" by simp_all
  then have x: "\<bar>of_int k / 16384 :: rat\<bar> \<le> 131072" by simp
  then obtain r where r: "fl (of_int k / 16384) = Fin r" using fl_small [of "of_int k / 16384"] by force
  have "\<bar>r - of_int k / 16384\<bar> \<le> \<bar>of_int k / 16384\<bar> / 2 + 1 / 2" by (rule fl_close [OF r])
  with x have "\<bar>r + - 1\<bar> \<le> 1000000" by linarith
  then have "\<exists>n. fl (r + - 1) = Fin n" using fl_small [of "r + - 1"] by force
  moreover have "of_int_d k = Fin (of_int k)" using k by (simp add: of_int_d_def fl_of_int)
  ultimately show ?thesis using r by (simp add: dsub_def)
qed

lemma stub_sample_defined: "\<exists>b s. stub_sample (Fin a) seed = Some (b, s)"
proof -
  let ?seed = "seed * 1103515245 + 12345"
  define k where "k = uint (drop_bit 16 ?seed AND 0x7FFF)"
  have "k = take_bit 15 (uint (drop_bit 16 ?seed))" unfolding k_def by (simp add: uint_and take_bit_eq_mask mask_eq_exp_minus_1)
  also have "\<dots> < 2 ^ 15" by (rule take_bit_int_less_exp)
  finally have "k < 2 ^ 31" by simp
  moreover have "0 \<le> k" by (simp add: k_def)
  ultimately obtain n where n: "dsub (ddiv (of_int_d k) (Fin 16384)) (Fin 1) = Fin n" using fl_unit by blast
  obtain q where q: "fl (1274 / 10) = Fin q" using fl_small [of "1274 / 10"] by force
  define v where "v = dadd (fl (1274 / 10)) (dmul (Fin n) (Fin a))"
  have "v \<noteq> NaN" unfolding v_def q using fl_not_nan [of "n * a"] fl_not_nan by (cases "fl (n * a)") auto
  then obtain r where "clamp_byte v = Fin r" using clamp_byte_fin by blast
  moreover have "stub_sample (Fin a) seed = (case clamp_byte v of Fin r \<Rightarrow> Some (of_int (trunc r), ?seed) | _ \<Rightarrow> None)"
    unfolding stub_sample_def Let_def k_def [symmetric] n v_def [symmetric] clamp_byte_def by simp
  ultimately show ?thesis by simp
qed

lemma stub_buffer_defined: "\<exists>bs s. stub_buffer (Fin a) k seed = Some (bs, s) \<and> length bs = k"
proof (induction k arbitrary: seed)
  case (Suc k)
  obtain b s where b: "stub_sample (Fin a) seed = Some (b, s)" using stub_sample_defined by blast
  obtain bs s' where "stub_buffer (Fin a) k s = Some (bs, s')" "length bs = k" using Suc by blast
  with b show ?case by simp
qed simp

text \<open>With a finite amplitude the thread serves every callback, and the daemon keeps its invariant under the noise.\<close>

lemma stub_loop_inv: "cp_inv w \<Longrightarrow> \<exists>w'. stub_read_loop m (Fin a) len seed moments w = Some w' \<and> cp_inv w'"
proof (induction moments arbitrary: seed w)
  case (Cons now moments)
  obtain buf s where b: "stub_buffer (Fin a) len seed = Some (buf, s)" using stub_buffer_defined by blast
  have "cp_inv (rtl_callback m now buf w)" by (rule rtl_callback_inv [OF Cons.prems])
  from Cons.IH [OF this, of s] b show ?case by simp
qed simp

lemma stub_thread_inv:
  "cp_inv w \<Longrightarrow> stub_amp pow (st_gain (r_device (w_rtl w))) = Fin a \<Longrightarrow>
     \<exists>w'. stub_async_thread m pow moments w = Some w' \<and> cp_inv w'"
  unfolding stub_async_thread_def stub_read_async_def by (simp only:) (rule stub_loop_inv)

end
