(* ===== verification/Mdns_Builtin.thy ===== *)
theory Mdns_Builtin
  imports Config "HOL-Library.Monad_Syntax"
begin

text \<open>
  The discovery responder of \<open>common/mdns_builtin.c\<close>: the DNS packet builder with its fixed buffer, the response
  to a query, the reader of names in a query and the start and stop of the publication. What goes over the
  multicast socket is returned as a list of packets; the interface list and the socket calls are inputs.
\<close>

unbundle bit_operations_syntax

definition MDNS_TTL :: u32 where "MDNS_TTL = 120"
definition SLC_SERVICE_TYPE :: string where "SLC_SERVICE_TYPE = ''_sdr-slc._tcp''"
definition DNS_TYPE_A :: u16 where "DNS_TYPE_A = 1"
definition DNS_TYPE_PTR :: u16 where "DNS_TYPE_PTR = 12"
definition DNS_TYPE_TXT :: u16 where "DNS_TYPE_TXT = 16"
definition DNS_TYPE_SRV :: u16 where "DNS_TYPE_SRV = 33"
definition DNS_TYPE_ANY :: u16 where "DNS_TYPE_ANY = 255"
definition DNS_CLASS_IN :: u16 where "DNS_CLASS_IN = 1"
definition DNS_CACHE_FLUSH :: u16 where "DNS_CACHE_FLUSH = 0x8000"

section \<open>Packet builder\<close>

text \<open>The bytes written so far, whose number is \<open>pos\<close>; the buffer has room for 1024.\<close>

definition DNS_CAP :: nat where "DNS_CAP = 1024"

record DNS =
  d_buf :: "u8 list"
  d_overflow :: bool

definition dns_init :: DNS where
  "dns_init = \<lparr>d_buf = replicate 12 0, d_overflow = False\<rparr>"

definition dns_pos :: "DNS \<Rightarrow> nat" where
  "dns_pos d = length (d_buf d)"

definition dns_put8 :: "u8 \<Rightarrow> DNS \<Rightarrow> DNS" where
  "dns_put8 v d = (if dns_pos d < DNS_CAP then d\<lparr>d_buf := d_buf d @ [v]\<rparr> else d\<lparr>d_overflow := True\<rparr>)"

definition dns_put16 :: "u16 \<Rightarrow> DNS \<Rightarrow> DNS" where
  "dns_put16 v d = dns_put8 (ucast (v AND 0xFF)) (dns_put8 (ucast (drop_bit 8 v)) d)"

definition dns_put32 :: "u32 \<Rightarrow> DNS \<Rightarrow> DNS" where
  "dns_put32 v d = dns_put16 (ucast (v AND 0xFFFF)) (dns_put16 (ucast (drop_bit 16 v)) d)"

text \<open>The labels \<open>dns_name\<close> writes: one per dot, so text after the last dot is dropped.\<close>

function labels :: "string \<Rightarrow> string list" where
  "labels s =
     (case dropWhile (\<lambda>c. c \<noteq> CHR ''.'') s of
        [] \<Rightarrow> []
      | _ # rest \<Rightarrow> takeWhile (\<lambda>c. c \<noteq> CHR ''.'') s # labels rest)"
  by pat_completeness auto
termination
proof (relation "measure length")
  fix s rest :: string and c
  assume "dropWhile (\<lambda>c. c \<noteq> CHR ''.'') s = c # rest"
  then have "length (c # rest) \<le> length s" by (metis length_dropWhile_le)
  then show "(rest, s) \<in> measure length" by simp
qed simp

declare labels.simps [simp del]

definition put_chars :: "string \<Rightarrow> DNS \<Rightarrow> DNS" where
  "put_chars s d = foldl (\<lambda>d c. dns_put8 (of_char c) d) d s"

definition put_label :: "DNS \<Rightarrow> string \<Rightarrow> DNS" where
  "put_label d l = put_chars l (dns_put8 (of_nat (length l)) d)"

definition dns_name :: "string \<Rightarrow> DNS \<Rightarrow> nat \<times> DNS" where
  "dns_name name d = (dns_pos d, dns_put8 0 (foldl put_label d (labels name)))"

definition dns_ptr :: "nat \<Rightarrow> DNS \<Rightarrow> DNS" where
  "dns_ptr off d = dns_put8 (of_nat off AND 0xFF) (dns_put8 (0xC0 OR of_nat (off div 256)) d)"

text \<open>\<open>None\<close>: the two length bytes lie beyond what the buffer holds.\<close>

definition dns_patch_rdlen :: "nat \<Rightarrow> DNS \<Rightarrow> DNS option" where
  "dns_patch_rdlen p d =
     (if dns_pos d < p + 2 then None
      else let rdlen = dns_pos d - p - 2
           in Some (d\<lparr>d_buf := (d_buf d)[p := of_nat (rdlen div 256), Suc p := of_nat rdlen]\<rparr>))"

definition dns_rr :: "nat option \<Rightarrow> string \<Rightarrow> u16 \<Rightarrow> u16 \<Rightarrow> u32 \<Rightarrow> DNS \<Rightarrow> nat \<times> DNS" where
  "dns_rr name_off name type cls ttl d =
     (let d = (case name_off of Some off \<Rightarrow> dns_ptr off d | None \<Rightarrow> snd (dns_name name d));
          d = dns_put32 ttl (dns_put16 cls (dns_put16 type d))
      in (dns_pos d, dns_put16 0 d))"

section \<open>Responses\<close>

definition R_PTR :: u32 where "R_PTR = 1"
definition R_SRV :: u32 where "R_SRV = 2"
definition R_TXT :: u32 where "R_TXT = 4"
definition R_A :: u32 where "R_A = 8"
definition R_ALL :: u32 where "R_ALL = 15"

text \<open>\<open>md_ip\<close> is \<open>s_addr\<close> as a little-endian host reads it: its low byte is the first on the wire.\<close>

record mdns =
  md_sock :: bool
  md_running :: bool
  md_published :: bool
  md_instance :: string
  md_iface :: string
  md_ip :: u32
  md_port :: u16
  md_txt :: "string list"

definition wants :: "u32 \<Rightarrow> u32 \<Rightarrow> bool" where
  "wants which r \<longleftrightarrow> which AND r \<noteq> 0"

definition svc_type :: string where
  "svc_type = snprintf 32 (SLC_SERVICE_TYPE @ ''.local.'')"

definition inst_fqdn :: "mdns \<Rightarrow> string" where
  "inst_fqdn m = snprintf 96 (md_instance m @ ''.'' @ SLC_SERVICE_TYPE @ ''.local.'')"

definition host_fqdn :: "mdns \<Rightarrow> string" where
  "host_fqdn m = snprintf 80 (md_instance m @ ''.local.'')"

text \<open>
  The four parts of \<open>send_records\<close>: each returns the offset of the name it wrote, the one the next records
  point to.
\<close>

definition part_ptr :: "mdns \<Rightarrow> u32 \<Rightarrow> DNS \<Rightarrow> (nat option \<times> DNS) option" where
  "part_ptr m ttl d =
     (let (rdp, d) = dns_rr None svc_type DNS_TYPE_PTR DNS_CLASS_IN ttl d;
          (inst_off, d) = dns_name (inst_fqdn m) d
      in do { d \<leftarrow> dns_patch_rdlen rdp d; Some (Some inst_off, d) })"

definition part_srv :: "mdns \<Rightarrow> u32 \<Rightarrow> nat option \<Rightarrow> DNS \<Rightarrow> (nat option \<times> nat option \<times> DNS) option" where
  "part_srv m ttl inst_off d =
     (let name_at = dns_pos d;
          (rdp, d) = dns_rr inst_off (inst_fqdn m) DNS_TYPE_SRV (DNS_CLASS_IN OR DNS_CACHE_FLUSH) ttl d;
          inst_off = (case inst_off of None \<Rightarrow> Some name_at | o' \<Rightarrow> o');
          d = dns_put16 (md_port m) (dns_put16 0 (dns_put16 0 d));
          (host_off, d) = dns_name (host_fqdn m) d
      in do { d \<leftarrow> dns_patch_rdlen rdp d; Some (inst_off, Some host_off, d) })"

definition put_txt :: "DNS \<Rightarrow> string \<Rightarrow> DNS" where
  "put_txt d s = put_chars s (dns_put8 (of_nat (length s)) d)"

definition part_txt :: "mdns \<Rightarrow> u32 \<Rightarrow> nat option \<Rightarrow> DNS \<Rightarrow> (nat option \<times> DNS) option" where
  "part_txt m ttl inst_off d =
     (let name_at = dns_pos d;
          (rdp, d) = dns_rr inst_off (inst_fqdn m) DNS_TYPE_TXT (DNS_CLASS_IN OR DNS_CACHE_FLUSH) ttl d;
          inst_off = (case inst_off of None \<Rightarrow> Some name_at | o' \<Rightarrow> o');
          d = foldl put_txt d (md_txt m)
      in do { d \<leftarrow> dns_patch_rdlen rdp d; Some (inst_off, d) })"

definition part_a :: "mdns \<Rightarrow> u32 \<Rightarrow> nat option \<Rightarrow> DNS \<Rightarrow> DNS option" where
  "part_a m ttl host_off d =
     (let (rdp, d) = dns_rr host_off (host_fqdn m) DNS_TYPE_A (DNS_CLASS_IN OR DNS_CACHE_FLUSH) ttl d;
          ip = md_ip m;
          d = dns_put8 (ucast (drop_bit 24 ip)) (dns_put8 (ucast (drop_bit 16 ip))
                (dns_put8 (ucast (drop_bit 8 ip)) (dns_put8 (ucast ip) d)))
      in dns_patch_rdlen rdp d)"

text \<open>The answer count and the flags of the header.\<close>

definition count_answers :: "u32 \<Rightarrow> nat" where
  "count_answers which = length (filter (wants which) [R_PTR, R_SRV, R_TXT, R_A])"

definition dns_header :: "nat \<Rightarrow> DNS \<Rightarrow> DNS" where
  "dns_header n d = d\<lparr>d_buf := (d_buf d)[2 := 0x84, 3 := 0, 6 := of_nat (n div 256), 7 := of_nat n]\<rparr>"

text \<open>\<open>send_records\<close>: the packets sent, none without a socket or when the buffer overflowed.\<close>

definition send_records :: "u32 \<Rightarrow> u32 \<Rightarrow> mdns \<Rightarrow> u8 list list option" where
  "send_records which ttl m =
     (if \<not> md_sock m then Some []
      else do {
        (inst, d) \<leftarrow> (if wants which R_PTR then part_ptr m ttl dns_init else Some (None, dns_init));
        (inst, host, d) \<leftarrow> (if wants which R_SRV then part_srv m ttl inst d else Some (inst, None, d));
        (inst, d) \<leftarrow> (if wants which R_TXT then part_txt m ttl inst d else Some (inst, d));
        d \<leftarrow> (if wants which R_A then part_a m ttl host d else Some d);
        let d = dns_header (count_answers which) d;
        Some (if d_overflow d then [] else [d_buf d])
      })"

section \<open>Queries\<close>

text \<open>
  The loop of \<open>dns_read_name\<close>: position, where the caller goes on after the first pointer, and the text so far. It
  ends after 64 rounds whatever the packet says.
\<close>

fun read_name :: "nat \<Rightarrow> u8 list \<Rightarrow> nat \<Rightarrow> nat \<Rightarrow> nat option \<Rightarrow> string \<Rightarrow> (string \<times> nat) option" where
  "read_name 0 buf cap p ret out = Some (out, case ret of None \<Rightarrow> p | Some b \<Rightarrow> b)"
| "read_name (Suc guard) buf cap p ret out =
     (if length buf \<le> p then None
      else let l = buf ! p; p = Suc p; n = unat l in
        if l = 0 then Some (out, case ret of None \<Rightarrow> p | Some b \<Rightarrow> b)
        else if l AND 0xC0 = 0xC0 then
          (if length buf \<le> p then None
           else let target = unat (l AND 0x3F) * 256 + unat (buf ! p); p = Suc p
                in read_name guard buf cap target (case ret of None \<Rightarrow> Some p | b \<Rightarrow> b) out)
        else if length buf < p + n then None
        else if cap < length out + n + 2 then None
        else read_name guard buf cap (p + n) ret
               (out @ (if out = [] then [] else ''.'') @ map (\<lambda>b. char_of (unat b)) (take n (drop p buf))))"

definition dns_read_name :: "u8 list \<Rightarrow> nat \<Rightarrow> nat \<Rightarrow> (string \<times> nat) option" where
  "dns_read_name buf cap pos = read_name 64 buf cap pos None []"

definition SERVICES_NAME :: string where "SERVICES_NAME = ''_services._dns-sd._udp.local''"

definition asks :: "mdns \<Rightarrow> string \<Rightarrow> u16 \<Rightarrow> u32" where
  "asks m name qtype =
     (let any = (qtype = DNS_TYPE_ANY) in
      if strcasecmp_eq name (snprintf 64 (SLC_SERVICE_TYPE @ ''.local'')) \<and> (any \<or> qtype = DNS_TYPE_PTR) then R_ALL
      else if strcasecmp_eq name SERVICES_NAME \<and> (any \<or> qtype = DNS_TYPE_PTR) then R_ALL
      else if strcasecmp_eq name (snprintf 128 (md_instance m @ ''.'' @ SLC_SERVICE_TYPE @ ''.local''))
      then (if any \<or> qtype = DNS_TYPE_SRV then R_SRV OR R_A else 0) OR (if any \<or> qtype = DNS_TYPE_TXT then R_TXT else 0)
      else if strcasecmp_eq name (snprintf 96 (md_instance m @ ''.local'')) \<and> (any \<or> qtype = DNS_TYPE_A) then R_A
      else 0)"

fun questions :: "mdns \<Rightarrow> u8 list \<Rightarrow> nat \<Rightarrow> nat \<Rightarrow> u32 \<Rightarrow> u32" where
  "questions m buf 0 pos which = which"
| "questions m buf (Suc q) pos which =
     (case dns_read_name buf 256 pos of
        None \<Rightarrow> which
      | Some (name, pos) \<Rightarrow>
          if length buf < pos + 4 then which
          else let qtype = (push_bit 8 (ucast (buf ! pos)) OR ucast (buf ! Suc pos) :: u16)
               in questions m buf q (pos + 4) (which OR asks m (cstr name) qtype))"

definition records_for_query :: "mdns \<Rightarrow> u8 list \<Rightarrow> u32" where
  "records_for_query m buf =
     (if length buf < 12 \<or> buf ! 2 AND 0x80 \<noteq> 0 then 0
      else let qd = unat (buf ! 4) * 256 + unat (buf ! 5) in questions m buf qd 12 0)"

text \<open>What \<open>responder_thread\<close> sends for one received datagram.\<close>

definition respond :: "u8 list \<Rightarrow> mdns \<Rightarrow> u8 list list option" where
  "respond rx m = (let which = records_for_query m rx in if which \<noteq> 0 then send_records which MDNS_TTL m else Some [])"

section \<open>Publication\<close>

record mdns_txt_t =
  txt_name :: string
  txt_proto :: string
  txt_proto_ver :: string
  txt_functions :: string
  txt_hw :: string
  txt_fw :: string
  txt_minhz :: u64
  txt_maxhz :: u64

text \<open>One entry of \<open>getifaddrs\<close> that carries an IPv4 address: name, loopback flag and address.\<close>

type_synonym ifaddr = "string \<times> bool \<times> u32"

definition read_ipv4 :: "ifaddr list \<Rightarrow> string \<Rightarrow> u32 option" where
  "read_ipv4 ifs iface =
     (case find (\<lambda>(nm, loopback, ip). if iface \<noteq> [] then nm = iface else \<not> loopback) ifs of
        None \<Rightarrow> None | Some (_, _, ip) \<Rightarrow> Some ip)"

definition txt_strings :: "mdns_txt_t \<Rightarrow> string list" where
  "txt_strings t = map (snprintf 160)
     [''name='' @ txt_name t, ''proto='' @ txt_proto t, ''proto_ver='' @ txt_proto_ver t, ''functions='' @ txt_functions t,
      ''hw='' @ txt_hw t, ''fw='' @ txt_fw t, ''minhz='' @ fmt_u (txt_minhz t), ''maxhz='' @ fmt_u (txt_maxhz t)]"

definition mdns_globals :: mdns where
  "mdns_globals = \<lparr>md_sock = False, md_running = False, md_published = False, md_instance = [], md_iface = [], md_ip = 0,
     md_port = 0, md_txt = []\<rparr>"

text \<open>\<open>None\<close> as for \<open>send_records\<close>; the first component is the return code.\<close>

definition mdns_builtin_start ::
    "ifaddr list option \<Rightarrow> bool \<Rightarrow> bool \<Rightarrow> bool \<Rightarrow> string \<Rightarrow> string \<Rightarrow> u16 \<Rightarrow> mdns_txt_t \<Rightarrow> mdns \<Rightarrow>
       (int \<times> mdns \<times> u8 list list) option" where
  "mdns_builtin_start ifs socket_ok bind_ok thread_ok iface instance' port txts m =
     (let m = m\<lparr>md_instance := snprintf 64 instance', md_iface := snprintf 32 iface, md_port := port, md_txt := txt_strings txts\<rparr> in
      case (case ifs of None \<Rightarrow> None | Some l \<Rightarrow> read_ipv4 l (md_iface m)) of
        None \<Rightarrow> Some (- 1, m, [])
      | Some ip \<Rightarrow>
          let m = m\<lparr>md_ip := ip\<rparr> in
          if \<not> socket_ok \<or> \<not> bind_ok then Some (- 1, m\<lparr>md_sock := False\<rparr>, [])
          else do {
            let m = m\<lparr>md_sock := True\<rparr>;
            ps \<leftarrow> send_records R_ALL MDNS_TTL m;
            let m = m\<lparr>md_published := True, md_running := thread_ok\<rparr>;
            Some (if thread_ok then 0 else - 1, m, ps)
          })"

definition mdns_builtin_stop :: "mdns \<Rightarrow> (mdns \<times> u8 list list) option" where
  "mdns_builtin_stop m =
     (if \<not> md_sock m then Some (m, [])
      else do {
        ps \<leftarrow> (if md_published m then send_records R_ALL 0 m else Some []);
        Some (m\<lparr>md_running := False, md_sock := False, md_published := False\<rparr>, ps)
      })"

definition mdns_builtin_published :: "mdns \<Rightarrow> bool" where
  "mdns_builtin_published m = md_published m"

section \<open>Writing\<close>

definition puts :: "u8 list \<Rightarrow> DNS \<Rightarrow> DNS" where
  "puts bs d = foldl (\<lambda>d b. dns_put8 b d) d bs"

lemma puts_simps [simp]: "puts [] d = d" "puts (b # bs) d = puts bs (dns_put8 b d)" "puts bs (puts as d) = puts (as @ bs) d"
  by (simp_all add: puts_def)

lemma puts_fits: "dns_pos d + length bs \<le> DNS_CAP \<Longrightarrow> puts bs d = d\<lparr>d_buf := d_buf d @ bs\<rparr>"
  by (induction bs arbitrary: d) (simp_all add: dns_put8_def dns_pos_def)

text \<open>Every write is a sequence of bytes.\<close>

lemma put_bytes [layout]:
  "dns_put8 b d = puts [b] d" "dns_put16 v d = puts (be16 v) d" "dns_put32 x d = puts (be32 x) d"
  "put_chars s d = puts (map of_char s) d"
proof -
  have m: "(0xFF :: u16) = mask 8" "(0xFFFF :: u32) = mask 16" by (simp_all add: mask_eq_exp_minus_1)
  have lo: "ucast (v AND 0xFF) = (ucast v :: u8)" for v :: u16
    unfolding m by (rule bit_word_eqI) (auto simp: bit_simps)
  show p16: "dns_put16 v d = puts (be16 v) d" for v d by (simp add: dns_put16_def be16_def lo)
  have "be16 (ucast (drop_bit 16 x)) @ be16 (ucast (x AND 0xFFFF)) = be32 x"
    unfolding be16_def be32_def m by (auto intro!: bit_word_eqI simp: bit_simps)
  then show "dns_put32 x d = puts (be32 x) d" by (simp add: dns_put32_def p16)
  show "put_chars s d = puts (map of_char s) d" by (simp add: put_chars_def puts_def foldl_map)
qed simp

definition label_bytes :: "string \<Rightarrow> u8 list" where
  "label_bytes l = of_nat (length l) # map of_char l"

definition name_bytes :: "string list \<Rightarrow> u8 list" where
  "name_bytes ls = concat (map label_bytes ls) @ [0]"

lemma put_label_bytes: "foldl put_label d ls = puts (concat (map label_bytes ls)) d"
  by (induction ls arbitrary: d) (simp_all add: put_label_def put_bytes(4) label_bytes_def)

lemma put_txt_bytes: "foldl put_txt d ss = puts (concat (map label_bytes ss)) d"
  by (induction ss arbitrary: d) (simp_all add: put_txt_def put_bytes(4) label_bytes_def)

lemma dns_name_bytes: "dns_name s d = (dns_pos d, puts (name_bytes (labels s)) d)"
  by (simp add: dns_name_def put_label_bytes name_bytes_def put_bytes(1) del: puts_simps(2)) 

text \<open>One resource record on the wire, its owner name written out or as a pointer.\<close>

definition ptr_bytes :: "nat \<Rightarrow> u8 list" where
  "ptr_bytes off = [0xC0 OR of_nat (off div 256), of_nat off AND 0xFF]"

definition owner_bytes :: "nat option \<Rightarrow> string \<Rightarrow> u8 list" where
  "owner_bytes off name = (case off of Some k \<Rightarrow> ptr_bytes k | None \<Rightarrow> name_bytes (labels name))"

definition rr_bytes :: "u8 list \<Rightarrow> u16 \<Rightarrow> u16 \<Rightarrow> u32 \<Rightarrow> u8 list \<Rightarrow> u8 list" where
  "rr_bytes owner type cls ttl rdata = owner @ be16 type @ be16 cls @ be32 ttl @ be16 (of_nat (length rdata)) @ rdata"

lemma rr_length: "length (rr_bytes ow ty cl ttl rdata) = length ow + 10 + length rdata"
  by (simp add: rr_bytes_def)

lemma dns_rr_bytes:
  "dns_rr off name ty cl ttl d =
     (dns_pos (puts (owner_bytes off name @ be16 ty @ be16 cl @ be32 ttl) d),
      puts (owner_bytes off name @ be16 ty @ be16 cl @ be32 ttl @ be16 0) d)"
  by (cases off) (simp_all add: dns_rr_def Let_def put_bytes dns_name_bytes owner_bytes_def ptr_bytes_def dns_ptr_def
      del: puts_simps(2))

lemma be16_of_nat: "n < 65536 \<Longrightarrow> be16 (of_nat n) = [of_nat (n div 256), of_nat n]"
  by (auto intro!: word_unat_eq_iff [THEN iffD2] simp: be16_def unat_drop_bit_eq drop_bit_eq_div unsigned_ucast_eq unat_of_nat
      take_bit_eq_mod mod_mod_cancel unat_div)

lemma emit_rr:
  assumes fit: "dns_pos d + length (rr_bytes (owner_bytes off name) ty cl ttl rdata) \<le> DNS_CAP"
    and rr: "dns_rr off name ty cl ttl d = (rdp, d1)"
  shows "dns_patch_rdlen rdp (puts rdata d1) = Some (d\<lparr>d_buf := d_buf d @ rr_bytes (owner_bytes off name) ty cl ttl rdata\<rparr>)"
proof -
  let ?head = "owner_bytes off name @ be16 ty @ be16 cl @ be32 ttl"
  have h: "rdp = dns_pos d + length ?head" "d1 = puts (?head @ be16 0) d"
    using rr fit by (simp_all add: dns_rr_bytes puts_fits rr_length) (simp add: puts_fits rr_length dns_pos_def)
  have b: "puts rdata d1 = d\<lparr>d_buf := d_buf d @ ?head @ be16 0 @ rdata\<rparr>"
    unfolding h puts_simps(3) using fit by (subst puts_fits) (simp_all add: rr_length)
  have n: "length rdata < 65536" using fit by (simp add: rr_length DNS_CAP_def)
  have "(d_buf d @ ?head @ be16 0 @ rdata)[rdp := of_nat (length rdata div 256), Suc rdp := of_nat (length rdata)]
      = d_buf d @ ?head @ be16 (of_nat (length rdata)) @ rdata"
    unfolding be16_of_nat [OF n] h(1) dns_pos_def by (simp add: be16_def list_update_append)
  then show ?thesis
    unfolding b dns_patch_rdlen_def rr_bytes_def by (simp add: h(1) dns_pos_def Let_def)
qed

section \<open>Reading a name back\<close>

text \<open>Labels a name may have: 1 to 63 characters.\<close>

definition label_ok :: "string \<Rightarrow> bool" where
  "label_ok l \<longleftrightarrow> l \<noteq> [] \<and> length l \<le> 63"

fun join_dots :: "string \<Rightarrow> string list \<Rightarrow> string" where
  "join_dots out [] = out"
| "join_dots out (l # ls) = join_dots (out @ (if out = [] then [] else ''.'') @ l) ls"

lemma join_dots_length: "length out \<le> length (join_dots out ls)"
proof (induction ls arbitrary: out)
  case (Cons l ls)
  from Cons [of "out @ (if out = [] then [] else ''.'') @ l"] show ?case by simp
qed simp

lemma chars_back [simp]: "map ((\<lambda>b. char_of (unat (b :: u8))) \<circ> of_char) s = s"
  by (induction s) (simp_all add: unat_of_char)

lemma read_label:
  assumes "label_ok l" and "length out + length l + 2 \<le> cap"
  shows "read_name (Suc g) (pre @ label_bytes l @ suf) cap (length pre) ret out
    = read_name g (pre @ label_bytes l @ suf) cap (length pre + length (label_bytes l)) ret
        (out @ (if out = [] then [] else ''.'') @ l)"
proof -
  have n: "unat (of_nat (length l) :: u8) = length l" using assms(1) by (simp add: label_ok_def unat_of_nat take_bit_nat_eq_self)
  have nz: "(of_nat (length l) :: u8) \<noteq> 0" using assms(1) n by (auto simp: label_ok_def)
  have "(of_nat (length l) :: u8) AND 0xC0 \<noteq> 0xC0"
  proof
    assume "(of_nat (length l) :: u8) AND 0xC0 = 0xC0"
    then have "bit (of_nat (length l) AND 0xC0 :: u8) 6" by simp
    then have "bit (of_nat (length l) :: u8) 6" unfolding bit_and_iff by simp
    then have "bit (unat (of_nat (length l) :: u8)) 6" by (simp add: bit_unsigned_iff)
    then have "odd (length l div 2 ^ 6)" unfolding n bit_iff_odd .
    then show False using assms(1) by (simp add: label_ok_def)
  qed
  then show ?thesis
    using assms nz by (simp add: label_bytes_def Let_def n nth_append del: of_nat_eq_0_iff)
qed

lemma read_labels:
  assumes "list_all label_ok ls" and "length ls < g" and "length (join_dots out ls) + 2 \<le> cap"
  shows "read_name g (pre @ name_bytes ls @ suf) cap (length pre) ret out
    = Some (join_dots out ls, case ret of None \<Rightarrow> length pre + length (name_bytes ls) | Some b \<Rightarrow> b)"
  using assms
proof (induction ls arbitrary: g out pre)
  case Nil
  then obtain g' where "g = Suc g'" by (cases g) auto
  then show ?case by (simp add: name_bytes_def nth_append split: option.split)
next
  case (Cons l ls)
  then obtain g' where g: "g = Suc g'" by (cases g) auto
  let ?out = "out @ (if out = [] then [] else ''.'') @ l"
  have "length ?out + 2 \<le> cap" using Cons.prems(3) join_dots_length [of ?out ls] by simp
  then have room: "length out + length l + 2 \<le> cap" by simp
  have nb: "name_bytes (l # ls) = label_bytes l @ name_bytes ls" by (simp add: name_bytes_def)
  have "read_name g (pre @ name_bytes (l # ls) @ suf) cap (length pre) ret out
      = read_name g' ((pre @ label_bytes l) @ name_bytes ls @ suf) cap (length (pre @ label_bytes l)) ret ?out"
    using read_label [of l out cap g' pre "name_bytes ls @ suf" ret] Cons.prems(1) room by (simp add: g nb)
  also have "\<dots> = Some (join_dots ?out ls, case ret of None \<Rightarrow> length pre + length (name_bytes (l # ls)) | Some b \<Rightarrow> b)"
    using Cons.prems g by (subst Cons.IH) (simp_all add: nb split: option.split)
  finally show ?case by simp
qed

text \<open>Names the packets carry: well-formed labels that fit the reader's buffer and its 64 rounds.\<close>

definition name_ok :: "string list \<Rightarrow> bool" where
  "name_ok ls \<longleftrightarrow> list_all label_ok ls \<and> length ls < 63 \<and> length (join_dots [] ls) + 2 \<le> 256"

lemma read_written_name:
  "name_ok ls \<Longrightarrow> dns_read_name (pre @ name_bytes ls @ suf) 256 (length pre)
     = Some (join_dots [] ls, length pre + length (name_bytes ls))"
  using read_labels [of ls 64 "[]" 256 pre suf None] by (simp add: dns_read_name_def name_ok_def)

lemma pointer_byte:
  assumes "off < 1024"
  shows "(0xC0 OR of_nat (off div 256) :: u8) \<noteq> 0" "(0xC0 OR of_nat (off div 256) :: u8) AND 0xC0 = 0xC0"
    "unat ((0xC0 OR of_nat (off div 256) :: u8) AND 0x3F) * 256 + unat (of_nat off AND 0xFF :: u8) = off"
proof -
  have "off div 256 \<in> {0, 1, 2, 3}" using assms by auto
  moreover have lo: "unat (of_nat off AND 0xFF :: u8) = off mod 256"
  proof -
    have "(0xFF :: u8) = mask 8" by (simp add: mask_eq_exp_minus_1)
    then have "(of_nat off AND 0xFF :: u8) = of_nat off" by (simp only: take_bit_eq_mask [symmetric]) (simp add: take_bit_word_eq_self)
    then show ?thesis by (simp add: unat_of_nat take_bit_eq_mod)
  qed
  ultimately show "(0xC0 OR of_nat (off div 256) :: u8) \<noteq> 0" "(0xC0 OR of_nat (off div 256) :: u8) AND 0xC0 = 0xC0" by auto
  have "unat ((0xC0 OR of_nat (off div 256) :: u8) AND 0x3F) = off div 256"
    using \<open>off div 256 \<in> {0, 1, 2, 3}\<close> by auto
  then show "unat ((0xC0 OR of_nat (off div 256) :: u8) AND 0x3F) * 256 + unat (of_nat off AND 0xFF :: u8) = off"
    by (simp only: lo div_mult_mod_eq)
qed

lemma read_pointer:
  assumes "name_ok ls" and "length pre < 1024" and buf: "pre @ name_bytes ls @ suf = pre' @ ptr_bytes (length pre) @ suf'"
  shows "dns_read_name (pre' @ ptr_bytes (length pre) @ suf') 256 (length pre') = Some (join_dots [] ls, length pre' + 2)"
proof -
  have "read_name 63 (pre @ name_bytes ls @ suf) 256 (length pre) (Some (length pre' + 2)) [] = Some (join_dots [] ls, length pre' + 2)"
    using read_labels [of ls 63 "[]" 256 pre suf "Some (length pre' + 2)"] assms(1) by (simp add: name_ok_def)
  moreover have sixty_four: "(64 :: nat) = Suc 63" by simp
  ultimately show ?thesis
    unfolding dns_read_name_def buf sixty_four read_name.simps(2) Let_def
    using pointer_byte [OF assms(2)] by (simp add: ptr_bytes_def nth_append)
qed

section \<open>Reading records back\<close>

text \<open>A client's view of a response: owner, type, class, lifetime and data of each answer.\<close>

type_synonym rr = "string \<times> u16 \<times> u16 \<times> u32 \<times> u8 list"

definition get16 :: "u8 list \<Rightarrow> nat \<Rightarrow> u16" where
  "get16 buf p = (push_bit 8 (ucast (buf ! p)) OR ucast (buf ! Suc p))"

definition read_rr :: "u8 list \<Rightarrow> nat \<Rightarrow> (rr \<times> nat) option" where
  "read_rr buf pos =
     do {
       (name, p) \<leftarrow> dns_read_name buf 256 pos;
       if length buf < p + 10 then None
       else let n = unat (get16 buf (p + 8)) in
         if length buf < p + 10 + n then None
         else Some ((name, get16 buf p, get16 buf (p + 2), from_be32 (take 4 (drop (p + 4) buf)), take n (drop (p + 10) buf)), p + 10 + n)
     }"

fun read_rrs :: "u8 list \<Rightarrow> nat \<Rightarrow> nat \<Rightarrow> (rr list \<times> nat) option" where
  "read_rrs buf 0 pos = Some ([], pos)"
| "read_rrs buf (Suc k) pos =
     do { (r, pos) \<leftarrow> read_rr buf pos; (rs, pos) \<leftarrow> read_rrs buf k pos; Some (r # rs, pos) }"

lemma get16_be16: "get16 (pre @ be16 v @ suf) (length pre) = v"
  unfolding get16_def be16_def by (rule bit_word_eqI) (auto simp: nth_append bit_simps)

lemma read_rr_bytes:
  assumes name: "dns_read_name (pre @ rr_bytes ow ty cl ttl rdata @ suf) 256 (length pre) = Some (nm, length pre + length ow)"
    and len: "length rdata < 65536"
  shows "read_rr (pre @ rr_bytes ow ty cl ttl rdata @ suf) (length pre)
    = Some ((nm, ty, cl, ttl, rdata), length pre + length (rr_bytes ow ty cl ttl rdata))"
proof -
  let ?buf = "pre @ rr_bytes ow ty cl ttl rdata @ suf" and ?p = "length pre + length ow" and ?n = "of_nat (length rdata) :: u16"
  have b: "?buf = (pre @ ow) @ be16 ty @ be16 cl @ be32 ttl @ be16 ?n @ rdata @ suf" by (simp add: rr_bytes_def)
  have g: "get16 ?buf ?p = ty" "get16 ?buf (?p + 2) = cl" "get16 ?buf (?p + 8) = ?n"
    using get16_be16 [of "pre @ ow" ty] get16_be16 [of "pre @ ow @ be16 ty" cl]
      get16_be16 [of "pre @ ow @ be16 ty @ be16 cl @ be32 ttl" ?n]
    by (simp_all add: rr_bytes_def add.assoc)
  have t: "take 4 (drop (?p + 4) ?buf) = be32 ttl" "take (length rdata) (drop (?p + 10) ?buf) = rdata"
    unfolding b by simp_all
  have n: "unat ?n = length rdata" using len by (simp add: unat_of_nat take_bit_nat_eq_self)
  have l: "length ?buf = ?p + 10 + length rdata + length suf" by (simp add: rr_bytes_def)
  show ?thesis
    unfolding read_rr_def name by (simp only: bind.bind_lunit prod.case g t n l Let_def) (simp add: rr_length)
qed

lemma read_rrs_append:
  "read_rrs buf k pos = Some (rs, pos') \<Longrightarrow> read_rr buf pos' = Some (r, pos'') \<Longrightarrow> read_rrs buf (Suc k) pos = Some (rs @ [r], pos'')"
proof (induction k arbitrary: pos rs)
  case (Suc k)
  from Suc.prems(1) obtain r1 p1 rs1 where 1: "read_rr buf pos = Some (r1, p1)" "read_rrs buf k p1 = Some (rs1, pos')" "rs = r1 # rs1"
    by (auto split: bind_splits)
  from Suc.IH [OF 1(2) Suc.prems(2)] have "read_rrs buf (Suc k) p1 = Some (rs1 @ [r], pos'')" .
  then show ?case using 1 by (simp del: read_rrs.simps(2) add: read_rrs.simps(2) [of buf "Suc k" pos])
qed simp

text \<open>
  A body under construction is \<open>good\<close> for a list of records when a reader finds exactly these, whatever header stands
  before it and whatever follows; \<open>named\<close> places a name in it.
\<close>

definition good :: "u8 list \<Rightarrow> rr list \<Rightarrow> bool" where
  "good body rs \<longleftrightarrow> (\<forall>hdr suf. length hdr = 12 \<longrightarrow> read_rrs (hdr @ body @ suf) (length rs) 12 = Some (rs, 12 + length body))"

definition named :: "u8 list \<Rightarrow> nat option \<Rightarrow> string list \<Rightarrow> bool" where
  "named body off ls \<longleftrightarrow>
     (\<forall>k. off = Some k \<longrightarrow> k < 1024 \<and> (\<exists>pre suf. body = pre @ name_bytes ls @ suf \<and> k = 12 + length pre))"

lemma good_empty [simp]: "good [] []"
  by (simp add: good_def)

lemma named_append: "named body off ls \<Longrightarrow> named (body @ x) off ls"
  unfolding named_def by (metis append.assoc)

lemma named_None [simp]: "named body None ls"
  by (simp add: named_def)

lemma good_record:
  assumes g: "good body rs" and nm: "named body off (labels name)" and ok: "name_ok (labels name)" and len: "length rdata < 65536"
  shows "good (body @ rr_bytes (owner_bytes off name) ty cl ttl rdata) (rs @ [(join_dots [] (labels name), ty, cl, ttl, rdata)])"
  unfolding good_def
proof (intro allI impI)
  fix hdr suf :: "u8 list"
  assume h: "length hdr = 12"
  let ?rr = "rr_bytes (owner_bytes off name) ty cl ttl rdata" and ?rest = "be16 ty @ be16 cl @ be32 ttl @ be16 (of_nat (length rdata)) @ rdata"
  have "dns_read_name ((hdr @ body) @ ?rr @ suf) 256 (length (hdr @ body))
      = Some (join_dots [] (labels name), length (hdr @ body) + length (owner_bytes off name))"
  proof (cases off)
    case None
    then show ?thesis
      using read_written_name [OF ok, of "hdr @ body" "?rest @ suf"] by (simp add: rr_bytes_def owner_bytes_def)
  next
    case (Some k)
    with nm obtain pre suf' where k: "k < 1024" "body = pre @ name_bytes (labels name) @ suf'" "k = 12 + length pre"
      by (auto simp: named_def)
    have "(hdr @ pre) @ name_bytes (labels name) @ (suf' @ ?rr @ suf) = (hdr @ body) @ ptr_bytes (length (hdr @ pre)) @ (?rest @ suf)"
      using Some k h by (simp add: rr_bytes_def owner_bytes_def)
    from read_pointer [OF ok _ this] show ?thesis
      using Some k h by (simp add: rr_bytes_def owner_bytes_def) (simp add: ptr_bytes_def)
  qed
  from read_rr_bytes [OF this len] have "read_rr (hdr @ body @ ?rr @ suf) (12 + length body)
      = Some ((join_dots [] (labels name), ty, cl, ttl, rdata), 12 + length body + length ?rr)" using h by simp
  moreover have "read_rrs (hdr @ body @ ?rr @ suf) (length rs) 12 = Some (rs, 12 + length body)" using g h by (simp add: good_def)
  ultimately show "read_rrs (hdr @ (body @ ?rr) @ suf) (length (rs @ [(join_dots [] (labels name), ty, cl, ttl, rdata)])) 12
      = Some (rs @ [(join_dots [] (labels name), ty, cl, ttl, rdata)], 12 + length (body @ ?rr))"
    using read_rrs_append by (simp add: add.assoc)
qed

end
