(* ===== verification/Mdns_Avahi.thy ===== *)
theory Mdns_Avahi
  imports Mdns_Builtin
begin

text \<open>
  The Avahi backend of \<open>common/mdns_avahi.c\<close>, compiled in with \<open>MDNS=avahi\<close>. libavahi-client is a parameter: a record of
  the calls the module makes on the library's own state. The module's static variables are the record \<open>avahi\<close>; the
  services it hands to the library are kept in the order of the calls. The callbacks the library makes are the
  events of the module.
\<close>

section \<open>The library\<close>

datatype AvahiEntryGroupState =
    AVAHI_ENTRY_GROUP_UNCOMMITED | AVAHI_ENTRY_GROUP_REGISTERING | AVAHI_ENTRY_GROUP_ESTABLISHED
  | AVAHI_ENTRY_GROUP_COLLISION | AVAHI_ENTRY_GROUP_FAILURE

datatype AvahiClientState =
    AVAHI_CLIENT_S_REGISTERING | AVAHI_CLIENT_S_RUNNING | AVAHI_CLIENT_S_COLLISION | AVAHI_CLIENT_FAILURE | AVAHI_CLIENT_CONNECTING

text \<open>
  \<open>lib_client_new\<close> also delivers the client states reported to the callback before the call returns. The TXT argument of
  \<open>lib_group_add_service\<close> is the strings in the order the module adds them to the library's string list.
\<close>

record 'a libavahi =
  lib_poll_new :: "'a \<Rightarrow> bool \<times> 'a"
  lib_poll_start :: "'a \<Rightarrow> int \<times> 'a"
  lib_poll_stop :: "'a \<Rightarrow> 'a"
  lib_poll_free :: "'a \<Rightarrow> 'a"
  lib_client_new :: "'a \<Rightarrow> bool \<times> AvahiClientState list \<times> 'a"
  lib_client_free :: "'a \<Rightarrow> 'a"
  lib_group_new :: "'a \<Rightarrow> bool \<times> 'a"
  lib_group_is_empty :: "'a \<Rightarrow> bool"
  lib_group_add_service :: "string \<Rightarrow> string \<Rightarrow> u16 \<Rightarrow> string list \<Rightarrow> 'a \<Rightarrow> int \<times> 'a"
  lib_group_commit :: "'a \<Rightarrow> int \<times> 'a"
  lib_group_reset :: "'a \<Rightarrow> 'a"
  lib_group_free :: "'a \<Rightarrow> 'a"

section \<open>The module\<close>

record 'a avahi =
  av_lib :: 'a
  av_poll :: bool
  av_client :: bool
  av_group :: bool
  av_instance :: string
  av_port :: u16
  av_published :: bool
  av_txt :: "string list"
  av_added :: "(string \<times> string \<times> u16 \<times> string list) list"

definition avahi_globals :: "'a \<Rightarrow> 'a avahi" where
  "avahi_globals a = \<lparr>av_lib = a, av_poll = False, av_client = False, av_group = False, av_instance = [], av_port = 0,
     av_published = False, av_txt = [], av_added = []\<rparr>"

definition group_cb :: "AvahiEntryGroupState \<Rightarrow> 'a avahi \<Rightarrow> 'a avahi" where
  "group_cb state m =
     (case state of
        AVAHI_ENTRY_GROUP_ESTABLISHED \<Rightarrow> m\<lparr>av_published := True\<rparr>
      | AVAHI_ENTRY_GROUP_COLLISION \<Rightarrow> m\<lparr>av_published := False\<rparr>
      | AVAHI_ENTRY_GROUP_FAILURE \<Rightarrow> m\<lparr>av_published := False\<rparr>
      | _ \<Rightarrow> m)"

definition new_group :: "'a libavahi \<Rightarrow> 'a avahi \<Rightarrow> 'a avahi" where
  "new_group lib m =
     (if av_group m then m else case lib_group_new lib (av_lib m) of (ok, a) \<Rightarrow> m\<lparr>av_lib := a, av_group := ok\<rparr>)"

definition publish_service :: "'a libavahi \<Rightarrow> 'a avahi \<Rightarrow> 'a avahi" where
  "publish_service lib m =
     (let m = new_group lib m in
      if \<not> av_group m \<or> \<not> lib_group_is_empty lib (av_lib m) then m
      else case lib_group_add_service lib (av_instance m) SLC_SERVICE_TYPE (av_port m) (av_txt m) (av_lib m) of (rc, a) \<Rightarrow>
        let m = m\<lparr>av_lib := a, av_added := av_added m @ [(av_instance m, SLC_SERVICE_TYPE, av_port m, av_txt m)]\<rparr> in
        if rc < 0 then m else m\<lparr>av_lib := snd (lib_group_commit lib (av_lib m))\<rparr>)"

definition client_cb :: "'a libavahi \<Rightarrow> AvahiClientState \<Rightarrow> 'a avahi \<Rightarrow> 'a avahi" where
  "client_cb lib state m =
     (case state of
        AVAHI_CLIENT_S_RUNNING \<Rightarrow> publish_service lib m
      | AVAHI_CLIENT_FAILURE \<Rightarrow> m\<lparr>av_published := False\<rparr>
      | AVAHI_CLIENT_CONNECTING \<Rightarrow> m
      | _ \<Rightarrow> let m = m\<lparr>av_published := False\<rparr>
             in if av_group m then m\<lparr>av_lib := lib_group_reset lib (av_lib m)\<rparr> else m)"

definition free_group :: "'a libavahi \<Rightarrow> 'a avahi \<Rightarrow> 'a avahi" where
  "free_group lib m = (if av_group m then m\<lparr>av_lib := lib_group_free lib (av_lib m), av_group := False\<rparr> else m)"

definition free_client :: "'a libavahi \<Rightarrow> 'a avahi \<Rightarrow> 'a avahi" where
  "free_client lib m = (if av_client m then m\<lparr>av_lib := lib_client_free lib (av_lib m), av_client := False\<rparr> else m)"

definition free_poll :: "'a libavahi \<Rightarrow> 'a avahi \<Rightarrow> 'a avahi" where
  "free_poll lib m = (if av_poll m then m\<lparr>av_lib := lib_poll_free lib (av_lib m), av_poll := False\<rparr> else m)"

definition mdns_avahi_stop :: "'a libavahi \<Rightarrow> 'a avahi \<Rightarrow> 'a avahi" where
  "mdns_avahi_stop lib m =
     (let m = (if av_poll m then m\<lparr>av_lib := lib_poll_stop lib (av_lib m)\<rparr> else m);
          m = free_poll lib (free_client lib (free_group lib m))
      in m\<lparr>av_published := False\<rparr>)"

definition mdns_avahi_start :: "'a libavahi \<Rightarrow> string \<Rightarrow> u16 \<Rightarrow> mdns_txt_t \<Rightarrow> 'a avahi \<Rightarrow> int \<times> 'a avahi" where
  "mdns_avahi_start lib instance' port txts m =
     (let m = m\<lparr>av_instance := snprintf 64 instance', av_port := port, av_txt := txt_strings txts\<rparr> in
      case lib_poll_new lib (av_lib m) of (ok, a) \<Rightarrow>
      let m = m\<lparr>av_lib := a, av_poll := ok\<rparr> in
      if \<not> ok then (- 1, m)
      else case lib_client_new lib (av_lib m) of (ok, states, a) \<Rightarrow>
        let m = (foldl (\<lambda>m st. client_cb lib st m) (m\<lparr>av_lib := a\<rparr>) states)\<lparr>av_client := ok\<rparr> in
        if \<not> ok then (- 1, free_poll lib m)
        else case lib_poll_start lib (av_lib m) of (rc, a) \<Rightarrow>
          let m = m\<lparr>av_lib := a\<rparr> in if rc < 0 then (- 1, mdns_avahi_stop lib m) else (0, m))"

definition mdns_avahi_published :: "'a avahi \<Rightarrow> bool" where
  "mdns_avahi_published m = av_published m"

section \<open>Events\<close>

text \<open>Between start and stop the library reports states of the client, and of the entry group while there is one.\<close>

inductive avahi_event :: "'a libavahi \<Rightarrow> 'a avahi \<Rightarrow> 'a avahi \<Rightarrow> bool" for lib where
  client: "av_client m \<Longrightarrow> avahi_event lib m (client_cb lib state m)"
| group: "av_group m \<Longrightarrow> avahi_event lib m (group_cb state m)"

section \<open>What the module promises\<close>

text \<open>Only a group publishes, and every service handed over is the configured one.\<close>

definition avahi_ok :: "'a avahi \<Rightarrow> bool" where
  "avahi_ok m \<longleftrightarrow> (av_published m \<longrightarrow> av_group m)"

definition same_service :: "'a avahi \<Rightarrow> 'a avahi \<Rightarrow> bool" where
  "same_service m m' \<longleftrightarrow> av_instance m' = av_instance m \<and> av_port m' = av_port m \<and> av_txt m' = av_txt m
     \<and> (\<exists>n. av_added m' = av_added m @ replicate n (av_instance m, SLC_SERVICE_TYPE, av_port m, av_txt m))"

lemma same_service_refl: "av_instance m' = av_instance m \<Longrightarrow> av_port m' = av_port m \<Longrightarrow> av_txt m' = av_txt m \<Longrightarrow>
    av_added m' = av_added m \<Longrightarrow> same_service m m'"
  by (auto simp: same_service_def intro: exI [of _ 0])

lemma same_service_trans: "same_service m m' \<Longrightarrow> same_service m' m'' \<Longrightarrow> same_service m m''"
  by (auto simp: same_service_def replicate_add [symmetric])

lemma publish_service_ok: "avahi_ok m \<Longrightarrow> avahi_ok (publish_service lib m) \<and> same_service m (publish_service lib m)"
  by (auto simp: avahi_ok_def publish_service_def new_group_def same_service_def Let_def split: prod.splits
      intro: exI [of _ 0] exI [of _ "Suc 0"])

lemma client_cb_ok: "avahi_ok m \<Longrightarrow> avahi_ok (client_cb lib st m) \<and> same_service m (client_cb lib st m)"
  using publish_service_ok [of m lib]
  by (cases st) (auto simp: avahi_ok_def client_cb_def Let_def intro: same_service_refl)

lemma client_cbs_ok:
  "avahi_ok m \<Longrightarrow> avahi_ok (foldl (\<lambda>m st. client_cb lib st m) m sts) \<and> same_service m (foldl (\<lambda>m st. client_cb lib st m) m sts)"
proof (induction sts arbitrary: m)
  case (Cons st sts)
  then show ?case using client_cb_ok [of m lib st] same_service_trans by fastforce
qed (simp add: same_service_refl)

lemma group_cb_ok: "av_group m \<Longrightarrow> avahi_ok (group_cb st m) \<and> same_service m (group_cb st m)"
  by (cases st) (auto simp: avahi_ok_def group_cb_def intro: same_service_refl)

lemma avahi_event_ok: "avahi_event lib m m' \<Longrightarrow> avahi_ok m \<Longrightarrow> avahi_ok m' \<and> same_service m m'"
  by (induction rule: avahi_event.induct) (auto simp: client_cb_ok group_cb_ok)

lemma avahi_events_ok: "(avahi_event lib)\<^sup>*\<^sup>* m m' \<Longrightarrow> avahi_ok m \<Longrightarrow> avahi_ok m' \<and> same_service m m'"
  by (induction rule: rtranclp_induct) (auto dest: avahi_event_ok intro: same_service_trans same_service_refl)

text \<open>After a stop nothing is left of the publication, however far it had come.\<close>

lemma avahi_stopped:
  "\<not> av_poll (mdns_avahi_stop lib m)" "\<not> av_client (mdns_avahi_stop lib m)" "\<not> av_group (mdns_avahi_stop lib m)"
  "\<not> av_published (mdns_avahi_stop lib m)" "av_added (mdns_avahi_stop lib m) = av_added m"
  by (auto simp: mdns_avahi_stop_def free_group_def free_client_def free_poll_def Let_def)

lemma avahi_stop_idle:
  "\<not> av_poll m \<Longrightarrow> \<not> av_client m \<Longrightarrow> \<not> av_group m \<Longrightarrow> \<not> av_published m \<Longrightarrow> mdns_avahi_stop lib m = m"
  by (simp add: mdns_avahi_stop_def free_group_def free_client_def free_poll_def)

text \<open>Start hands over the service it was asked for, if any, and says so by its result.\<close>

lemma avahi_start_service:
  assumes "mdns_avahi_start lib inst port txts m = (rc, m')" and "\<not> av_published m"
  shows "avahi_ok m'"
    and "\<exists>n. av_added m' = av_added m @ replicate n (snprintf 64 inst, SLC_SERVICE_TYPE, port, txt_strings txts)"
    and "rc = 0 \<Longrightarrow> av_client m' \<and> av_poll m' \<and> av_instance m' = snprintf 64 inst \<and> av_port m' = port \<and> av_txt m' = txt_strings txts"
proof -
  let ?m0 = "m\<lparr>av_instance := snprintf 64 inst, av_port := port, av_txt := txt_strings txts\<rparr>"
  obtain ok a where p: "lib_poll_new lib (av_lib m) = (ok, a)" by (cases "lib_poll_new lib (av_lib m)")
  obtain ok2 sts a2 where c: "lib_client_new lib a = (ok2, sts, a2)" by (cases "lib_client_new lib a")
  define m1 where "m1 = foldl (\<lambda>m st. client_cb lib st m) (?m0\<lparr>av_poll := True, av_lib := a2\<rparr>) sts"
  have m1: "avahi_ok m1" "same_service (?m0\<lparr>av_poll := True, av_lib := a2\<rparr>) m1"
    unfolding m1_def using client_cbs_ok [of "?m0\<lparr>av_poll := True, av_lib := a2\<rparr>"] assms(2) by (simp_all add: avahi_ok_def)
  have cb: "av_poll (client_cb lib st x) = av_poll x" for st and x :: "'a avahi"
    by (cases st) (auto simp: client_cb_def publish_service_def new_group_def Let_def split: prod.splits)
  have "av_poll (foldl (\<lambda>m st. client_cb lib st m) x sts) = av_poll x" for x by (induction sts arbitrary: x) (simp_all add: cb)
  then have poll: "av_poll m1" unfolding m1_def by simp
  have d': "(rc, m') = (if \<not> ok then (- 1, ?m0\<lparr>av_lib := a, av_poll := False\<rparr>)
      else if \<not> ok2 then (- 1, free_poll lib (m1\<lparr>av_client := False\<rparr>))
      else (case lib_poll_start lib (av_lib m1) of (r, b) \<Rightarrow>
        if r < 0 then (- 1, mdns_avahi_stop lib (m1\<lparr>av_client := True, av_lib := b\<rparr>)) else (0, m1\<lparr>av_client := True, av_lib := b\<rparr>)))"
    using assms(1) by (auto simp: mdns_avahi_start_def Let_def p c m1_def split: if_splits prod.splits)
  show "avahi_ok m'" using d' m1(1) assms(2)
    by (auto simp: avahi_ok_def free_poll_def avahi_stopped split: if_splits prod.splits)
  show "\<exists>n. av_added m' = av_added m @ replicate n (snprintf 64 inst, SLC_SERVICE_TYPE, port, txt_strings txts)"
    using d' m1(2) by (auto simp: same_service_def free_poll_def avahi_stopped intro: exI [of _ 0] split: if_splits prod.splits)
  show "rc = 0 \<Longrightarrow> av_client m' \<and> av_poll m' \<and> av_instance m' = snprintf 64 inst \<and> av_port m' = port \<and> av_txt m' = txt_strings txts"
    using d' m1(2) poll by (auto simp: same_service_def split: if_splits prod.splits)
qed

end
