(* ===== verification/Mdns_Readback.thy ===== *)
theory Mdns_Readback
  imports Mdns_Builtin "HOL-Library.Sublist"
begin

text \<open>
  The responses of \<open>common/mdns_builtin.c\<close> seen by a client: each fits the buffer and decodes, compression pointers
  followed, into the records it should carry; and a query for the service is answered with all four.
\<close>

section \<open>Responses read back\<close>

text \<open>An instance name of one label: not empty, at most 63 characters, no dot; a TXT record of moderate size.\<close>

definition publishable :: "mdns \<Rightarrow> bool" where
  "publishable m \<longleftrightarrow> label_ok (md_instance m) \<and> CHR ''.'' \<notin> set (md_instance m)
     \<and> length (concat (map label_bytes (md_txt m))) \<le> 500"

lemma labels_cons: "CHR ''.'' \<notin> set l \<Longrightarrow> labels (l @ CHR ''.'' # s) = l # labels s"
proof -
  assume "CHR ''.'' \<notin> set l"
  then have "dropWhile (\<lambda>c. c \<noteq> CHR ''.'') (l @ CHR ''.'' # s) = CHR ''.'' # s" "takeWhile (\<lambda>c. c \<noteq> CHR ''.'') (l @ CHR ''.'' # s) = l"
    by (induction l) auto
  then show ?thesis by (subst labels.simps) simp
qed

lemma labels_Nil [simp]: "labels [] = []"
  by (subst labels.simps) simp

lemma service_labels: "labels (SLC_SERVICE_TYPE @ ''.local.'') = [''_sdr-slc'', ''_tcp'', ''local'']"
  using labels_cons [of "''_sdr-slc''" "''_tcp.local.''"] labels_cons [of "''_tcp''" "''local.''"] labels_cons [of "''local''" "[]"]
  by (simp add: SLC_SERVICE_TYPE_def)

lemma name_labels:
  assumes "publishable m"
  shows "labels svc_type = [''_sdr-slc'', ''_tcp'', ''local'']"
    and "labels (inst_fqdn m) = [md_instance m, ''_sdr-slc'', ''_tcp'', ''local'']"
    and "labels (host_fqdn m) = [md_instance m, ''local'']"
proof -
  have i: "length (md_instance m) \<le> 63" "CHR ''.'' \<notin> set (md_instance m)" using assms by (simp_all add: publishable_def label_ok_def)
  show "labels svc_type = [''_sdr-slc'', ''_tcp'', ''local'']"
    using service_labels by (simp add: svc_type_def snprintf_fits SLC_SERVICE_TYPE_def)
  have "inst_fqdn m = md_instance m @ ''.'' @ SLC_SERVICE_TYPE @ ''.local.''"
    unfolding inst_fqdn_def using i(1) by (intro snprintf_fits) (simp add: SLC_SERVICE_TYPE_def)
  then show "labels (inst_fqdn m) = [md_instance m, ''_sdr-slc'', ''_tcp'', ''local'']"
    using labels_cons [OF i(2)] service_labels by simp
  have "host_fqdn m = md_instance m @ ''.'' @ ''local.''"
    unfolding host_fqdn_def using i(1) by (subst snprintf_fits) simp_all
  then show "labels (host_fqdn m) = [md_instance m, ''local'']"
    using labels_cons [OF i(2)] labels_cons [of "''local''" "[]"] by simp
qed

lemma names_ok:
  assumes "publishable m"
  shows "name_ok (labels svc_type)" "name_ok (labels (inst_fqdn m))" "name_ok (labels (host_fqdn m))"
  using assms by (simp_all add: name_labels name_ok_def label_ok_def publishable_def)

lemma name_lengths:
  assumes "publishable m"
  shows "length (name_bytes (labels svc_type)) = 21" "length (name_bytes (labels (inst_fqdn m))) \<le> 85"
    "length (name_bytes (labels (host_fqdn m))) \<le> 71"
  using assms by (simp_all add: name_labels name_bytes_def label_bytes_def publishable_def label_ok_def)

text \<open>The records a response should carry.\<close>

definition FLUSH_IN :: u16 where "FLUSH_IN = DNS_CLASS_IN OR DNS_CACHE_FLUSH"

definition rr_ptr :: "mdns \<Rightarrow> u32 \<Rightarrow> rr" where
  "rr_ptr m ttl = (''_sdr-slc._tcp.local'', DNS_TYPE_PTR, DNS_CLASS_IN, ttl, name_bytes (labels (inst_fqdn m)))"

definition rr_srv :: "mdns \<Rightarrow> u32 \<Rightarrow> rr" where
  "rr_srv m ttl = (md_instance m @ ''._sdr-slc._tcp.local'', DNS_TYPE_SRV, FLUSH_IN, ttl,
     be16 0 @ be16 0 @ be16 (md_port m) @ name_bytes (labels (host_fqdn m)))"

definition rr_txt :: "mdns \<Rightarrow> u32 \<Rightarrow> rr" where
  "rr_txt m ttl = (md_instance m @ ''._sdr-slc._tcp.local'', DNS_TYPE_TXT, FLUSH_IN, ttl, concat (map label_bytes (md_txt m)))"

definition rr_a :: "mdns \<Rightarrow> u32 \<Rightarrow> rr" where
  "rr_a m ttl = (md_instance m @ ''.local'', DNS_TYPE_A, FLUSH_IN, ttl,
     [ucast (md_ip m), ucast (drop_bit 8 (md_ip m)), ucast (drop_bit 16 (md_ip m)), ucast (drop_bit 24 (md_ip m))])"

definition expected :: "u32 \<Rightarrow> u32 \<Rightarrow> mdns \<Rightarrow> rr list" where
  "expected which ttl m =
     (if wants which R_PTR then [rr_ptr m ttl] else []) @ (if wants which R_SRV then [rr_srv m ttl] else [])
     @ (if wants which R_TXT then [rr_txt m ttl] else []) @ (if wants which R_A then [rr_a m ttl] else [])"

definition built :: "DNS \<Rightarrow> u8 list \<Rightarrow> rr list \<Rightarrow> bool" where
  "built d body rs \<longleftrightarrow> d = \<lparr>d_buf = replicate 12 0 @ body, d_overflow = False\<rparr> \<and> good body rs"

lemma built_record:
  assumes b: "built d body rs" and nm: "named body off (labels name)" and ok: "name_ok (labels name)"
    and fit: "length body + length (owner_bytes off name) + 10 + length rdata \<le> 1012"
    and rr: "dns_rr off name ty cl ttl d = (rdp, d1)"
  shows "\<exists>d'. dns_patch_rdlen rdp (puts rdata d1) = Some d'
    \<and> built d' (body @ rr_bytes (owner_bytes off name) ty cl ttl rdata) (rs @ [(join_dots [] (labels name), ty, cl, ttl, rdata)])"
proof -
  have "dns_pos d = 12 + length body" using b by (simp add: built_def dns_pos_def)
  then have "dns_pos d + length (rr_bytes (owner_bytes off name) ty cl ttl rdata) \<le> DNS_CAP"
    using fit by (simp add: rr_length DNS_CAP_def)
  from emit_rr [OF this rr] show ?thesis
    using b good_record [OF _ nm ok, of rs rdata ty cl ttl] fit by (simp add: built_def)
qed

lemma namedI: "body = pre @ name_bytes ls @ suf \<Longrightarrow> k = 12 + length pre \<Longrightarrow> k < 1024 \<Longrightarrow> named body (Some k) ls"
  by (auto simp: named_def)

lemma named_owner:
  assumes "named body off (labels name)" and "length body < 1012"
  shows "named (body @ rr_bytes (owner_bytes off name) ty cl ttl rdata @ x) (case off of None \<Rightarrow> Some (12 + length body) | ob \<Rightarrow> ob) (labels name)"
proof (cases off)
  case None
  then show ?thesis using assms(2) by (auto simp: named_def rr_bytes_def owner_bytes_def)
qed (use named_append [OF assms(1)] in auto)

lemma part_ptr_ok:
  assumes m: "publishable m" and b: "built d [] []"
  shows "\<exists>inst d' body. part_ptr m ttl d = Some (inst, d') \<and> built d' body [rr_ptr m ttl]
    \<and> length body \<le> 116 \<and> named body inst (labels (inst_fqdn m))"
proof -
  obtain rdp d1 where rr: "dns_rr None svc_type DNS_TYPE_PTR DNS_CLASS_IN ttl d = (rdp, d1)" by (cases "dns_rr None svc_type DNS_TYPE_PTR DNS_CLASS_IN ttl d")
  let ?rdata = "name_bytes (labels (inst_fqdn m))" and ?ow = "owner_bytes None svc_type"
  let ?body = "rr_bytes ?ow DNS_TYPE_PTR DNS_CLASS_IN ttl ?rdata"
  have ow: "length ?ow = 21" using name_lengths(1) [OF m] by (simp add: owner_bytes_def)
  have nm: "join_dots [] (labels svc_type) = ''_sdr-slc._tcp.local''" by (simp add: name_labels(1) [OF m])
  from built_record [OF b _ names_ok(1) [OF m] _ rr, of ?rdata] obtain d' where d':
    "dns_patch_rdlen rdp (puts ?rdata d1) = Some d'" "built d' ?body [rr_ptr m ttl]"
    using name_lengths(2) [OF m] ow nm by (auto simp: rr_ptr_def)
  have "d_buf d = replicate 12 0" using b by (simp add: built_def)
  then have pos: "dns_pos d1 = 12 + length ?ow + 10"
    using rr ow by (auto simp: dns_rr_bytes puts_fits dns_pos_def DNS_CAP_def)
  have "named ?body (Some (dns_pos d1)) (labels (inst_fqdn m))"
    using ow by (intro namedI [of _ "?ow @ be16 DNS_TYPE_PTR @ be16 DNS_CLASS_IN @ be32 ttl @ be16 (of_nat (length ?rdata))" _ "[]"])
      (simp_all add: pos rr_bytes_def)
  moreover have "part_ptr m ttl d = Some (Some (dns_pos d1), d')" using rr d' by (simp add: part_ptr_def dns_name_bytes)
  ultimately show ?thesis using d' name_lengths(2) [OF m] ow by (auto simp: rr_length)
qed

lemma part_srv_ok:
  assumes m: "publishable m" and b: "built d body rs" and nm: "named body inst (labels (inst_fqdn m))" and fit: "length body \<le> 116"
  shows "\<exists>inst' host d' body'. part_srv m ttl inst d = Some (inst', host, d') \<and> built d' body' (rs @ [rr_srv m ttl])
    \<and> length body' \<le> 300 \<and> named body' inst' (labels (inst_fqdn m)) \<and> named body' host (labels (host_fqdn m))"
proof -
  let ?rr = "dns_rr inst (inst_fqdn m) DNS_TYPE_SRV (DNS_CLASS_IN OR DNS_CACHE_FLUSH) ttl d"
  obtain rdp d1 where rr: "?rr = (rdp, d1)" by (cases ?rr)
  let ?head = "be16 0 @ be16 0 @ be16 (md_port m)" and ?host = "name_bytes (labels (host_fqdn m))" and ?ow = "owner_bytes inst (inst_fqdn m)"
  let ?x = "rr_bytes ?ow DNS_TYPE_SRV (DNS_CLASS_IN OR DNS_CACHE_FLUSH) ttl (?head @ ?host)"
  have ow: "length ?ow \<le> 85" using name_lengths(2) [OF m] by (simp add: owner_bytes_def ptr_bytes_def split: option.split)
  have nm': "join_dots [] (labels (inst_fqdn m)) = md_instance m @ ''._sdr-slc._tcp.local''"
    using m by (simp add: name_labels(2) [OF m] publishable_def label_ok_def)
  from built_record [OF b nm names_ok(2) [OF m] _ rr, of "?head @ ?host"] obtain d' where d':
    "dns_patch_rdlen rdp (puts (?head @ ?host) d1) = Some d'" "built d' (body @ ?x) (rs @ [rr_srv m ttl])"
    using name_lengths(3) [OF m] ow nm' fit by (auto simp: rr_srv_def FLUSH_IN_def)
  have buf: "d_buf d = replicate 12 0 @ body" using b by (simp add: built_def)
  then have pos: "dns_pos (puts ?head d1) = 12 + length body + length ?ow + 10 + 6"
    using rr ow fit by (auto simp: dns_rr_bytes puts_fits dns_pos_def DNS_CAP_def)
  have "named (body @ ?x) (Some (dns_pos (puts ?head d1))) (labels (host_fqdn m))"
    using ow fit by (intro namedI [of _ "body @ ?ow @ be16 DNS_TYPE_SRV @ be16 (DNS_CLASS_IN OR DNS_CACHE_FLUSH) @ be32 ttl
        @ be16 (of_nat (length (?head @ ?host))) @ ?head" _ "[]"]) (simp_all add: pos rr_bytes_def)
  moreover have "named (body @ ?x) (case inst of None \<Rightarrow> Some (12 + length body) | ob \<Rightarrow> ob) (labels (inst_fqdn m))"
    using named_owner [OF nm, of DNS_TYPE_SRV _ ttl "?head @ ?host" "[]"] fit by simp
  moreover have "part_srv m ttl inst d = Some (case inst of None \<Rightarrow> Some (12 + length body) | ob \<Rightarrow> ob, Some (dns_pos (puts ?head d1)), d')"
    using rr d' by (simp add: part_srv_def dns_name_bytes put_bytes(2) Let_def dns_pos_def buf)
  ultimately show ?thesis using d' name_lengths(3) [OF m] ow fit by (auto simp: rr_length)
qed

lemma part_txt_ok:
  assumes m: "publishable m" and b: "built d body rs" and nm: "named body inst (labels (inst_fqdn m))" and fit: "length body \<le> 300"
  shows "\<exists>inst' d' body'. part_txt m ttl inst d = Some (inst', d') \<and> built d' body' (rs @ [rr_txt m ttl])
    \<and> length body' \<le> 895 \<and> prefix body body'"
proof -
  let ?rr = "dns_rr inst (inst_fqdn m) DNS_TYPE_TXT (DNS_CLASS_IN OR DNS_CACHE_FLUSH) ttl d"
  obtain rdp d1 where rr: "?rr = (rdp, d1)" by (cases ?rr)
  let ?txt = "concat (map label_bytes (md_txt m))" and ?ow = "owner_bytes inst (inst_fqdn m)"
  have ow: "length ?ow \<le> 85" using name_lengths(2) [OF m] by (simp add: owner_bytes_def ptr_bytes_def split: option.split)
  have tx: "length ?txt \<le> 500" using m by (simp add: publishable_def)
  have nm': "join_dots [] (labels (inst_fqdn m)) = md_instance m @ ''._sdr-slc._tcp.local''"
    using m by (simp add: name_labels(2) [OF m] publishable_def label_ok_def)
  have "length body + length ?ow + 10 + length ?txt \<le> 1012" using ow tx fit by linarith
  from built_record [OF b nm names_ok(2) [OF m] this rr] obtain d' where d':
    "dns_patch_rdlen rdp (puts ?txt d1) = Some d'" "built d' (body @ rr_bytes ?ow DNS_TYPE_TXT FLUSH_IN ttl ?txt) (rs @ [rr_txt m ttl])"
    unfolding rr_txt_def FLUSH_IN_def nm' by blast
  moreover have "length (body @ rr_bytes ?ow DNS_TYPE_TXT FLUSH_IN ttl ?txt) \<le> 895"
    using ow tx fit unfolding length_append rr_length by linarith
  moreover obtain inst' where "part_txt m ttl inst d = Some (inst', d')"
    using rr d'(1) by (simp add: part_txt_def Let_def put_txt_bytes)
  ultimately show ?thesis by (meson prefixI)
qed

lemma part_a_ok:
  assumes m: "publishable m" and b: "built d body rs" and nm: "named body host (labels (host_fqdn m))" and fit: "length body \<le> 925"
  shows "\<exists>d' body'. part_a m ttl host d = Some d' \<and> built d' body' (rs @ [rr_a m ttl]) \<and> length body' \<le> 1012"
proof -
  let ?rr = "dns_rr host (host_fqdn m) DNS_TYPE_A (DNS_CLASS_IN OR DNS_CACHE_FLUSH) ttl d"
  obtain rdp d1 where rr: "?rr = (rdp, d1)" by (cases ?rr)
  let ?ip = "[ucast (md_ip m), ucast (drop_bit 8 (md_ip m)), ucast (drop_bit 16 (md_ip m)), ucast (drop_bit 24 (md_ip m))] :: u8 list"
  have ow: "length (owner_bytes host (host_fqdn m)) \<le> 71"
    using name_lengths(3) [OF m] by (simp add: owner_bytes_def ptr_bytes_def split: option.split)
  have nm': "join_dots [] (labels (host_fqdn m)) = md_instance m @ ''.local''"
    using m by (simp add: name_labels(3) [OF m] publishable_def label_ok_def)
  let ?body = "body @ rr_bytes (owner_bytes host (host_fqdn m)) DNS_TYPE_A (DNS_CLASS_IN OR DNS_CACHE_FLUSH) ttl ?ip"
  from built_record [OF b nm names_ok(3) [OF m] _ rr, of ?ip] obtain d' where d':
    "dns_patch_rdlen rdp (puts ?ip d1) = Some d'" "built d' ?body (rs @ [rr_a m ttl])"
    using ow fit by (auto simp: rr_a_def FLUSH_IN_def nm')
  moreover have "length ?body \<le> 1012" using ow fit by (simp add: rr_length)
  moreover have "part_a m ttl host d = Some d'" using rr d'(1) by (simp add: part_a_def Let_def)
  ultimately show ?thesis by blast
qed

lemma named_prefix: "named body off ls \<Longrightarrow> prefix body body' \<Longrightarrow> named body' off ls"
  by (auto simp: prefix_def named_append)

text \<open>Every response is built without overflow, and a reader finds in it the records it should carry.\<close>

definition dns_head :: "nat \<Rightarrow> u8 list" where
  "dns_head n = [0, 0, 0x84, 0, 0, 0, of_nat (n div 256), of_nat n, 0, 0, 0, 0]"

lemma dns_header_bytes: "d_buf d = replicate 12 0 @ b \<Longrightarrow> dns_header n d = d\<lparr>d_buf := dns_head n @ b\<rparr>"
proof -
  have "replicate 12 (0 :: u8) = [0, 0, 0, 0, 0, 0, 0, 0, 0, 0, 0, 0]" by (simp add: eval_nat_numeral)
  then show "d_buf d = replicate 12 0 @ b \<Longrightarrow> dns_header n d = d\<lparr>d_buf := dns_head n @ b\<rparr>"
    by (simp add: dns_header_def dns_head_def)
qed

lemma count_expected: "count_answers which = length (expected which ttl m)"
  by (simp add: count_answers_def expected_def)

lemma send_records_read:
  assumes m: "publishable m" and sock: "md_sock m"
  shows "\<exists>body. send_records which ttl m = Some [dns_head (length (expected which ttl m)) @ body]
    \<and> length body \<le> 1012 \<and> good body (expected which ttl m)"
proof -
  have b0: "built dns_init [] []" by (simp add: built_def dns_init_def)
  obtain inst1 d1 b1 where 1: "(if wants which R_PTR then part_ptr m ttl dns_init else Some (None, dns_init)) = Some (inst1, d1)"
    "built d1 b1 (if wants which R_PTR then [rr_ptr m ttl] else [])" "length b1 \<le> 116" "named b1 inst1 (labels (inst_fqdn m))"
    using part_ptr_ok [OF m b0, of ttl] b0 by (cases "wants which R_PTR") fastforce+
  obtain inst2 host d2 b2 where 2: "(if wants which R_SRV then part_srv m ttl inst1 d1 else Some (inst1, None, d1)) = Some (inst2, host, d2)"
    "built d2 b2 ((if wants which R_PTR then [rr_ptr m ttl] else []) @ (if wants which R_SRV then [rr_srv m ttl] else []))"
    "length b2 \<le> 300" "named b2 inst2 (labels (inst_fqdn m))" "named b2 host (labels (host_fqdn m))"
    using part_srv_ok [OF m 1(2) 1(4,3), of ttl] 1 by (cases "wants which R_SRV") fastforce+
  obtain inst3 d3 b3 where 3: "(if wants which R_TXT then part_txt m ttl inst2 d2 else Some (inst2, d2)) = Some (inst3, d3)"
    "built d3 b3 (((if wants which R_PTR then [rr_ptr m ttl] else []) @ (if wants which R_SRV then [rr_srv m ttl] else []))
       @ (if wants which R_TXT then [rr_txt m ttl] else []))" "length b3 \<le> 895" "named b3 host (labels (host_fqdn m))"
    using part_txt_ok [OF m 2(2) 2(4,3), of ttl] 2 named_prefix [OF 2(5)] by (cases "wants which R_TXT") fastforce+
  have "length b3 \<le> 925" using 3(3) by simp
  note a = part_a_ok [OF m 3(2) 3(4) this, of ttl]
  obtain d4 b4 where 4: "(if wants which R_A then part_a m ttl host d3 else Some d3) = Some d4" "built d4 b4 (expected which ttl m)"
    "length b4 \<le> 1012"
    using a 3(2,3) by (cases "wants which R_A") (auto simp: expected_def)
  then have buf: "d_buf d4 = replicate 12 0 @ b4" "\<not> d_overflow d4" by (simp_all add: built_def)
  have "send_records which ttl m = Some [dns_head (length (expected which ttl m)) @ b4]"
    using sock 1(1) 2(1) 3(1) 4(1) buf(2) dns_header_bytes [OF buf(1)]
    by (simp add: send_records_def count_expected [of which ttl m, symmetric])
  then show ?thesis using 4 by (auto simp: built_def)
qed

text \<open>What is published at the start and withdrawn at the end.\<close>

lemma expected_all: "expected R_ALL ttl m = [rr_ptr m ttl, rr_srv m ttl, rr_txt m ttl, rr_a m ttl]"
  by (simp add: expected_def wants_def R_ALL_def R_PTR_def R_SRV_def R_TXT_def R_A_def)

lemma read_good: "good body rs \<Longrightarrow> read_rrs (dns_head n @ body) (length rs) 12 = Some (rs, length (dns_head n @ body))"
proof -
  have "length (dns_head n) = 12" by (simp add: dns_head_def)
  then show "good body rs \<Longrightarrow> ?thesis" unfolding good_def by (metis append_Nil2 length_append)
qed

section \<open>Queries answered\<close>

text \<open>A query with one question.\<close>

definition query_head :: "u8 list" where
  "query_head = [0, 0, 0, 0, 0, 1, 0, 0, 0, 0, 0, 0]"

definition query_bytes :: "string list \<Rightarrow> u16 \<Rightarrow> u8 list" where
  "query_bytes ls qtype = query_head @ name_bytes ls @ be16 qtype @ be16 DNS_CLASS_IN"

lemma query_head_length [simp]: "length query_head = 12"
  by (simp add: query_head_def)

lemma query_answered:
  assumes "name_ok ls"
  shows "records_for_query m (query_bytes ls qtype) = asks m (cstr (join_dots [] ls)) qtype"
proof -
  let ?q = "query_bytes ls qtype"
  have rd: "dns_read_name ?q 256 12 = Some (join_dots [] ls, 12 + length (name_bytes ls))"
    using read_written_name [OF assms, of query_head "be16 qtype @ be16 DNS_CLASS_IN"] by (simp add: query_bytes_def)
  have ty: "get16 ?q (12 + length (name_bytes ls)) = qtype"
    using get16_be16 [of "query_head @ name_bytes ls" qtype "be16 DNS_CLASS_IN"] by (simp add: query_bytes_def)
  have len: "length ?q = 12 + length (name_bytes ls) + 4" by (simp add: query_bytes_def)
  have "questions m ?q 1 12 0 = asks m (cstr (join_dots [] ls)) qtype"
    using ty by (simp add: rd len get16_def)
  moreover have "?q ! 2 = 0" "?q ! 4 = 0" "?q ! 5 = 1" by (simp_all add: query_bytes_def query_head_def)
  then have "records_for_query m ?q = questions m ?q 1 12 0" using len by (simp add: records_for_query_def)
  ultimately show ?thesis by simp
qed

lemma browse_query: "asks m ''_sdr-slc._tcp.local'' DNS_TYPE_PTR = R_ALL"
  by (simp add: asks_def strcasecmp_eq_def snprintf_fits SLC_SERVICE_TYPE_def)

lemma browse_answered: "records_for_query m (query_bytes [''_sdr-slc'', ''_tcp'', ''local''] DNS_TYPE_PTR) = R_ALL"
proof -
  have "name_ok [''_sdr-slc'', ''_tcp'', ''local'']" by (simp add: name_ok_def label_ok_def)
  from query_answered [OF this, of m DNS_TYPE_PTR] show ?thesis by (simp add: browse_query cstr_id)
qed

section \<open>The reader is bounded\<close>

text \<open>Whatever the packet, the name read fits the caller's buffer.\<close>

lemma read_name_length: "read_name g buf cap p ret out = Some (s, q) \<Longrightarrow> length out < cap \<Longrightarrow> length s < cap"
proof (induction g arbitrary: p ret out)
  case (Suc g)
  let ?n = "unat (buf ! p)" and ?l = "map (\<lambda>b. char_of (unat b)) (take (unat (buf ! p)) (drop (Suc p) buf))"
  consider (stop) "s = out" | (jump) p' ret' where "read_name g buf cap p' ret' out = Some (s, q)"
    | (label) "length out + ?n + 2 \<le> cap" "read_name g buf cap (Suc p + ?n) ret (out @ (if out = [] then [] else ''.'') @ ?l) = Some (s, q)"
    using Suc.prems(1) by (auto simp: Let_def split: if_splits)
  then show ?case
  proof cases
    case label
    have "length (out @ (if out = [] then [] else ''.'') @ ?l) < cap" using label(1) by (simp add: min_def)
    from Suc.IH [OF label(2) this] show ?thesis .
  qed (use Suc in auto)
qed simp

end
