(* ===== verification/Mdns.thy ===== *)
theory Mdns
  imports Mdns_Avahi Mdns_Readback
begin

text \<open>
  The dispatcher of \<open>common/mdns.c\<close> over its two backends. \<open>avahi_in\<close> says whether the Avahi backend is compiled in
  (\<open>SLC_MDNS_AVAHI\<close>). What the daemon relies on is the locale \<open>publisher\<close>: stopping withdraws the publication, and a
  second stop does nothing. Both backends and the dispatcher itself are instances.
\<close>

section \<open>The dispatcher\<close>

text \<open>What the system answers to the builtin responder: its interfaces, and whether socket, bind and thread succeed.\<close>

record mdns_env =
  mn_ifaddrs :: "ifaddr list option"
  mn_socket :: bool
  mn_bind :: bool
  mn_thread :: bool

record 'a dispatcher =
  dp_avahi :: bool
  dp_iface :: string
  dp_builtin :: mdns
  dp_av :: "'a avahi"

definition dispatcher_globals :: "'a \<Rightarrow> 'a dispatcher" where
  "dispatcher_globals a = \<lparr>dp_avahi = False, dp_iface = [], dp_builtin = mdns_globals, dp_av = avahi_globals a\<rparr>"

definition mdns_set_backend :: "bool \<Rightarrow> string \<Rightarrow> string option \<Rightarrow> 'a dispatcher \<Rightarrow> int \<times> 'a dispatcher" where
  "mdns_set_backend avahi_in name iface s =
     (let s = (case iface of None \<Rightarrow> s | Some i \<Rightarrow> s\<lparr>dp_iface := snprintf 32 i\<rparr>) in
      if name = ''builtin'' then (0, s\<lparr>dp_avahi := False\<rparr>)
      else if name = ''avahi'' then (if avahi_in then (0, s\<lparr>dp_avahi := True\<rparr>) else (- 1, s))
      else (- 1, s))"

definition mdns_backend :: "'a dispatcher \<Rightarrow> string" where
  "mdns_backend s = (if dp_avahi s then ''avahi'' else ''builtin'')"

definition mdns_backends_available :: "bool \<Rightarrow> string" where
  "mdns_backends_available avahi_in = (if avahi_in then ''builtin, avahi'' else ''builtin'')"

text \<open>The packets are those of the builtin responder; \<open>None\<close> as there.\<close>

definition mdns_start ::
    "bool \<Rightarrow> 'a libavahi \<Rightarrow> mdns_env \<Rightarrow> string \<Rightarrow> u16 \<Rightarrow> mdns_txt_t \<Rightarrow> 'a dispatcher \<Rightarrow> (int \<times> 'a dispatcher \<times> u8 list list) option" where
  "mdns_start avahi_in lib e instance' port txts s =
     (if avahi_in \<and> dp_avahi s
      then case mdns_avahi_start lib instance' port txts (dp_av s) of (rc, m) \<Rightarrow> Some (rc, s\<lparr>dp_av := m\<rparr>, [])
      else do {
        (rc, m, ps) \<leftarrow> mdns_builtin_start (mn_ifaddrs e) (mn_socket e) (mn_bind e) (mn_thread e) (dp_iface s) instance' port txts
                         (dp_builtin s);
        Some (rc, s\<lparr>dp_builtin := m\<rparr>, ps)
      })"

definition mdns_stop :: "bool \<Rightarrow> 'a libavahi \<Rightarrow> 'a dispatcher \<Rightarrow> ('a dispatcher \<times> u8 list list) option" where
  "mdns_stop avahi_in lib s =
     (if avahi_in \<and> dp_avahi s then Some (s\<lparr>dp_av := mdns_avahi_stop lib (dp_av s)\<rparr>, [])
      else do { (m, ps) \<leftarrow> mdns_builtin_stop (dp_builtin s); Some (s\<lparr>dp_builtin := m\<rparr>, ps) })"

definition mdns_published :: "bool \<Rightarrow> 'a dispatcher \<Rightarrow> bool" where
  "mdns_published avahi_in s =
     (if avahi_in \<and> dp_avahi s then mdns_avahi_published (dp_av s) else mdns_builtin_published (dp_builtin s))"

section \<open>The interface of a publisher\<close>

locale publisher =
  fixes ok published :: "'s \<Rightarrow> bool" and stop :: "'s \<Rightarrow> ('s \<times> 'p list) option"
  assumes stop_withdraws: "ok s \<Longrightarrow> stop s = Some (s', ps) \<Longrightarrow> ok s' \<and> \<not> published s'"
    and stop_again: "ok s \<Longrightarrow> stop s = Some (s', ps) \<Longrightarrow> stop s' = Some (s', [])"
begin

lemma stopped_for_good: "ok s \<Longrightarrow> stop s = Some (s', ps) \<Longrightarrow> stop s' = Some (s'', qs) \<Longrightarrow> s'' = s' \<and> qs = [] \<and> \<not> published s''"
  using stop_withdraws [of s s' ps] stop_again [of s s' ps] by simp

end

definition builtin_ok :: "mdns \<Rightarrow> bool" where
  "builtin_ok m \<longleftrightarrow> (md_published m \<longrightarrow> md_sock m)"

interpretation builtin_publisher: publisher builtin_ok mdns_builtin_published mdns_builtin_stop
  by unfold_locales (auto simp: builtin_ok_def mdns_builtin_published_def mdns_builtin_stop_def split: if_splits bind_splits)

interpretation avahi_publisher: publisher avahi_ok mdns_avahi_published "\<lambda>m. Some (mdns_avahi_stop lib m, [] :: u8 list list)"
  by unfold_locales (auto simp: avahi_ok_def mdns_avahi_published_def avahi_stopped avahi_stop_idle)

definition dispatcher_ok :: "'a dispatcher \<Rightarrow> bool" where
  "dispatcher_ok s \<longleftrightarrow> builtin_ok (dp_builtin s) \<and> avahi_ok (dp_av s)"

interpretation dispatch_publisher: publisher dispatcher_ok "mdns_published avahi_in" "mdns_stop avahi_in lib"
proof unfold_locales
  fix s s' :: "'a dispatcher" and ps
  assume ok: "dispatcher_ok s" and st: "mdns_stop avahi_in lib s = Some (s', ps)"
  show "dispatcher_ok s' \<and> \<not> mdns_published avahi_in s'" "mdns_stop avahi_in lib s' = Some (s', [])"
  proof (atomize (full), cases "avahi_in \<and> dp_avahi s")
    case True
    then have "s' = s\<lparr>dp_av := mdns_avahi_stop lib (dp_av s)\<rparr>" using st by (simp add: mdns_stop_def)
    then show "(dispatcher_ok s' \<and> \<not> mdns_published avahi_in s') \<and> mdns_stop avahi_in lib s' = Some (s', [])"
      using True ok avahi_publisher.stop_withdraws [of "dp_av s"] avahi_publisher.stop_again [of "dp_av s" lib]
      by (simp add: mdns_stop_def mdns_published_def dispatcher_ok_def)
  next
    case False
    then obtain m where m: "mdns_builtin_stop (dp_builtin s) = Some (m, ps)" "s' = s\<lparr>dp_builtin := m\<rparr>"
      using st by (auto simp: mdns_stop_def split: bind_splits)
    moreover have "builtin_ok m" "\<not> mdns_builtin_published m" "mdns_builtin_stop m = Some (m, [])"
      using builtin_publisher.stop_withdraws [OF _ m(1)] builtin_publisher.stop_again [OF _ m(1)] ok
      by (simp_all add: dispatcher_ok_def)
    ultimately show "(dispatcher_ok s' \<and> \<not> mdns_published avahi_in s') \<and> mdns_stop avahi_in lib s' = Some (s', [])"
      using False ok by (auto simp: mdns_stop_def mdns_published_def dispatcher_ok_def)
  qed
qed

lemma builtin_start_ok: "mdns_builtin_start ifs so bi th iface inst port txts m = Some (rc, m', ps) \<Longrightarrow> \<not> md_published m \<Longrightarrow> builtin_ok m'"
  by (auto simp: mdns_builtin_start_def builtin_ok_def Let_def split: if_splits option.splits bind_splits)

lemma mdns_start_ok:
  assumes "mdns_start avahi_in lib e inst port txts s = Some (rc, s', ps)" and "\<not> md_published (dp_builtin s)" and "\<not> av_published (dp_av s)"
  shows "dispatcher_ok s'"
  using assms builtin_start_ok avahi_start_service(1) [of lib inst port txts "dp_av s"]
  by (auto simp: mdns_start_def dispatcher_ok_def builtin_ok_def avahi_ok_def split: if_splits prod.splits bind_splits)

section \<open>An Avahi daemon that is up\<close>

text \<open>The library over one bit: whether the entry group holds a service.\<close>

definition up_avahi :: "bool libavahi" where
  "up_avahi = \<lparr>lib_poll_new = \<lambda>a. (True, a), lib_poll_start = \<lambda>a. (0, a), lib_poll_stop = id, lib_poll_free = id,
     lib_client_new = \<lambda>a. (True, [AVAHI_CLIENT_S_RUNNING], a), lib_client_free = id, lib_group_new = \<lambda>a. (True, False),
     lib_group_is_empty = Not, lib_group_add_service = \<lambda>_ _ _ _ _. (0, True), lib_group_commit = \<lambda>a. (0, a),
     lib_group_reset = \<lambda>_. False, lib_group_free = \<lambda>_. False\<rparr>"

definition demo_txt :: mdns_txt_t where
  "demo_txt = \<lparr>txt_name = ''SLC-1'', txt_proto = ''sdr-slc'', txt_proto_ver = ''1.0'', txt_functions = ''rx'', txt_hw = ''h'',
     txt_fw = ''f'', txt_minhz = 1, txt_maxhz = 2\<rparr>"

definition demo_av :: "bool avahi" where
  "demo_av = snd (mdns_avahi_start up_avahi ''SLC-1'' 4620 demo_txt (avahi_globals False))"

lemma demo_av_starts: "mdns_avahi_start up_avahi ''SLC-1'' 4620 demo_txt (avahi_globals False) = (0, demo_av)"
  by (simp add: demo_av_def mdns_avahi_start_def up_avahi_def avahi_globals_def client_cb_def publish_service_def new_group_def Let_def)

text \<open>
  C36: The Avahi backend never renames the radio: whatever states the library reports after a start, collisions and restarts of
  the Avahi daemon included, every service it hands over has the instance name, port and TXT strings it was started with, it
  counts as published only while it owns an entry group, and a stop leaves no group, client or poll and nothing published.
\<close>

theorem avahi_never_renames:
  assumes "mdns_avahi_start lib inst port txts (avahi_globals a) = (0, m)" and "(avahi_event lib)\<^sup>*\<^sup>* m m'"
  shows "set (av_added m') \<subseteq> {(snprintf 64 inst, SLC_SERVICE_TYPE, port, txt_strings txts)} \<and> av_instance m' = snprintf 64 inst
    \<and> (av_published m' \<longrightarrow> av_group m')
    \<and> \<not> av_published (mdns_avahi_stop lib m') \<and> \<not> av_group (mdns_avahi_stop lib m') \<and> \<not> av_client (mdns_avahi_stop lib m')
    \<and> \<not> av_poll (mdns_avahi_stop lib m')"
proof -
  have "\<not> av_published (avahi_globals a)" by (simp add: avahi_globals_def)
  note st = avahi_start_service [OF assms(1) this]
  have ev: "avahi_ok m'" "same_service m m'" using avahi_events_ok [OF assms(2) st(1)] by simp_all
  obtain n where "av_added m = replicate n (snprintf 64 inst, SLC_SERVICE_TYPE, port, txt_strings txts)"
    using st(2) by (auto simp: avahi_globals_def)
  with ev st(3) show ?thesis by (auto simp: same_service_def avahi_ok_def avahi_stopped)
qed

theorem avahi_never_renames_witness:
  "av_published (group_cb AVAHI_ENTRY_GROUP_ESTABLISHED demo_av)
    \<and> set (av_added (group_cb AVAHI_ENTRY_GROUP_ESTABLISHED demo_av)) \<subseteq> {(''SLC-1'', SLC_SERVICE_TYPE, 4620, txt_strings demo_txt)}"
proof -
  have "av_group demo_av"
    by (simp add: demo_av_def mdns_avahi_start_def up_avahi_def avahi_globals_def client_cb_def publish_service_def new_group_def Let_def)
  then have "(avahi_event up_avahi)\<^sup>*\<^sup>* demo_av (group_cb AVAHI_ENTRY_GROUP_ESTABLISHED demo_av)"
    by (intro r_into_rtranclp avahi_event.group)
  from avahi_never_renames [OF demo_av_starts this] show ?thesis by (simp add: snprintf_def group_cb_def)
qed

section \<open>What the network sees\<close>

lemma four: "Suc (Suc (Suc (Suc 0))) = 4"
  by simp

text \<open>The flags of the module do not show in what it sends.\<close>

lemma send_records_flags:
  "send_records which ttl (m\<lparr>md_published := b\<rparr>) = send_records which ttl m"
  "send_records which ttl (m\<lparr>md_running := b\<rparr>) = send_records which ttl m"
  by (simp_all add: send_records_def part_ptr_def part_srv_def part_txt_def part_a_def inst_fqdn_def host_fqdn_def)

lemma send_all_read:
  assumes "publishable m" and "md_sock m"
  shows "\<exists>p. send_records R_ALL ttl m = Some [p] \<and> length p \<le> 1024
    \<and> read_rrs p 4 12 = Some ([rr_ptr m ttl, rr_srv m ttl, rr_txt m ttl, rr_a m ttl], length p)"
proof -
  obtain body where b: "send_records R_ALL ttl m = Some [dns_head 4 @ body]" "length body \<le> 1012"
    "good body [rr_ptr m ttl, rr_srv m ttl, rr_txt m ttl, rr_a m ttl]"
    using send_records_read [OF assms, of R_ALL ttl] by (auto simp: expected_all four)
  have "length (dns_head 4) = 12" by (simp add: dns_head_def)
  moreover have "read_rrs (dns_head 4 @ body) 4 12 = Some ([rr_ptr m ttl, rr_srv m ttl, rr_txt m ttl, rr_a m ttl], length (dns_head 4 @ body))"
    using read_good [OF b(3), of 4] by (simp add: four del: read_rrs.simps length_append)
  ultimately show ?thesis using b by (intro exI [of _ "dns_head 4 @ body"]) (simp del: read_rrs.simps)
qed

lemma builtin_start_state:
  assumes "mdns_builtin_start ifs so bi th iface inst port txts mdns_globals = Some (0, m, ps)"
  shows "md_sock m" "md_published m" "md_instance m = snprintf 64 inst" "md_port m = port" "md_txt m = txt_strings txts"
    and "send_records R_ALL MDNS_TTL m = Some ps"
  using assms by (auto simp: mdns_builtin_start_def Let_def send_records_flags split: if_splits option.splits bind_splits)

text \<open>
  C35: A publication that starts announces the service in one packet that fits its buffer and that a reader decodes, compression
  pointers followed, into the PTR, SRV, TXT and A records of the configured instance, port and TXT strings with the full
  lifetime; and stopping it sends the same four records with lifetime 0 and leaves nothing published.
\<close>

theorem publication_announced_and_withdrawn:
  assumes "mdns_builtin_start ifs so bi th iface inst port txts mdns_globals = Some (0, m, ps)"
    and "label_ok inst" and "CHR ''.'' \<notin> set inst" and "length (concat (map label_bytes (txt_strings txts))) \<le> 500"
  shows "md_instance m = inst \<and> md_port m = port \<and> md_txt m = txt_strings txts
    \<and> (\<exists>p. ps = [p] \<and> length p \<le> 1024
         \<and> read_rrs p 4 12 = Some ([rr_ptr m MDNS_TTL, rr_srv m MDNS_TTL, rr_txt m MDNS_TTL, rr_a m MDNS_TTL], length p))
    \<and> (\<exists>m' g. mdns_builtin_stop m = Some (m', [g]) \<and> \<not> mdns_builtin_published m' \<and> \<not> md_sock m'
         \<and> read_rrs g 4 12 = Some ([rr_ptr m 0, rr_srv m 0, rr_txt m 0, rr_a m 0], length g))"
proof -
  note st = builtin_start_state [OF assms(1)]
  have inst: "md_instance m = inst" using st(3) assms(2) by (simp add: label_ok_def snprintf_fits)
  then have "publishable m" using assms st(5) by (simp add: publishable_def)
  then obtain p g where "send_records R_ALL MDNS_TTL m = Some [p]" "length p \<le> 1024"
    "read_rrs p 4 12 = Some ([rr_ptr m MDNS_TTL, rr_srv m MDNS_TTL, rr_txt m MDNS_TTL, rr_a m MDNS_TTL], length p)"
    "send_records R_ALL 0 m = Some [g]" "read_rrs g 4 12 = Some ([rr_ptr m 0, rr_srv m 0, rr_txt m 0, rr_a m 0], length g)"
    using send_all_read [OF _ st(1)] by metis
  then show ?thesis using st inst by (simp add: mdns_builtin_stop_def mdns_builtin_published_def)
qed

lemma demo_txt_small: "length (concat (map label_bytes (txt_strings demo_txt))) \<le> 500"
  by code_simp

lemma demo_label: "label_ok ''SLC-1''" "CHR ''.'' \<notin> set ''SLC-1''"
  by (simp_all add: label_ok_def)

lemma demo_publication:
  "\<exists>m ps. mdns_builtin_start (Some [(''eth0'', False, 0x0100A8C0)]) True True True ''eth0'' ''SLC-1'' 4620 demo_txt mdns_globals = Some (0, m, ps)"
proof -
  define m where "m = mdns_globals\<lparr>md_instance := ''SLC-1'', md_iface := ''eth0'', md_port := 4620, md_txt := txt_strings demo_txt,
     md_ip := 0x0100A8C0, md_sock := True\<rparr>"
  have "publishable m" using demo_label demo_txt_small by (simp add: m_def publishable_def)
  with send_all_read [of m MDNS_TTL] obtain p where "send_records R_ALL MDNS_TTL m = Some [p]" by (auto simp: m_def)
  then show ?thesis by (simp add: mdns_builtin_start_def read_ipv4_def snprintf_def m_def Let_def)
qed

theorem publication_announced_and_withdrawn_witness:
  "\<exists>m ps. mdns_builtin_start (Some [(''eth0'', False, 0x0100A8C0)]) True True True ''eth0'' ''SLC-1'' 4620 demo_txt mdns_globals = Some (0, m, ps)
     \<and> md_instance m = ''SLC-1'' \<and> length ps = 1"
proof -
  obtain m ps where
    "mdns_builtin_start (Some [(''eth0'', False, 0x0100A8C0)]) True True True ''eth0'' ''SLC-1'' 4620 demo_txt mdns_globals = Some (0, m, ps)"
    using demo_publication by blast
  with publication_announced_and_withdrawn [OF this demo_label demo_txt_small] show ?thesis by auto
qed

text \<open>
  C33: A client that browses for the service, with the query of RFC 6763, gets one response and decodes from it all four records,
  so it can connect without asking again.
\<close>

theorem browse_answered_fully:
  assumes "publishable m" and "md_sock m"
  shows "\<exists>p. respond (query_bytes [''_sdr-slc'', ''_tcp'', ''local''] DNS_TYPE_PTR) m = Some [p]
    \<and> read_rrs p 4 12 = Some ([rr_ptr m MDNS_TTL, rr_srv m MDNS_TTL, rr_txt m MDNS_TTL, rr_a m MDNS_TTL], length p)"
proof -
  obtain p where "send_records R_ALL MDNS_TTL m = Some [p]"
    "read_rrs p 4 12 = Some ([rr_ptr m MDNS_TTL, rr_srv m MDNS_TTL, rr_txt m MDNS_TTL, rr_a m MDNS_TTL], length p)"
    using send_all_read [OF assms] by blast
  moreover have "R_ALL \<noteq> 0" by (simp add: R_ALL_def)
  ultimately show ?thesis by (simp add: respond_def browse_answered)
qed

definition demo_mdns :: mdns where
  "demo_mdns = mdns_globals\<lparr>md_sock := True, md_instance := ''SLC-1'', md_port := 4620, md_txt := txt_strings demo_txt\<rparr>"

lemma demo_mdns_ok: "publishable demo_mdns" "md_sock demo_mdns"
  using demo_label demo_txt_small by (simp_all add: demo_mdns_def publishable_def)

theorem browse_answered_fully_witness:
  "\<exists>p. respond (query_bytes [''_sdr-slc'', ''_tcp'', ''local''] DNS_TYPE_PTR) demo_mdns = Some [p]
    \<and> read_rrs p 4 12 = Some ([rr_ptr demo_mdns MDNS_TTL, rr_srv demo_mdns MDNS_TTL, rr_txt demo_mdns MDNS_TTL, rr_a demo_mdns MDNS_TTL], length p)"
  by (rule browse_answered_fully [OF demo_mdns_ok])

text \<open>
  C34: Whatever datagram arrives, the responder stays inside its buffers and sends at most one packet of at most 1024 bytes; it
  answers no datagram marked as a response, whatever questions that carries, and nothing it sends itself is ever answered, so
  two responders cannot keep each other busy.
\<close>

theorem responder_never_loops:
  assumes "publishable m" and "md_sock m"
  shows "(\<exists>ps. respond rx m = Some ps \<and> length ps \<le> 1 \<and> (\<forall>p \<in> set ps. length p \<le> 1024 \<and> respond p m' = Some []))
    \<and> (rx ! 2 AND 0x80 \<noteq> 0 \<longrightarrow> respond rx m = Some [])"
proof (cases "records_for_query m rx = 0")
  case False
  obtain body where b: "send_records (records_for_query m rx) MDNS_TTL m
      = Some [dns_head (length (expected (records_for_query m rx) MDNS_TTL m)) @ body]" "length body \<le> 1012"
    using send_records_read [OF assms] by blast
  have "records_for_query m' (dns_head n @ body) = 0" for n by (simp add: records_for_query_def dns_head_def)
  moreover have "rx ! 2 AND 0x80 = 0" using False by (simp add: records_for_query_def split: if_splits)
  ultimately show ?thesis using False b by (simp add: respond_def Let_def) (simp add: dns_head_def)
qed (simp add: respond_def)

theorem responder_never_loops_witness:
  "\<exists>ps. respond [1, 2, 3] demo_mdns = Some ps \<and> length ps \<le> 1"
  using responder_never_loops [OF demo_mdns_ok, of "[1, 2, 3]" demo_mdns] by blast

end
