(* ===== verification/Logging.thy ===== *)
theory Logging
  imports C_Double
begin

text \<open>
  The tagged logger of \<open>common/log.c\<close>: the level filter, the mapping of levels to syslog priorities and the line
  written to \<open>stderr\<close>. The formatted body, before the buffer cuts it, and the clock are arguments; what leaves the
  process is the value returned.
\<close>

text \<open>The levels of \<open>log.h\<close> are the integers 0 to 4; the verbosity of the command line may exceed them.\<close>

definition LL_ERR :: int where "LL_ERR = 0"
definition LL_WARN :: int where "LL_WARN = 1"
definition LL_INFO :: int where "LL_INFO = 2"
definition LL_DEBUG :: int where "LL_DEBUG = 3"
definition LL_TRACE :: int where "LL_TRACE = 4"

datatype syslog_prio = LOG_ERR | LOG_WARNING | LOG_INFO | LOG_DEBUG

record logger =
  lg_level :: int
  lg_syslog :: bool

definition logger_globals :: logger where
  "logger_globals = \<lparr>lg_level = LL_INFO, lg_syslog = False\<rparr>"

definition log_init :: "int \<Rightarrow> bool \<Rightarrow> logger \<Rightarrow> logger" where
  "log_init level to_syslog g = g\<lparr>lg_level := level, lg_syslog := to_syslog\<rparr>"

definition log_set_level :: "int \<Rightarrow> logger \<Rightarrow> logger" where
  "log_set_level level g = g\<lparr>lg_level := level\<rparr>"

definition log_level :: "logger \<Rightarrow> int" where
  "log_level g = lg_level g"

definition to_syslog_prio :: "int \<Rightarrow> syslog_prio" where
  "to_syslog_prio level =
     (if level = LL_ERR then LOG_ERR else if level = LL_WARN then LOG_WARNING
      else if level = LL_INFO then LOG_INFO else LOG_DEBUG)"

definition lvl :: "string list" where
  "lvl = [''ERR '', ''WARN'', ''INFO'', ''DBG '', ''TRC '']"

datatype log_out = Syslog syslog_prio string | Stderr string

text \<open>\<open>None\<close>: an index outside the table of level names, which only a negative level would give.\<close>

definition log_msg :: "logger \<Rightarrow> string \<Rightarrow> nat \<Rightarrow> int \<Rightarrow> string \<Rightarrow> string \<Rightarrow> log_out list option" where
  "log_msg g stamp millis level tag formatted =
     (if lg_level g < level then Some []
      else let body = snprintf 2048 formatted in
        if lg_syslog g then Some [Syslog (to_syslog_prio level) (''['' @ tag @ ''] '' @ body)]
        else let k = (if LL_TRACE < level then LL_TRACE else level) in
          if k < 0 \<or> int (length lvl) \<le> k then None
          else Some [Stderr (stamp @ ''.'' @ pad_zero 3 (show_nat millis) @ ''Z '' @ lvl ! nat k @ '' ['' @ tag @ ''] '' @ body
                 @ [CHR 0x0A])])"

text \<open>Every level the sources use is inside the table, whatever the verbosity, and nothing above the level is written.\<close>

lemma log_msg_total: "0 \<le> level \<Longrightarrow> \<exists>out. log_msg g stamp ms level tag body = Some out \<and> length out \<le> 1"
  by (auto simp: log_msg_def lvl_def LL_TRACE_def Let_def)

lemma log_msg_filter:
  "0 \<le> level \<Longrightarrow> log_msg g stamp ms level tag body = Some [] \<longleftrightarrow> lg_level g < level"
  by (auto simp: log_msg_def lvl_def LL_TRACE_def Let_def)

end
