(* ===== verification/Command_Line.thy ===== *)
theory Command_Line
  imports Config Logging
begin

text \<open>
  The command line of \<open>main.c\<close>: the option table, \<open>getopt_long\<close> on it and the loop over the options it delivers. \<open>getopt_long\<close> is
  that of glibc with arguments permuted: long options by a unique prefix, values after \<open>=\<close> or as the next word, clusters of
  short options, \<open>--\<close> ending the options. What it prints about a bad option is not modelled.
\<close>

section \<open>Options\<close>

datatype main_opt =
    Opt_port string | Opt_rx_port string | Opt_iface string | Opt_name string | Opt_rx_auth string | Opt_keys_file string
  | Opt_normal | Opt_direct_i | Opt_direct_q | Opt_bias_tee | Opt_bias_tee_persist | Opt_agc | Opt_ppm string
  | Opt_gain string | Opt_u8_zero_point string | Opt_no_context_packets | Opt_no_mdns | Opt_mdns string | Opt_syslog
  | Opt_verbose | Opt_help | Opt_unknown

record main_opts =
  g_cp_port :: u16
  g_vita_src_port :: u16
  mo_iface :: "string option"
  mo_name :: "string option"
  mo_samp_mode :: sampling_mode_t
  mo_bias_tee :: bool
  mo_bias_persist :: bool
  mo_agc :: bool
  mo_ctx_packets :: bool
  mo_no_mdns :: bool
  mo_mdns_backend :: string
  mo_use_syslog :: bool
  mo_rx_auth :: bool
  mo_verbosity :: int
  mo_ppm :: int
  mo_gain_tenth :: int
  g_u8_zero_point :: double
  mo_keys_file :: string

definition SLC_DEFAULT_KEYS_FILE :: string where "SLC_DEFAULT_KEYS_FILE = ''/etc/sdr-slc/rtld.keys''"

definition main_defaults :: main_opts where
  "main_defaults = \<lparr>g_cp_port = CP_PORT_DEFAULT, g_vita_src_port = VITA_SRC_PORT_DEFAULT, mo_iface = None, mo_name = None,
     mo_samp_mode = SAMPLING_NORMAL, mo_bias_tee = False, mo_bias_persist = False, mo_agc = False, mo_ctx_packets = True,
     mo_no_mdns = False, mo_mdns_backend = ''builtin'', mo_use_syslog = False, mo_rx_auth = False, mo_verbosity = LL_INFO,
     mo_ppm = 0, mo_gain_tenth = RTL_DEFAULT_GAIN, g_u8_zero_point = RTL_U8_ZERO_POINT_DEFAULT,
     mo_keys_file = snprintf 512 SLC_DEFAULT_KEYS_FILE\<rparr>"

text \<open>The conversion \<open>(int) x\<close> of a double, undefined when the truncated value does not fit.\<close>

definition int_trunc :: "double \<Rightarrow> int option" where
  "int_trunc x =
     (case x of
        Fin q \<Rightarrow> let i = trunc q in if - (2 ^ 31) \<le> i \<and> i < 2 ^ 31 then Some i else None
      | _ \<Rightarrow> None)"

definition atoi :: "string \<Rightarrow> int" where
  "atoi s = to_int32 (strtol s)"

text \<open>One option: an exit code, or the settings afterwards; \<open>None\<close> is an undefined conversion.\<close>

definition main_option :: "main_opt \<Rightarrow> main_opts \<Rightarrow> (int + main_opts) option" where
  "main_option c o' =
     (case c of
        Opt_port s \<Rightarrow> Some (Inr (o'\<lparr>g_cp_port := of_int (atoi s)\<rparr>))
      | Opt_rx_port s \<Rightarrow> Some (Inr (o'\<lparr>g_vita_src_port := of_int (atoi s)\<rparr>))
      | Opt_iface s \<Rightarrow> Some (Inr (o'\<lparr>mo_iface := Some s\<rparr>))
      | Opt_name s \<Rightarrow> Some (Inr (o'\<lparr>mo_name := Some s\<rparr>))
      | Opt_rx_auth s \<Rightarrow>
          Some (if s = ''psk'' \<or> s = ''psk-hmac-sha256'' then Inr (o'\<lparr>mo_rx_auth := True\<rparr>)
                else if s = ''none'' then Inr (o'\<lparr>mo_rx_auth := False\<rparr>) else Inl 2)
      | Opt_keys_file s \<Rightarrow> Some (Inr (o'\<lparr>mo_keys_file := snprintf 512 s\<rparr>))
      | Opt_normal \<Rightarrow> Some (Inr (o'\<lparr>mo_samp_mode := SAMPLING_NORMAL\<rparr>))
      | Opt_direct_i \<Rightarrow> Some (Inr (o'\<lparr>mo_samp_mode := SAMPLING_DIRECT_I\<rparr>))
      | Opt_direct_q \<Rightarrow> Some (Inr (o'\<lparr>mo_samp_mode := SAMPLING_DIRECT_Q\<rparr>))
      | Opt_bias_tee \<Rightarrow> Some (Inr (o'\<lparr>mo_bias_tee := True\<rparr>))
      | Opt_bias_tee_persist \<Rightarrow> Some (Inr (o'\<lparr>mo_bias_tee := True, mo_bias_persist := True\<rparr>))
      | Opt_agc \<Rightarrow> Some (Inr (o'\<lparr>mo_agc := True\<rparr>))
      | Opt_ppm s \<Rightarrow> Some (Inr (o'\<lparr>mo_ppm := atoi s\<rparr>))
      | Opt_gain s \<Rightarrow> (case int_trunc (dmul (strtod s) (Fin 10)) of
                        None \<Rightarrow> None | Some g \<Rightarrow> Some (Inr (o'\<lparr>mo_gain_tenth := g\<rparr>)))
      | Opt_u8_zero_point s \<Rightarrow>
          let z = strtod s in
          Some (if dless z (Fin 96) \<or> dless (Fin 160) z then Inl 2 else Inr (o'\<lparr>g_u8_zero_point := z\<rparr>))
      | Opt_no_context_packets \<Rightarrow> Some (Inr (o'\<lparr>mo_ctx_packets := False\<rparr>))
      | Opt_no_mdns \<Rightarrow> Some (Inr (o'\<lparr>mo_no_mdns := True\<rparr>))
      | Opt_mdns s \<Rightarrow> Some (Inr (o'\<lparr>mo_mdns_backend := s\<rparr>))
      | Opt_syslog \<Rightarrow> Some (Inr (o'\<lparr>mo_use_syslog := True\<rparr>))
      | Opt_verbose \<Rightarrow> Some (Inr (o'\<lparr>mo_verbosity := mo_verbosity o' + 1\<rparr>))
      | Opt_help \<Rightarrow> Some (Inl 0)
      | Opt_unknown \<Rightarrow> Some (Inl 2))"

fun main_options :: "main_opt list \<Rightarrow> main_opts \<Rightarrow> (int + main_opts) option" where
  "main_options [] o' = Some (Inr o')"
| "main_options (c # cs) o' =
     (case main_option c o' of None \<Rightarrow> None | Some (Inl code) \<Rightarrow> Some (Inl code) | Some (Inr o'') \<Rightarrow> main_options cs o'')"

text \<open>\<open>leftover\<close> says whether an argument that is no option remains.\<close>

definition main_arguments :: "main_opt list \<Rightarrow> bool \<Rightarrow> (int + main_opts) option" where
  "main_arguments cs leftover =
     (case main_options cs main_defaults of
        Some (Inr o') \<Rightarrow> Some (if leftover then Inl 2 else Inr o')
      | r \<Rightarrow> r)"

section \<open>The option table and getopt\<close>

datatype opt_arg = no_argument main_opt | required_argument "string \<Rightarrow> main_opt"

definition opts :: "(string \<times> opt_arg) list" where
  "opts = [
     (''port'', required_argument Opt_port), (''rx-port'', required_argument Opt_rx_port), (''iface'', required_argument Opt_iface),
     (''name'', required_argument Opt_name), (''rx-auth'', required_argument Opt_rx_auth), (''keys-file'', required_argument Opt_keys_file),
     (''normal'', no_argument Opt_normal), (''direct-i'', no_argument Opt_direct_i), (''direct-q'', no_argument Opt_direct_q),
     (''bias-tee'', no_argument Opt_bias_tee), (''bias-tee-persist'', no_argument Opt_bias_tee_persist), (''agc'', no_argument Opt_agc),
     (''ppm'', required_argument Opt_ppm), (''gain'', required_argument Opt_gain), (''u8-zero-point'', required_argument Opt_u8_zero_point),
     (''no-context-packets'', no_argument Opt_no_context_packets), (''no-mdns'', no_argument Opt_no_mdns),
     (''mdns'', required_argument Opt_mdns), (''syslog'', no_argument Opt_syslog), (''verbose'', no_argument Opt_verbose),
     (''help'', no_argument Opt_help)]"

text \<open>The short options \<open>p:i:vh\<close>.\<close>

definition short_opt :: "char \<Rightarrow> opt_arg option" where
  "short_opt c =
     (if c = CHR ''p'' then Some (required_argument Opt_port) else if c = CHR ''i'' then Some (required_argument Opt_iface)
      else if c = CHR ''v'' then Some (no_argument Opt_verbose) else if c = CHR ''h'' then Some (no_argument Opt_help) else None)"

text \<open>A long name: an exact match, or the only entry it is a prefix of.\<close>

definition long_opt :: "string \<Rightarrow> opt_arg option" where
  "long_opt name =
     (case map_of opts name of
        Some a \<Rightarrow> Some a
      | None \<Rightarrow> (case filter (\<lambda>(n, a). take (length name) n = name) opts of [(n, a)] \<Rightarrow> Some a | _ \<Rightarrow> None))"

text \<open>
  The word after \<open>--\<close> with the words that follow it: the option, and the words left. Without the value it needs, or with one it
  does not take, it is unknown.
\<close>

definition long_word :: "string \<Rightarrow> string list \<Rightarrow> main_opt \<times> string list" where
  "long_word body rest =
     (let name = takeWhile (\<lambda>c. c \<noteq> CHR ''='') body;
          given = (case dropWhile (\<lambda>c. c \<noteq> CHR ''='') body of [] \<Rightarrow> None | _ # v \<Rightarrow> Some v)
      in case long_opt name of
           None \<Rightarrow> (Opt_unknown, rest)
         | Some (no_argument m) \<Rightarrow> (if given = None then m else Opt_unknown, rest)
         | Some (required_argument f) \<Rightarrow>
             (case given of
                Some v \<Rightarrow> (f v, rest)
              | None \<Rightarrow> (case rest of [] \<Rightarrow> (Opt_unknown, []) | v # rest' \<Rightarrow> (f v, rest'))))"

text \<open>A cluster of short options with the words that follow it.\<close>

fun short_word :: "string \<Rightarrow> string list \<Rightarrow> main_opt list \<times> string list" where
  "short_word [] rest = ([], rest)"
| "short_word (c # cs) rest =
     (case short_opt c of
        None \<Rightarrow> (let (os, rest') = short_word cs rest in (Opt_unknown # os, rest'))
      | Some (no_argument m) \<Rightarrow> (let (os, rest') = short_word cs rest in (m # os, rest'))
      | Some (required_argument f) \<Rightarrow>
          (if cs \<noteq> [] then ([f cs], rest) else case rest of [] \<Rightarrow> ([Opt_unknown], []) | v # rest' \<Rightarrow> ([f v], rest')))"

lemma short_word_rest: "length (snd (short_word cs rest)) \<le> length rest"
  by (induction cs rest rule: short_word.induct) (auto split: option.splits opt_arg.splits prod.splits list.splits)

lemma long_word_rest: "length (snd (long_word b rest)) \<le> length rest"
  by (auto simp: long_word_def Let_def split: option.splits opt_arg.splits list.splits)

lemma short_word_shrinks: "(ms, rest) = short_word cs ws \<Longrightarrow> length rest < Suc (length ws)"
  using short_word_rest [of cs ws] by (metis le_imp_less_Suc snd_conv)

lemma long_word_shrinks: "(m, rest) = long_word b ws \<Longrightarrow> length rest < Suc (length ws)"
  using long_word_rest [of b ws] by (metis le_imp_less_Suc snd_conv)

text \<open>The options in their order and the words that are none.\<close>

function getopt_long :: "string list \<Rightarrow> main_opt list \<times> string list" where
  "getopt_long [] = ([], [])"
| "getopt_long (w # ws) =
     (if w = ''--'' then ([], ws)
      else if take 2 w = ''--'' then
        (case long_word (drop 2 w) ws of (m, rest) \<Rightarrow> let (os, words) = getopt_long rest in (m # os, words))
      else if take 1 w = ''-'' \<and> w \<noteq> ''-'' then
        (case short_word (drop 1 w) ws of (ms, rest) \<Rightarrow> let (os, words) = getopt_long rest in (ms @ os, words))
      else let (os, words) = getopt_long ws in (os, w # words))"
  by pat_completeness auto
termination
  by (relation "measure length") (auto dest: long_word_shrinks short_word_shrinks)

declare getopt_long.simps(2) [simp del]

text \<open>The settings a command line asks for, or the exit code.\<close>

definition main_argv :: "string list \<Rightarrow> (int + main_opts) option" where
  "main_argv ws = (case getopt_long ws of (os, words) \<Rightarrow> main_arguments os (words \<noteq> []))"

section \<open>Every option is reachable\<close>

text \<open>The ways to write an option: with its value joined by \<open>=\<close>, as the next word, or by its letter.\<close>

datatype style = Joined | Separate | Letter

definition opt_name :: "main_opt \<Rightarrow> string \<times> string option" where
  "opt_name m =
     (case m of
        Opt_port s \<Rightarrow> (''port'', Some s) | Opt_rx_port s \<Rightarrow> (''rx-port'', Some s) | Opt_iface s \<Rightarrow> (''iface'', Some s)
      | Opt_name s \<Rightarrow> (''name'', Some s) | Opt_rx_auth s \<Rightarrow> (''rx-auth'', Some s) | Opt_keys_file s \<Rightarrow> (''keys-file'', Some s)
      | Opt_normal \<Rightarrow> (''normal'', None) | Opt_direct_i \<Rightarrow> (''direct-i'', None) | Opt_direct_q \<Rightarrow> (''direct-q'', None)
      | Opt_bias_tee \<Rightarrow> (''bias-tee'', None) | Opt_bias_tee_persist \<Rightarrow> (''bias-tee-persist'', None) | Opt_agc \<Rightarrow> (''agc'', None)
      | Opt_ppm s \<Rightarrow> (''ppm'', Some s) | Opt_gain s \<Rightarrow> (''gain'', Some s) | Opt_u8_zero_point s \<Rightarrow> (''u8-zero-point'', Some s)
      | Opt_no_context_packets \<Rightarrow> (''no-context-packets'', None) | Opt_no_mdns \<Rightarrow> (''no-mdns'', None) | Opt_mdns s \<Rightarrow> (''mdns'', Some s)
      | Opt_syslog \<Rightarrow> (''syslog'', None) | Opt_verbose \<Rightarrow> (''verbose'', None) | Opt_help \<Rightarrow> (''help'', None) | Opt_unknown \<Rightarrow> ([], None))"

definition long_words :: "style \<Rightarrow> main_opt \<Rightarrow> string list" where
  "long_words st m =
     (case opt_name m of
        (n, None) \<Rightarrow> [''--'' @ n]
      | (n, Some v) \<Rightarrow> if st = Separate then [''--'' @ n, v] else [''--'' @ n @ ''='' @ v])"

definition opt_words :: "style \<Rightarrow> main_opt \<Rightarrow> string list" where
  "opt_words st m =
     (if st = Letter then
        (case m of
           Opt_port s \<Rightarrow> [''-p'', s] | Opt_iface s \<Rightarrow> [''-i'', s] | Opt_verbose \<Rightarrow> [''-v''] | Opt_help \<Rightarrow> [''-h'']
         | _ \<Rightarrow> long_words st m)
      else long_words st m)"

lemma getopt_long_long:
  assumes "long_word b ws = (m, rest)" and "b \<noteq> []"
  shows "getopt_long ((''--'' @ b) # ws) = (case getopt_long rest of (os, words) \<Rightarrow> (m # os, words))"
  using assms by (simp add: getopt_long.simps(2))

lemma getopt_long_short:
  assumes "short_word [c] ws = (ms, rest)" and "c \<noteq> CHR ''-''"
  shows "getopt_long ([CHR ''-'', c] # ws) = (case getopt_long rest of (os, words) \<Rightarrow> (ms @ os, words))"
  using assms by (simp add: getopt_long.simps(2))

text \<open>The table has an entry for every option, under its own name.\<close>

lemma table_complete:
  "m \<noteq> Opt_unknown \<Longrightarrow>
     (case opt_name m of
        (n, None) \<Rightarrow> map_of opts n = Some (no_argument m) \<and> n \<noteq> [] \<and> CHR ''='' \<notin> set n
      | (n, Some v) \<Rightarrow> (\<exists>f. map_of opts n = Some (required_argument f) \<and> f v = m) \<and> n \<noteq> [] \<and> CHR ''='' \<notin> set n)"
  by (cases m) (simp_all add: opt_name_def opts_def)

lemma table_entry:
  "opt_name m = (n, None) \<Longrightarrow> m \<noteq> Opt_unknown \<Longrightarrow> map_of opts n = Some (no_argument m) \<and> n \<noteq> [] \<and> CHR ''='' \<notin> set n"
  "opt_name m = (n, Some v) \<Longrightarrow> \<exists>f. map_of opts n = Some (required_argument f) \<and> f v = m \<and> n \<noteq> [] \<and> CHR ''='' \<notin> set n"
proof -
  show "opt_name m = (n, None) \<Longrightarrow> m \<noteq> Opt_unknown \<Longrightarrow> map_of opts n = Some (no_argument m) \<and> n \<noteq> [] \<and> CHR ''='' \<notin> set n"
    using table_complete [of m] by simp
  assume n: "opt_name m = (n, Some v)"
  then have "m \<noteq> Opt_unknown" by (auto simp: opt_name_def)
  with n show "\<exists>f. map_of opts n = Some (required_argument f) \<and> f v = m \<and> n \<noteq> [] \<and> CHR ''='' \<notin> set n"
    using table_complete [of m] by simp
qed

lemma no_equals: "CHR ''='' \<notin> set n \<Longrightarrow> takeWhile (\<lambda>c. c \<noteq> CHR ''='') (n @ CHR ''='' # v) = n"
  "CHR ''='' \<notin> set n \<Longrightarrow> dropWhile (\<lambda>c. c \<noteq> CHR ''='') (n @ CHR ''='' # v) = CHR ''='' # v"
  "CHR ''='' \<notin> set n \<Longrightarrow> takeWhile (\<lambda>c. c \<noteq> CHR ''='') n = n" "CHR ''='' \<notin> set n \<Longrightarrow> dropWhile (\<lambda>c. c \<noteq> CHR ''='') n = []"
  by (induction n) auto

lemma long_word_plain: "opt_name m = (n, None) \<Longrightarrow> m \<noteq> Opt_unknown \<Longrightarrow> long_word n ws = (m, ws)"
  using table_entry(1) [of m n] by (simp add: long_word_def long_opt_def no_equals)

lemma long_word_separate: "opt_name m = (n, Some v) \<Longrightarrow> long_word n (v # ws) = (m, ws)"
  using table_entry(2) [of m n v] by (auto simp: long_word_def long_opt_def no_equals)

lemma long_word_joined: "opt_name m = (n, Some v) \<Longrightarrow> long_word (n @ ''='' @ v) ws = (m, ws)"
  using table_entry(2) [of m n v] by (auto simp: long_word_def long_opt_def no_equals)

lemma long_form:
  assumes "m \<noteq> Opt_unknown"
  shows "getopt_long (long_words st m @ ws) = (case getopt_long ws of (os, words) \<Rightarrow> (m # os, words))"
proof -
  obtain n a where n: "opt_name m = (n, a)" by (cases "opt_name m")
  show ?thesis
  proof (cases a)
    case None
    with n assms have "n \<noteq> []" "long_word n ws = (m, ws)" using table_entry(1) [of m n] long_word_plain by auto
    then show ?thesis using n None getopt_long_long [of n ws m ws] by (simp add: long_words_def)
  next
    case (Some v)
    with n have e: "n \<noteq> []" "opt_name m = (n, Some v)" using table_entry(2) [of m n v] by auto
    show ?thesis
    proof (cases "st = Separate")
      case True
      then show ?thesis using e getopt_long_long [OF long_word_separate [OF e(2), of ws]] by (simp add: long_words_def)
    next
      case False
      then show ?thesis using e getopt_long_long [OF long_word_joined [OF e(2), of ws]] by (simp add: long_words_def)
    qed
  qed
qed

lemma letter_forms:
  "getopt_long (''-p'' # s # ws) = (case getopt_long ws of (os, words) \<Rightarrow> (Opt_port s # os, words))"
  "getopt_long (''-i'' # s # ws) = (case getopt_long ws of (os, words) \<Rightarrow> (Opt_iface s # os, words))"
  "getopt_long (''-v'' # ws) = (case getopt_long ws of (os, words) \<Rightarrow> (Opt_verbose # os, words))"
  "getopt_long (''-h'' # ws) = (case getopt_long ws of (os, words) \<Rightarrow> (Opt_help # os, words))"
  by (simp_all add: getopt_long_short short_opt_def)

lemma getopt_one: "m \<noteq> Opt_unknown \<Longrightarrow> getopt_long (opt_words st m @ ws) = (case getopt_long ws of (os, words) \<Rightarrow> (m # os, words))"
  using long_form [of m st ws] long_form [of m Letter ws] by (cases m) (auto simp: opt_words_def letter_forms)



end
