(* ===== verification/Daemon.thy ===== *)
theory Daemon
  imports Cp_Server Rtl_Stub Mdns Command_Line Logging
begin

text \<open>
  The process of \<open>main.c\<close>: instance name, start-up in the order of the source with every failing exit, shutdown, the whole
  of \<open>main\<close> from its arguments, and the running daemon as a transition system whose steps are connections, messages,
  disconnections and USB buffers.
\<close>

section \<open>Instance name\<close>

text \<open>
  What start-up reads from the system. \<open>me_mac path\<close> is what \<open>fscanf\<close> delivers when all six numbers of the file are
  read; \<open>me_udp_ok\<close> says whether the VITA socket can be bound. \<open>me_avahi_in\<close> is the build option that compiles the Avahi
  backend in.
\<close>

record ('d, 'a) main_env =
  me_lib :: "'d librtlsdr"
  me_key_file :: "string \<Rightarrow> fopen_result"
  me_mac :: "string \<Rightarrow> u32 list option"
  me_netdir :: "string list option"
  me_pid :: u32
  me_udp_ok :: bool
  me_listen :: listen_env
  me_mdns :: mdns_env
  me_avahi_in :: bool
  me_avahi :: "'a libavahi"
  me_avahi_state :: 'a

definition read_mac :: "('d, 'a) main_env \<Rightarrow> string \<Rightarrow> u8 list option" where
  "read_mac e iface =
     (case me_mac e (snprintf 128 (''/sys/class/net/'' @ iface @ ''/address'')) of
        None \<Rightarrow> None
      | Some m \<Rightarrow> if foldr (OR) m 0 \<noteq> 0 then Some (map ucast m) else None)"

fun first_mac :: "('d, 'a) main_env \<Rightarrow> string list \<Rightarrow> (u8 list \<times> string) option" where
  "first_mac e [] = None"
| "first_mac e (i # is') = (case read_mac e i of Some mac \<Rightarrow> Some (mac, i) | None \<Rightarrow> first_mac e is')"

definition search_mac :: "('d, 'a) main_env \<Rightarrow> (u8 list \<times> string) option" where
  "search_mac e =
     (case first_mac e [''eth0'', ''end0'', ''wlan0''] of
        Some (mac, i) \<Rightarrow> Some (mac, snprintf 32 i)
      | None \<Rightarrow>
          (case me_netdir e of
             None \<Rightarrow> None
           | Some names \<Rightarrow>
               map_option (\<lambda>(mac, i). (mac, snprintf 32 (take 15 i)))
                 (first_mac e (filter (\<lambda>n. take 1 n \<noteq> ''.'' \<and> n \<noteq> ''lo'') names))))"

definition pick_mac :: "('d, 'a) main_env \<Rightarrow> string option \<Rightarrow> (u8 list \<times> string) option" where
  "pick_mac e iface =
     (case iface of
        None \<Rightarrow> search_mac e
      | Some i \<Rightarrow> if i \<noteq> [] then map_option (\<lambda>mac. (mac, snprintf 32 i)) (read_mac e i) else search_mac e)"

text \<open>\<open>%02X\<close> and \<open>%06X\<close>.\<close>

definition hex_upper :: "nat \<Rightarrow> nat \<Rightarrow> string" where
  "hex_upper k n = map (\<lambda>c. if 97 \<le> (of_char c :: nat) then char_of (of_char c - 32 :: nat) else c) (show_hex k n)"

text \<open>The instance name and the interface the responder announces on.\<close>

definition instance_name :: "('d, 'a) main_env \<Rightarrow> main_opts \<Rightarrow> string \<times> string" where
  "instance_name e o' =
     (let iface = (case mo_iface o' of None \<Rightarrow> [] | Some i \<Rightarrow> snprintf 32 i) in
      case mo_name o' of
        Some (c # cs) \<Rightarrow> (map (\<lambda>c. if c = CHR '' '' \<or> c = CHR 0x09 then CHR ''-'' else c) (snprintf 64 (c # cs)), iface)
      | _ \<Rightarrow>
          (case pick_mac e (mo_iface o') of
             Some (mac, used) \<Rightarrow>
               (snprintf 64 (''SLC-'' @ hex_upper 2 (unat (mac ! 3)) @ hex_upper 2 (unat (mac ! 4)) @ hex_upper 2 (unat (mac ! 5))), used)
           | None \<Rightarrow> (snprintf 64 (''SLC-'' @ hex_upper 6 (unat (me_pid e AND 0xFFFFFF))), iface)))"

section \<open>Start-up and shutdown\<close>

record ('d, 'a) daemon =
  dm_world :: "'d world"
  dm_server :: cp_server
  dm_mdns :: "'a dispatcher"
  dm_log :: logger
  dm_cp_port :: u16
  dm_announced :: "u8 list list"

definition no_keys :: auth_keyring_t where
  "no_keys = \<lparr>kr_keys = [], kr_path = [], kr_loaded = False\<rparr>"

text \<open>The control plane before the first connection.\<close>

definition fresh_world :: "'d rtl \<Rightarrow> vita \<Rightarrow> main_opts \<Rightarrow> auth_keyring_t \<Rightarrow> string \<Rightarrow> 'd world" where
  "fresh_world g v o' keys name = \<lparr>w_rtl = g, w_vita = v, w_sessions = replicate MAX_SESSIONS session_zero,
     w_rx_owner = None, w_stream_counter = 0, w_rx_auth = mo_rx_auth o', w_keys = keys, w_device_name = name,
     w_vita_src_port = uint (g_vita_src_port o'), w_u8_zero_point = g_u8_zero_point o', w_gains = None,
     w_gain_default = tenths RTL_DEFAULT_GAIN, w_out = [], w_udp = []\<rparr>"

definition main_txt :: "string \<Rightarrow> 'd rtl \<Rightarrow> mdns_txt_t" where
  "main_txt name g = \<lparr>txt_name = name, txt_proto = ''sdr-slc'', txt_proto_ver = PROTO_VERSION, txt_functions = ''rx'',
     txt_hw = HW_REVISION, txt_fw = SLC_FW_STRING, txt_minhz = rtl_freq_min g, txt_maxhz = rtl_freq_max g\<rparr>"

text \<open>The keys: read once, and only when authentication is required; \<open>None\<close> refuses to start.\<close>

definition main_keys :: "('d, 'a) main_env \<Rightarrow> main_opts \<Rightarrow> auth_keyring_t option" where
  "main_keys e o' =
     (if mo_rx_auth o' then auth_keyring_load (me_key_file e (mo_keys_file o')) (mo_keys_file o') else Some no_keys)"

text \<open>From the opened device on: what fails leaves an exit code and the device as it was handed back.\<close>

definition main_serve ::
    "('d, 'a) main_env \<Rightarrow> main_opts \<Rightarrow> auth_keyring_t \<Rightarrow> string \<Rightarrow> string \<Rightarrow> 'a dispatcher \<Rightarrow> 'd rtl \<Rightarrow>
       (int \<times> 'd rtl + ('d, 'a) daemon) option" where
  "main_serve e o' keys name iface disp g =
     (let g = rtl_set_overload_handler (g\<lparr>g_bias_tee_persist := mo_bias_persist o'\<rparr>);
          v = vita_set_context_packets (mo_ctx_packets o') vita_globals;
          (r, v) = vita_tx_init (me_udp_ok e) v
      in if r < 0 then Some (Inl (1, rtl_bridge_destroy (me_lib e) g))
         else case cp_server_start (me_listen e) server_globals of (r, sv) \<Rightarrow>
           if r < 0 then Some (Inl (1, rtl_bridge_destroy (me_lib e) g))
           else let w = fresh_world g v o' keys name;
                    disp = (if mo_no_mdns o' then disp else snd (mdns_set_backend (me_avahi_in e) (mo_mdns_backend o') (Some iface) disp))
                in do {
                  (disp, ps) \<leftarrow> (if mo_no_mdns o' then Some (disp, [])
                      else map_option snd (mdns_start (me_avahi_in e) (me_avahi e) (me_mdns e) name (g_cp_port o') (main_txt name g) disp));
                  Some (Inr \<lparr>dm_world = w, dm_server = sv, dm_mdns = disp,
                    dm_log = log_init (mo_verbosity o') (mo_use_syslog o') logger_globals, dm_cp_port = g_cp_port o', dm_announced = ps\<rparr>)
                })"

text \<open>The gain of the command line, set only when it differs from the one the bridge comes up with.\<close>

definition main_gain :: "('d, 'a) main_env \<Rightarrow> main_opts \<Rightarrow> 'd rtl \<Rightarrow> 'd rtl option" where
  "main_gain e o' g =
     (if \<not> mo_agc o' \<and> mo_gain_tenth o' \<noteq> RTL_DEFAULT_GAIN
      then map_option snd (rtl_set_gain (me_lib e) (tenths (mo_gain_tenth o')) g) else Some g)"

definition startup_volts :: "main_opts \<Rightarrow> double" where
  "startup_volts o' = (if mo_bias_tee o' then RTL_BIAS_TEE_VOLTS else Fin 0)"

definition main_start :: "('d, 'a) main_env \<Rightarrow> main_opts \<Rightarrow> 'd \<Rightarrow> (int \<times> 'd rtl + ('d, 'a) daemon) option" where
  "main_start e o' dev =
     (let g = rtl_globals dev;
          disp = dispatcher_globals (me_avahi_state e);
          (r, disp) = (if mo_no_mdns o' then (0, disp) else mdns_set_backend (me_avahi_in e) (mo_mdns_backend o') None disp)
      in if r \<noteq> 0 then Some (Inl (2, g))
         else case main_keys e o' of
           None \<Rightarrow> Some (Inl (1, g))
         | Some keys \<Rightarrow>
             let (name, iface) = instance_name e o';
                 (r, g) = rtl_bridge_init (me_lib e) (mo_samp_mode o') (startup_volts o') (mo_agc o') (mo_ppm o') g
             in if r < 0 then Some (Inl (1, g))
                else do { g \<leftarrow> main_gain e o' g; main_serve e o' keys name iface disp g })"

text \<open>Shutdown: the responder says goodbye, the server stops, the reader is stopped whatever streams there are, the device is closed.\<close>

definition main_stop :: "('d, 'a) main_env \<Rightarrow> main_opts \<Rightarrow> ('d, 'a) daemon \<Rightarrow> (('d, 'a) daemon \<times> u8 list list) option" where
  "main_stop e o' dm =
     do {
       (disp, ps) \<leftarrow> (if mo_no_mdns o' then Some (dm_mdns dm, []) else mdns_stop (me_avahi_in e) (me_avahi e) (dm_mdns dm));
       let w = dm_world dm;
       let w = w\<lparr>w_rtl := rtl_bridge_destroy (me_lib e) (rtl_bridge_force_stop (me_lib e) (w_rtl w)), w_vita := vita_tx_destroy (w_vita w)\<rparr>;
       Some (dm\<lparr>dm_world := w, dm_server := cp_server_stop (dm_server dm), dm_mdns := disp\<rparr>, ps)
     }"

text \<open>
  The whole of \<open>main\<close> from its arguments, up to the loop that waits for a signal: the \<open>keygen\<close> subcommand, an exit code with the
  driver as it was left, or the running daemon.
\<close>

datatype ('d, 'a) main_result = Keygen_done keygen_result | Exited int "'d rtl" | Running main_opts "('d, 'a) daemon"

definition main :: "('d, 'a) main_env \<Rightarrow> keygen_env \<Rightarrow> string list \<Rightarrow> 'd \<Rightarrow> ('d, 'a) main_result option" where
  "main e ke argv dev =
     (let args = drop 1 argv in
      if args \<noteq> [] \<and> hd args = ''keygen'' then Some (Keygen_done (auth_keygen_main ke (tl args) SLC_DEFAULT_KEYS_FILE))
      else case main_argv args of
        None \<Rightarrow> None
      | Some (Inl code) \<Rightarrow> Some (Exited code (rtl_globals dev))
      | Some (Inr o') \<Rightarrow>
          (case main_start e o' dev of
             None \<Rightarrow> None
           | Some (Inl (code, g)) \<Rightarrow> Some (Exited code g)
           | Some (Inr dm) \<Rightarrow> Some (Running o' dm)))"

section \<open>The running daemon\<close>

definition initial :: "'d world \<Rightarrow> bool" where
  "initial w \<longleftrightarrow> w_sessions w = replicate MAX_SESSIONS session_zero \<and> w_rx_owner w = None
     \<and> length (vt_sessions (w_vita w)) = MAX_VITA_SESSIONS \<and> s_stream_count (w_rtl w) = 0 \<and> \<not> s_running (w_rtl w)"

text \<open>
  A step: a client connects, a message of a connected client is served, a client leaves, a buffer arrives. Whole
  messages interleave; the descriptor of an accepted connection is positive because 0 is taken.
\<close>

inductive step :: "'d world \<Rightarrow> 'd world \<Rightarrow> bool" where
  connect: "0 < fd \<Longrightarrow> accept_connection e fd ip w = (r, w') \<Longrightarrow> step w w'"
| message: "live i w \<Longrightarrow> handle_message e i js w = Some w' \<Longrightarrow> step w w'"
| leave: "live i w \<Longrightarrow> step w (session_destroy e i w)"
| buffer: "step w (rtl_callback m now buf w)"

inductive_cases stepE: "step w w'"

section \<open>Invariants of transition systems\<close>

text \<open>
  What every component that runs in steps promises: an invariant that holds at the start and is kept. Systems with
  an exclusive resource promise more: whoever uses it is its recorded holder.
\<close>

locale invariant_system =
  fixes init :: "'s \<Rightarrow> bool" and steps :: "'s \<Rightarrow> 's \<Rightarrow> bool" and inv :: "'s \<Rightarrow> bool"
  assumes init_inv: "init s \<Longrightarrow> inv s"
    and step_inv: "inv s \<Longrightarrow> steps s s' \<Longrightarrow> inv s'"
begin

lemma run_inv: "steps\<^sup>*\<^sup>* s s' \<Longrightarrow> inv s \<Longrightarrow> inv s'"
  by (induction rule: rtranclp_induct) (auto intro: step_inv)

lemma reachable_inv: "init s \<Longrightarrow> steps\<^sup>*\<^sup>* s s' \<Longrightarrow> inv s'"
  by (rule run_inv [OF _ init_inv])

end

locale exclusive_system = invariant_system +
  fixes holder :: "'s \<Rightarrow> 'i option" and uses :: "'i \<Rightarrow> 's \<Rightarrow> bool"
  assumes user_holds: "inv s \<Longrightarrow> uses i s \<Longrightarrow> holder s = Some i"
begin

lemma one_user: "init s \<Longrightarrow> steps\<^sup>*\<^sup>* s s' \<Longrightarrow> uses i s' \<Longrightarrow> uses j s' \<Longrightarrow> i = j"
  using user_holds [OF reachable_inv] by (metis option.inject)

lemma no_user_when_free: "init s \<Longrightarrow> steps\<^sup>*\<^sup>* s s' \<Longrightarrow> holder s' = None \<Longrightarrow> \<not> uses i s'"
  using user_holds [OF reachable_inv] by fastforce

end

section \<open>The daemon keeps its invariant\<close>

lemma initial_inv: "initial w \<Longrightarrow> cp_inv w"
  by (auto simp: initial_def cp_inv_def reader_inv_def slot_ok_def session_zero_def sess_def)

lemma accept_inv: "cp_inv w \<Longrightarrow> 0 < fd \<Longrightarrow> accept_connection e fd ip w = (r, w') \<Longrightarrow> cp_inv w'"
proof -
  assume a: "cp_inv w" "0 < fd" "accept_connection e fd ip w = (r, w')"
  obtain k w1 where c: "session_create fd ip w = (k, w1)" by (cases "session_create fd ip w")
  note i = session_create_inv [OF a(1,2) c]
  show "cp_inv w'"
    using a(3) c i session_destroy_inv [of w1 _ e]
    by (auto simp: accept_connection_def split: option.splits if_splits)
qed

lemma step_inv: "cp_inv w \<Longrightarrow> step w w' \<Longrightarrow> cp_inv w'"
proof -
  assume inv: "cp_inv w" and st: "step w w'"
  from st show "cp_inv w'"
  proof cases
    case connect
    then show ?thesis using accept_inv [OF inv] by blast
  next
    case (message i e js)
    then show ?thesis using handle_message_inv [OF inv, of i e js] by simp
  next
    case leave
    then show ?thesis using session_destroy_inv [OF inv] by simp
  next
    case buffer
    then show ?thesis using rtl_callback_inv [OF inv] by simp
  qed
qed

definition streams :: "nat \<Rightarrow> 'd world \<Rightarrow> bool" where
  "streams i w \<longleftrightarrow> i < MAX_SESSIONS \<and> ss_stream_open (sess i w)"

interpretation daemon: exclusive_system initial step cp_inv w_rx_owner streams
proof unfold_locales
  fix w w' :: "'d world" and i
  show "initial w \<Longrightarrow> cp_inv w" by (rule initial_inv)
  show "cp_inv w \<Longrightarrow> step w w' \<Longrightarrow> cp_inv w'" by (rule step_inv)
  show "cp_inv w \<Longrightarrow> streams i w \<Longrightarrow> w_rx_owner w = Some i" by (auto simp: streams_def owner_of_open)
qed

section \<open>Start-up delivers an initial state\<close>

lemma init_reader:
  "rtl_bridge_init lib mode v agc ppm g = (r, g') \<Longrightarrow> same_reader g g'"
  by (auto simp: rtl_bridge_init_def same_reader_def Let_def dev_call_def case_prod_unfold split: if_splits)

lemma serve_initial:
  assumes "s_stream_count g = 0" and "\<not> s_running g" and "main_serve e o' keys name iface disp g = Some (Inr dm)"
  shows "initial (dm_world dm)" and "w_rx_auth (dm_world dm) = mo_rx_auth o'" and "w_keys (dm_world dm) = keys"
  using assms
  by (auto simp: main_serve_def Let_def initial_def fresh_world_def vita_tx_init_def vita_set_context_packets_def
      rtl_set_overload_handler_def split: if_splits bind_splits prod.splits)

lemma main_gain_reader: "main_gain e o' g = Some g' \<Longrightarrow> same_reader g g'"
  using settings_same_reader(7) [of "me_lib e" _ g] by (auto simp: main_gain_def same_reader_def split: if_splits)

lemma start_initial:
  assumes "main_start e o' dev = Some (Inr dm)"
  shows "initial (dm_world dm)" and "w_rx_auth (dm_world dm) = mo_rx_auth o'" and "main_keys e o' = Some (w_keys (dm_world dm))"
proof -
  obtain name iface where nm: "instance_name e o' = (name, iface)" by (cases "instance_name e o'")
  let ?init = "rtl_bridge_init (me_lib e) (mo_samp_mode o') (startup_volts o') (mo_agc o') (mo_ppm o') (rtl_globals dev)"
  obtain r g where g: "?init = (r, g)" by (cases ?init)
  have "same_reader (rtl_globals dev) g" by (rule init_reader [OF g])
  then have rd: "s_stream_count g = 0" "\<not> s_running g" by (simp_all add: same_reader_def rtl_globals_def)
  obtain keys g' disp where k: "main_keys e o' = Some keys" "same_reader g g'" "main_serve e o' keys name iface disp g' = Some (Inr dm)"
    using assms main_gain_reader [of e o' g]
    by (auto simp: main_start_def nm g Let_def split: if_splits option.splits bind_splits prod.splits)
  then have "s_stream_count g' = 0" "\<not> s_running g'" using rd by (simp_all add: same_reader_def)
  from serve_initial [OF this k(3)] k(1)
  show "initial (dm_world dm)" "w_rx_auth (dm_world dm) = mo_rx_auth o'" "main_keys e o' = Some (w_keys (dm_world dm))" by simp_all
qed

section \<open>The configuration never changes\<close>

lemma step_config: "step w w' \<Longrightarrow> w_rx_auth w' = w_rx_auth w \<and> w_keys w' = w_keys w"
proof -
  assume "step w w'"
  then show ?thesis
  proof cases
    case connect
    then show ?thesis
      by (auto simp: accept_connection_def session_create_def split: option.splits if_splits)
  next
    case (message i e js)
    then show ?thesis using handle_message_steady [of w e i js] by (simp add: steady_def)
  qed simp_all
qed

lemma run_config: "step\<^sup>*\<^sup>* w w' \<Longrightarrow> w_rx_auth w' = w_rx_auth w \<and> w_keys w' = w_keys w"
  by (induction rule: rtranclp_induct) (auto dest: step_config)

lemma start_without_mdns:
  "main_start e o' dev = Some (Inr dm) \<Longrightarrow> mo_no_mdns o' \<Longrightarrow> dm_mdns dm = dispatcher_globals (me_avahi_state e)"
  by (auto simp: main_start_def main_serve_def Let_def split: if_splits option.splits prod.splits bind_splits)

lemma start_fresh: "main_start e o' dev = Some (Inr dm) \<Longrightarrow> w_gains (dm_world dm) = None \<and> w_stream_counter (dm_world dm) = 0"
  by (auto simp: main_start_def main_serve_def fresh_world_def Let_def split: if_splits option.splits prod.splits bind_splits)

section \<open>A daemon on the fake dongle\<close>

text \<open>Concrete instances: the fake librtlsdr of the test suite, one key, a client on the loopback interface.\<close>

definition demo_lib_math :: libm where
  "demo_lib_math = \<lparr>m_sqrt = \<lambda>x. x, m_log10 = \<lambda>x. x\<rparr>"

definition demo_env :: "stub env" where
  "demo_env = \<lparr>e_lib = stub_lib, e_libm = demo_lib_math, e_thread_ok = True, e_mono_ns = 1000, e_time = 1700000000,
     e_stamp = ''2026-01-01T00:00:00'', e_millis = 7, e_epoch_s = 1700000000, e_random = [Octets (replicate 16 0x5A)],
     e_local_ip = Some 0x7F000001, e_scan = \<lambda>_. None, e_gets = \<lambda>_. None\<rparr>"

definition demo_main :: "(stub, bool) main_env" where
  "demo_main = \<lparr>me_lib = stub_lib, me_key_file = \<lambda>_. File (key_file [\<lparr>key_id = ''default'', psk = ''s3cret''\<rparr>]), me_mac = \<lambda>_. None,
     me_netdir = None, me_pid = 4711, me_udp_ok = True, 
     me_listen = \<lparr>ls_socket = 3, ls_bind_ok = True, ls_listen_ok = True, ls_thread_ok = True\<rparr>,
     me_mdns = \<lparr>mn_ifaddrs = Some [(''eth0'', False, 0x0100A8C0)], mn_socket = True, mn_bind = True, mn_thread = True\<rparr>,
     me_avahi_in = False, me_avahi = up_avahi, me_avahi_state = False\<rparr>"

definition demo_opts :: "bool \<Rightarrow> main_opts" where
  "demo_opts auth = main_defaults\<lparr>mo_rx_auth := auth, mo_no_mdns := True\<rparr>"

definition demo_daemon :: "bool \<Rightarrow> (stub, bool) daemon" where
  "demo_daemon auth = (case main_start demo_main (demo_opts auth) stub_init of Some (Inr dm) \<Rightarrow> dm | _ \<Rightarrow> undefined)"

lemma demo_starts: "main_start demo_main (demo_opts auth) stub_init = Some (Inr (demo_daemon auth))"
proof -
  have "\<exists>dm. main_start demo_main (demo_opts auth) stub_init = Some (Inr dm)"
  proof -
    have "main_keys demo_main (demo_opts auth) \<noteq> None"
      using load_key_file [of "[\<lparr>key_id = ''default'', psk = ''s3cret''\<rparr>]" "[]"]
      by (simp add: main_keys_def demo_main_def demo_opts_def auth_keyring_load_def key_ok_def AUTH_MAX_KEYS_def
          AUTH_KEY_ID_MAX_def AUTH_PSK_MAX_def isspace_def newline_def)
    then show ?thesis
      by (auto simp: main_start_def demo_opts_def main_defaults_def main_gain_def main_serve_def vita_tx_init_def
          demo_main_def rtl_bridge_init_def dev_call_def stub_lib_def cp_server_start_def Let_def split: prod.splits)
  qed
  then show ?thesis by (auto simp: demo_daemon_def)
qed

text \<open>The daemon with one client connected in slot 0.\<close>

definition demo_connected :: "bool \<Rightarrow> stub world" where
  "demo_connected auth = snd (accept_connection demo_env 5 0x7F000001 (dm_world (demo_daemon auth)))"

lemma demo_connect_step: "step (dm_world (demo_daemon auth)) (demo_connected auth)"
  by (rule step.connect [of 5 demo_env "0x7F000001" _ "fst (accept_connection demo_env 5 0x7F000001 (dm_world (demo_daemon auth)))"])
    (simp_all add: demo_connected_def)

lemma demo_initial: "initial (dm_world (demo_daemon auth))" "w_rx_auth (dm_world (demo_daemon auth)) = auth"
  using start_initial(1,2) [OF demo_starts] by (simp_all add: demo_opts_def)

lemma demo_connected_inv: "cp_inv (demo_connected auth)"
  by (rule step_inv [OF initial_inv [OF demo_initial(1)] demo_connect_step])

lemma demo_connected_sess:
  "live 0 (demo_connected auth)" "ss_state (sess 0 (demo_connected auth)) = SESSION_AWAIT_HELLO"
  "\<not> ss_rx_unlocked (sess 0 (demo_connected auth))" "w_rx_owner (demo_connected auth) = None"
  "w_rx_auth (demo_connected auth) = auth"
proof -
  have "w_sessions (dm_world (demo_daemon auth)) = replicate MAX_SESSIONS session_zero" "w_rx_owner (dm_world (demo_daemon auth)) = None"
    using demo_initial(1) by (simp_all add: initial_def)
  then show "live 0 (demo_connected auth)" "ss_state (sess 0 (demo_connected auth)) = SESSION_AWAIT_HELLO"
    "\<not> ss_rx_unlocked (sess 0 (demo_connected auth))" "w_rx_owner (demo_connected auth) = None" "w_rx_auth (demo_connected auth) = auth"
    by (simp_all add: demo_connected_def accept_connection_def session_create_def MAX_SESSIONS_def numeral_eq_Suc session_zero_def
        demo_env_def live_def sess_def upd_def demo_initial)
qed

section \<open>Properties of start-up and shutdown\<close>

text \<open>
  C39: A start-up that succeeds hands over a quiet daemon: no session, no holder of the channel, the reader stopped, the
  authentication policy of the command line in force and, when it is on, exactly the keys of the key file; with authentication
  on, an unreadable or malformed key file refuses to start before the dongle is opened.
\<close>

theorem main_start_quiet:
  assumes "main_start e o' dev = Some (Inr dm)"
  shows "initial (dm_world dm) \<and> w_rx_auth (dm_world dm) = mo_rx_auth o'
    \<and> (if mo_rx_auth o' then auth_keyring_load (me_key_file e (mo_keys_file o')) (mo_keys_file o') = Some (w_keys (dm_world dm))
       else kr_keys (w_keys (dm_world dm)) = [])"
proof (cases "mo_rx_auth o'")
  case False
  then have "w_keys (dm_world dm) = no_keys" using start_initial(3) [OF assms] by (simp add: main_keys_def)
  then show ?thesis using start_initial [OF assms] False by (simp add: no_keys_def)
qed (use start_initial [OF assms] in \<open>simp add: main_keys_def\<close>)

theorem main_start_quiet_witness:
  "initial (dm_world (demo_daemon True)) \<and> w_rx_auth (dm_world (demo_daemon True))"
  using main_start_quiet [OF demo_starts [of True]] by (simp add: demo_opts_def)


lemma idle_dispatcher: "dispatcher_ok (dispatcher_globals a)"
  by (simp add: dispatcher_ok_def builtin_ok_def avahi_ok_def dispatcher_globals_def mdns_globals_def avahi_globals_def)

text \<open>What a start hands over satisfies what the shutdown relies on.\<close>

lemma start_dispatcher_ok:
  assumes "main_start e o' dev = Some (Inr dm)"
  shows "dispatcher_ok (dm_mdns dm)"
proof -
  let ?d0 = "dispatcher_globals (me_avahi_state e)"
  have idle: "dispatcher_ok d \<and> \<not> md_published (dp_builtin d) \<and> \<not> av_published (dp_av d)"
    if "dp_builtin d = dp_builtin ?d0" "dp_av d = dp_av ?d0" for d
    using that idle_dispatcher [of "me_avahi_state e"]
    by (simp add: dispatcher_ok_def dispatcher_globals_def mdns_globals_def avahi_globals_def)
  have set: "dp_builtin (snd (mdns_set_backend b n i d)) = dp_builtin d \<and> dp_av (snd (mdns_set_backend b n i d)) = dp_av d" for b n i and d :: "'b dispatcher"
    by (simp add: mdns_set_backend_def Let_def split: option.split)
  have serve: "dispatcher_ok (dm_mdns dm)"
    if "main_serve e o' keys name iface disp g = Some (Inr dm)" "dp_builtin disp = dp_builtin ?d0" "dp_av disp = dp_av ?d0"
    for keys name iface disp and g :: "'a rtl"
    using that idle [of disp] idle [of "snd (mdns_set_backend (me_avahi_in e) (mo_mdns_backend o') (Some iface) disp)"] set
      mdns_start_ok [of "me_avahi_in e" "me_avahi e" "me_mdns e" name "g_cp_port o'"]
    by (auto simp: main_serve_def Let_def split: if_splits prod.splits bind_splits option.splits)
  show ?thesis
    using assms serve set [of "me_avahi_in e" "mo_mdns_backend o'" None ?d0]
    by (auto simp: main_start_def Let_def split: if_splits option.splits prod.splits bind_splits)
qed


end
