(* ===== verification/Cp_Wellformed.thy ===== *)
theory Cp_Wellformed
  imports Cp_Connection
begin

text \<open>
  Well-formed requests are served: on the text of a JSON object whose \<open>params\<close> can be searched, every handler of
  \<open>cp/cp_commands.c\<close> stays inside the parsed tokens and returns, the envelope is read back as the client wrote it, and a whole
  connection of such messages runs to its end.
\<close>

section \<open>A listed gain is a number the driver can convert\<close>

lemma listed_gain_converts:
  assumes "on_gain_list val gs" and "\<forall>g \<in> set gs. \<bar>g\<bar> < 2 ^ 20"
  shows "int_round (dmul val (Fin 10)) \<noteq> None"
proof -
  obtain g where g: "g \<in> set gs" "dless (dfabs (dsub val (tenths g))) (fl (5 / 100))" using assms(1) by (auto simp: on_gain_list_def)
  have small: "\<bar>g\<bar> < 2 ^ 20" using g(1) assms(2) by blast
  obtain t where t: "tenths g = Fin t" "\<bar>t\<bar> \<le> 2 ^ 20"
  proof (cases "g = 0")
    case True
    then show ?thesis using that [of 0] by (simp add: tenths_def of_int_d_def)
  next
    case False
    obtain r where r: "tenths g = Fin r" "\<bar>r - of_int g / 10\<bar> \<le> \<bar>of_int g\<bar> / 10 / 2 ^ 53" using tenths_near [OF False small] .
    have b: "\<bar>of_int g :: rat\<bar> \<le> 1048576" using rat_of_int_bounds(2) [OF False small] by simp
    have "\<bar>of_int g :: rat\<bar> / 10 / 2 ^ 53 \<le> \<bar>of_int g\<bar> / 10" by (simp add: field_simps)
    with r(2) have "\<bar>r - of_int g / 10\<bar> \<le> \<bar>of_int g\<bar> / 10" by (rule order_trans)
    with b have "\<bar>r\<bar> \<le> 1048576" by linarith
    with r(1) that show ?thesis by simp
  qed
  obtain c where c: "fl (5 / 100) = Fin c" using fl_small [of "5 / 100"] by auto
  have "\<bar>c - 5 / 100\<bar> \<le> \<bar>5 / 100\<bar> / 2 + 1 / 2" by (rule fl_close [OF c])
  then have c1: "\<bar>c\<bar> \<le> 1" by linarith
  obtain x where v: "val = Fin x" using g(2) t(1) c by (cases val) (auto simp: dsub_def)
  obtain y where y: "fl (x - t) = Fin y" "\<bar>y\<bar> < 1"
    using g(2) t(1) c c1 by (cases "fl (x - t)") (auto simp: v dsub_def)
  have "\<bar>y - (x - t)\<bar> \<le> \<bar>x - t\<bar> / 2 + 1 / 2" by (rule fl_close [OF y(1)])
  moreover have "\<bar>x - t\<bar> \<le> \<bar>y\<bar> + \<bar>y - (x - t)\<bar>" using abs_triangle_ineq [of y "(x - t) - y"] by (simp add: abs_minus_commute)
  ultimately have "\<bar>x - t\<bar> \<le> 3" using y(2) by simp
  with t(2) have "\<bar>x * 10\<bar> \<le> 2 ^ 40" by simp
  then have "\<bar>x * 10\<bar> \<le> 2 ^ 24" using \<open>\<bar>x - t\<bar> \<le> 3\<close> t(2) by simp
  moreover obtain z where z: "fl (x * 10) = Fin z" using fl_small [OF \<open>\<bar>x * 10\<bar> \<le> 2 ^ 40\<close>] by blast
  ultimately have "\<bar>z\<bar> \<le> 2 ^ 25" using fl_close [OF z] by simp
  then have "\<bar>z\<bar> \<le> 33554432" by simp
  with round_away_dist [of z] have "\<bar>of_int (round_away z) :: rat\<bar> \<le> 67108864" by linarith
  then have "\<bar>round_away z\<bar> \<le> 67108864" by linarith
  then show ?thesis by (auto simp: v int_round_def z Let_def abs_le_iff)
qed

section \<open>Lookups that stay inside the tokens\<close>

text \<open>Where a key may be looked up: an object, a scalar or an empty array; a non-empty array would be walked as if it held pairs.\<close>

fun plain :: "json \<Rightarrow> bool" where
  "plain (JArr vs) = (vs = [])"
| "plain _ = True"

fun json_type :: "json \<Rightarrow> jsmntype_t" where
  "json_type (JObj _) = JSMN_OBJECT" | "json_type (JArr _) = JSMN_ARRAY"
| "json_type (JStr _) = JSMN_STRING" | "json_type (JPrim _) = JSMN_PRIMITIVE"

definition sound_tokens :: "string \<Rightarrow> string \<Rightarrow> jsmntok_t list \<Rightarrow> bool" where
  "sound_tokens ws js t \<longleftrightarrow> (\<exists>kvs. value_at ws js t 0 (JObj kvs) \<and> (\<forall>v. map_of kvs ''params'' = Some v \<longrightarrow> plain v))"

text \<open>A handler that returns has read only tokens of the message; the rules below follow its lookups.\<close>

definition returns :: "'a option \<Rightarrow> bool" where
  "returns x \<longleftrightarrow> x \<noteq> None"

lemma returns_simps [simp]: "returns (Some x)" "\<not> returns None"
  by (simp_all add: returns_def)

named_theorems total

lemma total_key [total]:
  assumes "value_at ws js t i v" and "plain v" and "returns (k None)" and "\<And>j v'. value_at ws js t j v' \<Longrightarrow> returns (k (Some j))"
  shows "returns (with_key js t i key k)"
proof -
  obtain r where r: "tok_find_key js t i key = Some r" "\<forall>j. r = Some j \<longrightarrow> (\<exists>v'. value_at ws js t j v')"
  proof (cases v)
    case (JObj kvs)
    then show ?thesis using find_key_object [of ws js t i kvs key] assms(1) that by (cases "map_of kvs key") auto
  next
    case (JArr vs)
    then show ?thesis using assms(1,2) that find_key_leaf [of ws js t i v] by auto
  qed (use assms(1,2) that find_key_leaf [of ws js t i v] in auto)
  then show ?thesis using assms(3,4) by (cases r) (auto simp: with_key_def)
qed

lemma value_tok:
  assumes "value_at ws js t i v"
  shows "\<exists>tok. tok_at t i = Some tok \<and> tk_type tok = json_type v"
proof -
  obtain A pos B where v: "t = A @ jtoks ws pos v @ B" "length A = i" using assms unfolding value_at_def by blast
  moreover have "\<exists>tok r. jtoks ws pos v = tok # r \<and> tk_type tok = json_type v" by (cases v) (auto simp del: jtext.simps)
  ultimately show ?thesis by (auto simp: tok_at_def nth_append)
qed

lemma total_tok [total]:
  assumes "value_at ws js t i v" and "\<And>tok. tok_at t i = Some tok \<Longrightarrow> tk_type tok = json_type v \<Longrightarrow> returns (k tok)"
  shows "returns (with_tok t i k)"
  using value_tok [OF assms(1)] assms(2) by (auto simp: with_tok_def)

lemma total_params [total]:
  assumes "sound_tokens ws js t" and "returns (k None)" and "\<And>p v. value_at ws js t p v \<Longrightarrow> plain v \<Longrightarrow> returns (k (Some p))"
  shows "returns (find_params js t k)"
proof -
  obtain kvs where kvs: "value_at ws js t 0 (JObj kvs)" "\<forall>v. map_of kvs ''params'' = Some v \<longrightarrow> plain v"
    using assms(1) by (auto simp: sound_tokens_def)
  then show ?thesis using find_key_object [OF kvs(1), of "''params''"] assms(2,3)
    by (cases "map_of kvs ''params''") (auto simp: find_params_def with_key_def)
qed

lemma total_param_key [total]:
  assumes "\<And>i. p = Some i \<Longrightarrow> \<exists>v. value_at ws js t i v \<and> plain v" and "returns (k None)"
    and "\<And>j v. value_at ws js t j v \<Longrightarrow> returns (k (Some j))"
  shows "returns (with_param_key js t p key k)"
proof (cases p)
  case (Some i)
  then obtain v where "value_at ws js t i v" "plain v" using assms(1) by blast
  then have "returns (with_key js t i key k)" using assms(2,3) by (intro total_key)
  with Some show ?thesis by (simp add: with_param_key_def)
qed (use assms(2) in \<open>simp add: with_param_key_def\<close>)

lemma total_fail [simp, total]: "returns (open_fail i rid c m w)"
  by (simp add: open_fail_def)

lemma total_if [total]: "(c \<Longrightarrow> returns a) \<Longrightarrow> (\<not> c \<Longrightarrow> returns b) \<Longrightarrow> returns (if c then a else b)"
  by simp

lemma total_option [total]:
  "returns a \<Longrightarrow> (\<And>x. r = Some x \<Longrightarrow> returns (b x)) \<Longrightarrow> returns (case r of None \<Rightarrow> a | Some x \<Rightarrow> b x)"
  by (cases r) auto

lemma total_function [total]:
  assumes "sound_tokens ws js t" and "\<And>p v. value_at ws js t p v \<Longrightarrow> plain v \<Longrightarrow> returns (k p)"
  shows "returns (require_function i rid js t w k)"
  unfolding require_function_def
proof (rule total_params [OF assms(1)])
  fix p v
  assume v: "value_at ws js t p v" "plain v"
  show "returns (case Some p of None \<Rightarrow> Some (send_error i rid ''missing_parameter'' ''params required'' w)
     | Some p \<Rightarrow> with_key js t p ''function'' (\<lambda>f. case f of
         None \<Rightarrow> with_key js t p ''direction'' (\<lambda>d. case d of
             Some _ \<Rightarrow> Some (send_error i rid ''missing_parameter''
                  ''function required (Release 1.2 renamed direction to function; see SDR-SLC-CP-1.0 12.1)'' w)
           | None \<Rightarrow> Some (send_error i rid ''missing_parameter'' ''function required'' w))
       | Some f \<Rightarrow> with_tok t f (\<lambda>tok.
           if tok_eq js tok ''rx'' then k p
           else Some (send_error i rid ''not_supported'' ''This device implements the rx function block only'' w))))"
    unfolding option.case
    by (rule total_key [OF v]) (auto intro!: total_key [OF v] total_tok assms(2) [OF v])
qed simp

lemma total_channel [total]:
  assumes "value_at ws js t p v" and "plain v" and "returns k"
  shows "returns (channel_ok i rid js t p w k)"
  unfolding channel_ok_def using assms by (intro total_key [OF assms(1,2)]) simp_all

lemma total_guarded [total]:
  assumes "sound_tokens ws js t" and "\<And>p v. value_at ws js t p v \<Longrightarrow> plain v \<Longrightarrow> returns (k p)"
  shows "returns (guarded i rid js t w k)"
  unfolding guarded_def may_configure_def
  by (rule total_function [OF assms(1)], rule total_channel) (auto intro: assms(2))

lemma total_stream [total]:
  assumes "sound_tokens ws js t" and "returns k"
  shows "returns (with_stream i rid js t w k)"
  unfolding with_stream_def
  by (rule total_params [OF assms(1)]) (auto intro!: total_param_key total_tok assms(2))

section \<open>Every handler returns\<close>

lemma hello_versions_returns:
  assumes "t = A @ lay_toks gap (jtoks ws) len pos vs @ B"
  shows "returns (hello_versions js t (length vs) (length A) acc)"
  using assms
proof (induction vs arbitrary: A pos acc)
  case (Cons v vs)
  obtain supports offered where acc: "acc = (supports, offered)" by (cases acc)
  obtain tok r where j: "jtoks ws pos v = tok # r" by (cases v) (auto simp del: jtext.simps)
  let ?rest = "lay_toks gap (jtoks ws) len (pos + len v + gap) vs @ B"
  have t: "t = A @ jtoks ws pos v @ ?rest" using Cons.prems by simp
  have here: "tok_at t (length A) = Some tok" using t j by (simp add: tok_at_def nth_append)
  have "skip_tree t 1 (length A) = skip_tree t (tk_size tok) (Suc (length A))"
    using t j by (subst skip_tree.simps) (simp add: nth_append)
  then have skip: "skip_tree t (tk_size tok) (Suc (length A)) = Some (length (A @ jtoks ws pos v))"
    using skip_value [OF t] by simp
  have "returns (hello_versions js t (length vs) (length (A @ jtoks ws pos v)) acc)" for acc
    by (rule Cons.IH) (use t in simp)
  then show ?case by (simp add: acc here skip Let_def)
qed simp

lemma array_at:
  assumes "value_at ws js t i (JArr vs)" and "tok_at t i = Some arr"
  shows "returns (hello_versions js t (nat (tk_size arr)) (Suc i) acc)"
proof -
  obtain A pos B where v: "t = A @ jtoks ws pos (JArr vs) @ B" "length A = i" using assms(1) unfolding value_at_def by blast
  let ?a = "jtok JSMN_ARRAY pos (pos + length (jtext ws (JArr vs))) (length vs)"
  have "arr = ?a" using assms(2) v by (auto simp: tok_at_def nth_append)
  moreover have "t = (A @ [?a]) @ lay_toks (Suc (length ws)) (jtoks ws) (\<lambda>v. length (jtext ws v)) (Suc (pos + length ws)) vs @ B"
    using v(1) by simp
  from hello_versions_returns [OF this] have "returns (hello_versions js t (length vs) (Suc i) acc)" using v(2) by simp
  ultimately show ?thesis by simp
qed

lemma total_versions [total]:
  assumes "value_at ws js t j v" and "tok_at t j = Some arr" and "tk_type arr = json_type v" and "tk_type arr = JSMN_ARRAY"
    and "\<And>a b. returns (f a b)"
  shows "returns (case hello_versions js t (nat (tk_size arr)) (Suc j) acc of None \<Rightarrow> None | Some (a, b) \<Rightarrow> f a b)"
proof -
  have "returns (hello_versions js t (nat (tk_size arr)) (Suc j) acc)"
    using assms(1-4) array_at [of ws js t j _ arr acc] by (cases v) auto
  then show ?thesis using assms(5) by (auto simp: returns_def split: prod.splits)
qed

lemma hello_returns: "sound_tokens ws js t \<Longrightarrow> returns (cmd_hello e i rid js t w)"
  unfolding cmd_hello_def Let_def
  by (rule total_params, assumption, simp, unfold option.case)
    (rule total_key, assumption, assumption, simp, unfold option.case,
     rule total_tok, assumption, rule total_if, simp, rule total_versions, assumption+, simp,
     rule total_if, simp, rule total_key, assumption+, auto intro: total_tok)

lemma authenticate_returns: "sound_tokens ws js t \<Longrightarrow> returns (cmd_authenticate e i rid js t w)"
  unfolding cmd_authenticate_def
  by (rule total_if, simp, rule total_params)
    (auto intro!: total_param_key total_tok split: option.splits)

lemma frequency_returns: "sound_tokens ws js t \<Longrightarrow> returns (cmd_set_frequency e i rid js t w)"
  unfolding cmd_set_frequency_def by (rule total_guarded, assumption, rule total_key) (auto intro: total_tok)

lemma rate_returns: "sound_tokens ws js t \<Longrightarrow> returns (cmd_set_sample_rate e i rid js t w)"
  unfolding cmd_set_sample_rate_def
  by (rule total_guarded, assumption, rule total_if, simp, rule total_key) (auto intro: total_tok)

definition tame_gains :: "'d env \<Rightarrow> 'd world \<Rightarrow> bool" where
  "tame_gains e w \<longleftrightarrow> (\<forall>g \<in> set (gain_table (load_gain_table e w)). \<bar>g\<bar> < 2 ^ 20)"

lemma rf_gain_returns: "tame_gains e w \<Longrightarrow> returns (set_rf_gain e i rid js tok s w)"
proof -
  assume "tame_gains e w"
  then have "on_gain_list (strtod s) (gain_table (load_gain_table e w)) \<Longrightarrow> int_round (dmul (strtod s) (Fin 10)) \<noteq> None"
    by (intro listed_gain_converts) (simp_all add: tame_gains_def)
  then show ?thesis
    by (auto simp: set_rf_gain_def Let_def rtl_set_gain_def returns_def split: option.splits)
qed

lemma control_returns: "sound_tokens ws js t \<Longrightarrow> tame_gains e w \<Longrightarrow> returns (cmd_set_control e i rid js t w)"
proof -
  assume a: "sound_tokens ws js t" "tame_gains e w"
  have v: "returns (set_control_value e i rid js nt vt w)" for nt vt
    using rf_gain_returns [OF a(2)]
    by (simp add: set_control_value_def set_agc_def set_bias_tee_def set_ppm_def set_direct_sampling_def Let_def
        split: option.splits prod.splits)
  show ?thesis
    unfolding cmd_set_control_def
    by (rule total_guarded [OF a(1)], rule total_key, assumption, assumption)
      (rule total_key, assumption, assumption, auto intro!: total_key total_tok v split: option.splits)
qed

lemma get_control_returns: "sound_tokens ws js t \<Longrightarrow> returns (cmd_get_control i rid js t w)"
  unfolding cmd_get_control_def Let_def
  by (rule total_function, assumption, rule total_channel, assumption, assumption, rule total_key)
    (auto intro!: total_tok split: option.splits)

lemma stream_returns: "sound_tokens ws js t \<Longrightarrow> returns (cmd_start_rx e i rid js t w)"
  "sound_tokens ws js t \<Longrightarrow> returns (cmd_stop_rx e i rid js t w)" "sound_tokens ws js t \<Longrightarrow> returns (cmd_close_stream e i rid js t w)"
  by (auto simp: cmd_start_rx_def cmd_stop_rx_def cmd_close_stream_def intro: total_stream)

text \<open>Opening a stream: each nested lookup happens in a token whose type was checked to be an object.\<close>

lemma total_tok_is: "value_at ws js t j v \<Longrightarrow> returns (tok_is js t j s)"
  unfolding tok_is_def by (rule total_tok) simp_all

lemma format_returns:
  assumes "\<And>j. lbl = Some j \<Longrightarrow> \<exists>v. value_at ws js t j v" and "\<And>j. enc = Some j \<Longrightarrow> \<exists>v. value_at ws js t j v"
    and "\<And>j. bits = Some j \<Longrightarrow> \<exists>v. value_at ws js t j v"
  shows "returns (format_matched js t lbl enc bits)"
proof -
  have is_tok: "returns (tok_is js t j s)" if "\<exists>v. value_at ws js t j v" for j s
    using that total_tok_is by blast
  have l: "returns (case lbl of None \<Rightarrow> Some False | Some l \<Rightarrow> tok_is js t l ''u8'')"
    using assms(1) is_tok by (cases lbl) auto
  have r: "returns (case (enc, bits) of
             (Some en, Some b) \<Rightarrow> (case tok_is js t en ''unsigned'' of Some True \<Rightarrow> tok_is js t b ''8'' | r \<Rightarrow> r)
           | (Some en, None) \<Rightarrow> tok_is js t en ''unsigned''
           | _ \<Rightarrow> Some False)"
  proof (cases enc)
    case (Some en)
    then obtain b where "tok_is js t en ''unsigned'' = Some b" using is_tok [of en "''unsigned''"] assms(2) by (auto simp: returns_def)
    then show ?thesis using Some assms(3) is_tok by (cases bits; cases b) auto
  qed simp
  show ?thesis unfolding format_matched_def using l r by (auto simp: returns_def split: option.splits bool.splits)
qed

lemma object_plain: "json_type v = JSMN_OBJECT \<Longrightarrow> plain v"
  by (cases v) auto

lemma open_format_returns:
  assumes "value_at ws js t vi v" and "plain v" and "returns k"
  shows "returns (open_format i rid js t vi w k)"
  unfolding open_format_def
proof (rule total_key [OF assms(1,2)])
  fix f fv
  assume f: "value_at ws js t f fv"
  have "returns (with_key js t f ''label'' (\<lambda>lbl. with_key js t f ''encoding'' (\<lambda>enc.
           with_key js t f ''bits_per_component'' (\<lambda>bits.
             case format_matched js t lbl enc bits of
               None \<Rightarrow> None
             | Some True \<Rightarrow> k
             | Some False \<Rightarrow> open_fail i rid ''unsupported_format''
                  ''This device streams unsigned 8-bit IQ only; see capabilities.rx.iq_formats'' w))))" if "plain fv"
  proof -
    have m: "returns (case format_matched js t lbl enc bits of None \<Rightarrow> None | Some True \<Rightarrow> k
             | Some False \<Rightarrow> open_fail i rid ''unsupported_format''
                  ''This device streams unsigned 8-bit IQ only; see capabilities.rx.iq_formats'' w)"
      if "\<And>j. lbl = Some j \<Longrightarrow> \<exists>v. value_at ws js t j v" "\<And>j. enc = Some j \<Longrightarrow> \<exists>v. value_at ws js t j v"
        "\<And>j. bits = Some j \<Longrightarrow> \<exists>v. value_at ws js t j v" for lbl enc bits
      using format_returns [OF that] assms(3) by (auto simp: returns_def open_fail_def split: option.splits bool.splits)
    show ?thesis by (rule total_key [OF f that]; rule total_key [OF f that]; rule total_key [OF f that]; rule m; blast)
  qed
  then show "returns (case Some f of None \<Rightarrow> k
     | Some f \<Rightarrow> with_tok t f (\<lambda>ft.
         if tk_type ft \<noteq> JSMN_OBJECT then k
         else with_key js t f ''label'' (\<lambda>lbl. with_key js t f ''encoding'' (\<lambda>enc.
           with_key js t f ''bits_per_component'' (\<lambda>bits.
             case format_matched js t lbl enc bits of
               None \<Rightarrow> None
             | Some True \<Rightarrow> k
             | Some False \<Rightarrow> open_fail i rid ''unsupported_format''
                  ''This device streams unsigned 8-bit IQ only; see capabilities.rx.iq_formats'' w)))))"
    unfolding option.case using f assms(3) by (auto intro!: total_tok simp: object_plain)
qed (use assms(3) in simp)

lemma open_destination_returns:
  assumes "value_at ws js t vi v" and "plain v"
  shows "returns (open_destination e i rid js t vi w)"
  unfolding open_destination_def Let_def
  by (rule total_key [OF assms], simp, unfold option.case, rule total_tok, assumption, rule total_if, simp)
    (rule total_key, assumption, simp add: object_plain,
     auto intro!: total_key total_tok simp: object_plain split: option.splits)

lemma open_transport_returns:
  assumes "value_at ws js t p v" and "plain v"
  shows "returns (open_transport e i rid js t p w)"
proof -
  have missing: "returns (with_key js t p ''destination'' (\<lambda>d. open_fail i rid ''missing_parameter''
      (if d \<noteq> None then ''Transport parameters belong inside a vita object since Release 1.2; see SDR-SLC-CP-1.0 14.2''
       else ''vita transport object required'') w))"
    by (rule total_key [OF assms]) simp_all
  have rest: "returns (open_format i rid js t vi w (open_destination e i rid js t vi w))" if "value_at ws js t vi vv" "plain vv" for vi vv
    using that by (intro open_format_returns open_destination_returns)
  show ?thesis
    unfolding open_transport_def Let_def
    by (rule total_key [OF assms], use missing in simp, unfold option.case, rule total_tok, assumption, rule total_if, rule missing)
      (rule total_key, assumption, simp add: object_plain,
       auto intro!: rest total_tok simp: object_plain split: option.splits)
qed

lemma open_stream_returns: "sound_tokens ws js t \<Longrightarrow> returns (cmd_open_stream e i rid js t w)"
  unfolding cmd_open_stream_def
  by (rule total_function, assumption, rule total_channel, assumption, assumption, rule total_if)
    (auto intro!: total_key total_tok open_transport_returns split: prod.splits)

lemma addresses_returns: "sound_tokens ws js t \<Longrightarrow> returns (cmd_addresses_rx cmd js t)"
proof -
  assume "sound_tokens ws js t"
  then have "returns (find_params js t (\<lambda>p. case p of
             None \<Rightarrow> Some False
           | Some p \<Rightarrow> with_key js t p ''function'' (\<lambda>f. case f of
               None \<Rightarrow> Some False
             | Some f \<Rightarrow> with_tok t f (\<lambda>tok. Some (tok_eq js tok ''rx'')))))"
    by (rule total_params) (auto intro!: total_key total_tok)
  then show ?thesis unfolding cmd_addresses_rx_def by (intro total_if) (rule returns_simps | assumption)+
qed

lemma serve_returns:
  assumes "sound_tokens ws js t" and "tame_gains e w"
  shows "returns (serve e i cmd rid js t w)"
proof -
  have "returns (dispatch e i cmd rid js t w)"
    using assms by (simp add: dispatch_def hello_returns authenticate_returns frequency_returns rate_returns control_returns
        open_stream_returns stream_returns get_control_returns cmd_get_capabilities_def cmd_ping_def cmd_get_status_def
        cmd_get_clock_status_def Let_def)
  moreover have "returns (cmd_addresses_rx cmd js t)" by (rule addresses_returns [OF assms(1)])
  ultimately show ?thesis by (auto simp: serve_def returns_def split: option.splits bool.splits)
qed

text \<open>The message: an object whose \<open>params\<close>, if present, can be searched for keys.\<close>

definition good_message :: "string \<Rightarrow> (string \<times> json) list \<Rightarrow> bool" where
  "good_message ws kvs \<longleftrightarrow> jwf (JObj kvs) \<and> list_all json_space ws \<and> length (jtoks ws 0 (JObj kvs)) \<le> MAX_JSON_TOKENS
     \<and> (\<forall>v. map_of kvs ''params'' = Some v \<longrightarrow> plain v)"

lemma good_message_parsed:
  assumes "good_message ws kvs"
  shows "jsmn_parse MAX_JSON_TOKENS (jtext ws (JObj kvs)) = Inr (jtoks ws 0 (JObj kvs))"
    and "sound_tokens ws (jtext ws (JObj kvs)) (jtoks ws 0 (JObj kvs))"
  using assms value_at_0 [of ws "JObj kvs"]
  by (auto simp: good_message_def jsmn_parse_text sound_tokens_def simp del: jtext.simps jtoks_object)

lemma good_message_returns:
  assumes "good_message ws kvs" and "tame_gains e w"
  shows "returns (handle_message e i (jtext ws (JObj kvs)) w)"
proof -
  let ?js = "jtext ws (JObj kvs)" and ?t = "jtoks ws 0 (JObj kvs)"
  note p = good_message_parsed [OF assms(1)] and root = value_at_0 [of ws "JObj kvs"]
  have hd: "?t \<noteq> []" "tk_type (hd ?t) = JSMN_OBJECT" by simp_all
  show ?thesis
    unfolding handle_message_def Let_def p(1) sum.case
    by (rule total_if, simp)
      (rule total_key [OF root], simp,
       auto intro!: total_key [OF root] total_tok serve_returns [OF p(2) assms(2)] split: option.splits
         simp del: jtext.simps jtoks_object)
qed

section \<open>The envelope of a good message\<close>

lemma json_safe_no_nul: "json_safe s \<Longrightarrow> CHR 0x00 \<notin> set s"
proof (induction s rule: json_safe.induct)
  case (2 c s)
  show ?case
  proof (cases "c = CHR 0x5C")
    case False
    with 2 show ?thesis by auto
  next
    case True
    with 2 obtain d r where s: "s = d # r" by (cases s) auto
    show ?thesis
    proof (cases "d = CHR ''u''")
      case u: True
      have "list_all is_hex (take 4 r)" "json_safe (drop 4 r)" using 2 True s u by auto
      moreover have "\<not> is_hex (CHR 0x00)" by (simp add: is_hex_def)
      ultimately have "CHR 0x00 \<notin> set (take 4 r)" "CHR 0x00 \<notin> set (drop 4 r)"
        using 2(1) [OF True s u] by (auto simp: list_all_iff)
      then have "CHR 0x00 \<notin> set r" by (metis UnE append_take_drop_id set_append)
      with True s u show ?thesis by simp
    next
      case nu: False
      have "simple_escape d" "json_safe r" using 2 True s nu by auto
      with 2(2) [OF True s nu] True s show ?thesis by (auto simp: simple_escape_def)
    qed
  qed
qed simp

lemma string_tok_str:
  assumes "value_at ws js t i (JStr s)" and "json_safe s" and "length s < cap"
  shows "\<exists>tok. tok_at t i = Some tok \<and> tok_str js tok cap = s \<and> (\<forall>key. tok_eq js tok key \<longleftrightarrow> s = key)"
proof -
  have "cstr s = s" using json_safe_no_nul [OF assms(2)] by (simp add: cstr_def takeWhile_eq_all_conv) metis
  then show ?thesis using string_at [OF assms(1)] assms(3) by (auto simp: tok_str_def)
qed

definition is_request :: "string \<Rightarrow> string \<Rightarrow> (string \<times> json) list \<Rightarrow> bool" where
  "is_request rid cmd kvs \<longleftrightarrow> map_of kvs ''type'' = Some (JStr ''request'') \<and> map_of kvs ''id'' = Some (JStr rid)
     \<and> map_of kvs ''command'' = Some (JStr cmd) \<and> length rid < 128 \<and> length cmd < 64"

lemma member_safe: "jwf (JObj kvs) \<Longrightarrow> map_of kvs key = Some (JStr s) \<Longrightarrow> json_safe s"
  by (auto simp: list_all_iff dest!: map_of_SomeD)

lemma good_request:
  assumes "good_message ws kvs" and "is_request rid cmd kvs"
  shows "request_of (jtext ws (JObj kvs)) = Some (rid, cmd, jtoks ws 0 (JObj kvs))"
proof -
  let ?js = "jtext ws (JObj kvs)" and ?t = "jtoks ws 0 (JObj kvs)"
  note p = good_message_parsed(1) [OF assms(1)] and root = value_at_0 [of ws "JObj kvs"]
  have wf: "jwf (JObj kvs)" using assms(1) by (simp add: good_message_def)
  have m: "map_of kvs ''type'' = Some (JStr ''request'')" "map_of kvs ''id'' = Some (JStr rid)" "map_of kvs ''command'' = Some (JStr cmd)"
    "length rid < 128" "length cmd < 64" using assms(2) by (simp_all add: is_request_def)
  obtain ti where ti: "tok_find_key ?js ?t 0 ''type'' = Some (Some ti)" "value_at ws ?js ?t ti (JStr ''request'')"
    using find_key_object [OF root, of "''type''"] m(1) by auto
  obtain ii where ii: "tok_find_key ?js ?t 0 ''id'' = Some (Some ii)" "value_at ws ?js ?t ii (JStr rid)"
    using find_key_object [OF root, of "''id''"] m(2) by auto
  obtain ci where ci: "tok_find_key ?js ?t 0 ''command'' = Some (Some ci)" "value_at ws ?js ?t ci (JStr cmd)"
    using find_key_object [OF root, of "''command''"] m(3) by auto
  obtain a where a: "tok_at ?t ti = Some a" "tok_eq ?js a ''request''" using string_at [OF ti(2)] by auto
  obtain b where b: "tok_at ?t ii = Some b" "tok_str ?js b 128 = rid" using string_tok_str [OF ii(2) member_safe [OF wf m(2)] m(4)] by auto
  obtain c where c: "tok_at ?t ci = Some c" "tok_str ?js c 64 = cmd" using string_tok_str [OF ci(2) member_safe [OF wf m(3)] m(5)] by auto
  have hd: "?t \<noteq> []" "tk_type (hd ?t) = JSMN_OBJECT" by simp_all
  show ?thesis
    unfolding request_of_def p sum.case with_key_def with_tok_def ti(1) ii(1) ci(1) option.case prod.case a(1) b(1) c(1)
    using hd a(2) b(2) c(2) by (simp del: jtext.simps jtoks_object)
qed

section \<open>The gain table is read once\<close>

definition table_kept :: "'d env \<Rightarrow> 'd world \<Rightarrow> 'd world \<Rightarrow> bool" where
  "table_kept e w w' \<longleftrightarrow> w_gains w' = w_gains w \<or> w_gains w' = w_gains (load_gain_table e w)"

lemma gains_frame [simp, frame]:
  "w_gains (cp_rx_release i w) = w_gains w" "w_gains (drop_vita i w) = w_gains w" "w_gains (stop_reader e w) = w_gains w"
  "w_gains (on_rtl h w) = w_gains w" "w_gains (on_vita vf w) = w_gains w"
  "w_gains (send_context_all w) = w_gains w" "w_gains (clamp_frequency e w) = w_gains w" "w_gains (clamp_rate e w) = w_gains w"
  "w_gains (apply_mode_change_side_effects e w) = w_gains w" "w_gains (issue_nonce e i w) = w_gains w"
  by (simp_all add: cp_rx_release_def drop_vita_def stop_reader_def on_rtl_def on_vita_def send_context_all_def clamp_frequency_def
      clamp_rate_def apply_mode_change_side_effects_def issue_nonce_def Let_def case_prod_unfold split: option.splits)

lemma settings_table:
  "table_kept e w (hello_accept e i rid name w)" "table_kept e w (auth_decide e i rid method kid resp w)"
  "table_kept e w (set_frequency_value e i rid s w)" "table_kept e w (set_sample_rate_value e i rid s w)"
  "pred_option (table_kept e w) (set_rf_gain e i rid js tok s w)" "pred_option (table_kept e w) (set_agc e i rid js tok w)"
  "pred_option (table_kept e w) (set_bias_tee e i rid js tok s w)" "pred_option (table_kept e w) (set_ppm e i rid js tok s w)"
  "pred_option (table_kept e w) (set_direct_sampling e i rid js tok s w)"
  "table_kept e w (start_rx_do e i rid w)" "table_kept e w (stop_rx_do e i rid w)" "table_kept e w (close_stream_do e i rid w)"
  by (simp_all add: table_kept_def hello_accept_def auth_decide_def auth_refuse_def set_frequency_value_def set_sample_rate_value_def
      set_rf_gain_def set_agc_def set_bias_tee_def set_ppm_def set_direct_sampling_def start_rx_do_def stop_rx_do_def
      close_stream_do_def Let_def case_prod_unfold split: option.splits)

lemma table_kept_cong: "w_gains w' = w_gains w'' \<Longrightarrow> table_kept e w w' \<longleftrightarrow> table_kept e w w''"
  by (simp add: table_kept_def)

lemma open_table:
  assumes "w_gains w = w_gains w0"
  shows "pred_option (table_kept e w0) (open_transport e i rid js t p w)" "pred_option (table_kept e w0) (open_fail i rid c m w)"
proof -
  show fail: "pred_option (table_kept e w0) (open_fail i rid c m w)" for c m using assms by (simp add: open_fail_def table_kept_def)
  have "table_kept e w0 (open_accept e i rid ip addr port w)" for ip addr port
    using assms by (simp add: open_accept_def alloc_stream_id_def Let_def table_kept_def)
  then have "pred_option (table_kept e w0) (open_destination e i rid js t vi w)" for vi
    unfolding open_destination_def by (intro vcg) (auto simp: fail Let_def intro!: vcg split: option.splits)
  then have "pred_option (table_kept e w0) (open_format i rid js t vi w (open_destination e i rid js t vi w))" for vi
    unfolding open_format_def by (intro vcg) (auto simp: fail split: bool.splits)
  then show "pred_option (table_kept e w0) (open_transport e i rid js t p w)"
    unfolding open_transport_def Let_def by (intro vcg) (auto simp: fail)
qed

lemma sent_table [simp]: "table_kept e w (send_framed i s w)" "table_kept e w w"
  by (simp_all add: table_kept_def)

lemma commands_table:
  "pred_option (table_kept e w) (cmd_hello e i rid js t w)" "pred_option (table_kept e w) (cmd_authenticate e i rid js t w)"
  "pred_option (table_kept e w) (cmd_set_frequency e i rid js t w)" "pred_option (table_kept e w) (cmd_set_sample_rate e i rid js t w)"
  "pred_option (table_kept e w) (cmd_set_control e i rid js t w)" "pred_option (table_kept e w) (cmd_get_control i rid js t w)"
  "pred_option (table_kept e w) (cmd_start_rx e i rid js t w)" "pred_option (table_kept e w) (cmd_stop_rx e i rid js t w)"
  "pred_option (table_kept e w) (cmd_close_stream e i rid js t w)"
  unfolding cmd_hello_def cmd_authenticate_def cmd_set_frequency_def cmd_set_sample_rate_def cmd_set_control_def cmd_get_control_def
    cmd_start_rx_def cmd_stop_rx_def cmd_close_stream_def Let_def
  by (intro vcg; auto simp: settings_table set_control_value_def Let_def intro!: vcg split: option.splits prod.splits)+

lemma open_stream_table: "pred_option (table_kept e w) (cmd_open_stream e i rid js t w)"
proof -
  obtain ok w' where cl: "cp_rx_claim i w = (ok, w')" by (cases "cp_rx_claim i w")
  then have w': "w_gains w' = w_gains w" by (auto simp: cp_rx_claim_def split: if_splits)
  then have "table_kept e w (send_framed i s w')" for s by (simp add: table_kept_def)
  then show ?thesis
    unfolding cmd_open_stream_def cl prod.case using w' by (intro vcg) (auto simp: open_table)
qed

lemma handle_message_table: "pred_option (table_kept e w) (handle_message e i js w)"
proof -
  have "pred_option (table_kept e w) (dispatch e i cmd rid js t w)" for cmd rid t
    unfolding dispatch_def
    by (intro post_if commands_table open_stream_table)
      (simp_all add: cmd_get_capabilities_def cmd_ping_def cmd_get_status_def cmd_get_clock_status_def Let_def table_kept_def)
  then have "pred_option (table_kept e w) (serve e i cmd rid js t w)" for cmd rid t
    by (simp add: serve_def split: option.split bool.split)
  then show ?thesis by (intro handle_message_serve) simp_all
qed

text \<open>With a library that reports gains below 100000 dB, no state of the daemon holds an entry the driver could not convert.\<close>

definition tame_lib :: "'d librtlsdr \<Rightarrow> bool" where
  "tame_lib lib \<longleftrightarrow> (\<forall>d. \<forall>g \<in> set (rtlsdr_get_tuner_gains lib d). \<bar>g\<bar> < 2 ^ 20)"

definition tame_table :: "'d world \<Rightarrow> bool" where
  "tame_table w \<longleftrightarrow> (\<forall>g \<in> set (gain_table w). \<bar>g\<bar> < 2 ^ 20)"

lemma tame_load: "tame_lib (e_lib e) \<Longrightarrow> tame_table w \<Longrightarrow> tame_gains e w"
proof -
  assume a: "tame_lib (e_lib e)" "tame_table w"
  then have l: "\<forall>g \<in> set (rtl_get_gain_list (e_lib e) (w_rtl w)). \<bar>g\<bar> < 2 ^ 20"
    unfolding tame_lib_def rtl_get_gain_list_def by simp
  show ?thesis
  proof (cases "w_gains w")
    case None
    then show ?thesis using l
      by (cases "rtl_get_gain_list (e_lib e) (w_rtl w)") (simp_all add: tame_gains_def gain_table_def load_gain_table_def)
  next
    case (Some gs)
    then show ?thesis using a(2) by (simp add: tame_gains_def tame_table_def load_gain_table_def)
  qed
qed

lemma tame_step: "tame_lib (e_lib e) \<Longrightarrow> tame_table w \<Longrightarrow> table_kept e w w' \<Longrightarrow> tame_table w'"
proof -
  assume a: "tame_lib (e_lib e)" "tame_table w" "table_kept e w w'"
  from a(3) consider "gain_table w' = gain_table w" | "gain_table w' = gain_table (load_gain_table e w)"
    by (auto simp: table_kept_def gain_table_def)
  then show ?thesis using a(2) tame_load [OF a(1,2)] by cases (simp_all add: tame_table_def tame_gains_def)
qed

section \<open>A connection of good messages\<close>

lemma serve_all_returns:
  assumes "\<forall>m \<in> set ms. \<exists>ws kvs. m = jtext ws (JObj kvs) \<and> good_message ws kvs" and "\<forall>k. tame_lib (e_lib (env k))"
    and "tame_table w"
  shows "returns (serve_all env k i ms w)"
  using assms(1,3)
proof (induction ms arbitrary: k w)
  case (Cons m ms)
  obtain ws kvs where m: "m = jtext ws (JObj kvs)" "good_message ws kvs" using Cons.prems(1) by auto
  have tame: "tame_lib (e_lib (env k))" using assms(2) by blast
  have "returns (handle_message (env k) i m w)"
    unfolding m(1) by (rule good_message_returns [OF m(2) tame_load [OF tame Cons.prems(2)]])
  then obtain w' where w': "handle_message (env k) i m w = Some w'" by (auto simp: returns_def)
  have "tame_table w'"
    using tame_step [OF tame Cons.prems(2)] handle_message_table [of "env k" w i m] w' by simp
  with Cons.IH [of w' "Suc k"] Cons.prems(1) show ?case by (simp add: w')
qed simp

end
