(* ===== verification/Client_Script.thy ===== *)
theory Client_Script
  imports Daemon Cp_Wellformed
begin

text \<open>
  The messages of a client that takes the receiver into service, evaluated through the tokeniser, the key lookup and the
  dispatch: \<open>hello\<close>, \<open>open_stream\<close> to the loopback interface, \<open>start_rx\<close>. Concrete runs of the daemon are built from them.
\<close>

section \<open>Three requests\<close>

definition demo_hello :: string where
  \<open>demo_hello = ''{"type":"request","id":"1","command":"hello","params":{"supported_protocol_versions":["1.0"]}}''\<close>

definition demo_open :: string where
  \<open>demo_open = ''{"type":"request","id":"2","command":"open_stream","params":{"function":"rx","protocol":"vita49","vita":{"destination":{"ip":"127.0.0.1","port":5000}}}}''\<close>

definition demo_start :: string where
  \<open>demo_start = ''{"type":"request","id":"3","command":"start_rx","params":{"stream_id":"rx-1"}}''\<close>

definition tokens :: "string \<Rightarrow> jsmntok_t list" where
  "tokens js = (case jsmn_parse MAX_JSON_TOKENS js of Inl _ \<Rightarrow> [] | Inr t \<Rightarrow> t)"

definition tk :: "jsmntype_t \<Rightarrow> int \<Rightarrow> int \<Rightarrow> int \<Rightarrow> jsmntok_t" where
  "tk ty a b n = \<lparr>tk_type = ty, tk_start = a, tk_end = b, tk_size = n\<rparr>"

lemma demo_hello_tokens: "tokens demo_hello =
    [tk JSMN_OBJECT 0 94 4, tk JSMN_STRING 2 6 1, tk JSMN_STRING 9 16 0, tk JSMN_STRING 19 21 1,
     tk JSMN_STRING 24 25 0, tk JSMN_STRING 28 35 1, tk JSMN_STRING 38 43 0, tk JSMN_STRING 46 52 1,
     tk JSMN_OBJECT 54 93 1, tk JSMN_STRING 56 83 1, tk JSMN_ARRAY 85 92 1, tk JSMN_STRING 87 90 0]"
  by code_simp

lemma demo_open_tokens: "tokens demo_open =
    [tk JSMN_OBJECT 0 152 4, tk JSMN_STRING 2 6 1, tk JSMN_STRING 9 16 0, tk JSMN_STRING 19 21 1,
     tk JSMN_STRING 24 25 0, tk JSMN_STRING 28 35 1, tk JSMN_STRING 38 49 0, tk JSMN_STRING 52 58 1,
     tk JSMN_OBJECT 60 151 3, tk JSMN_STRING 62 70 1, tk JSMN_STRING 73 75 0, tk JSMN_STRING 78 86 1,
     tk JSMN_STRING 89 95 0, tk JSMN_STRING 98 102 1, tk JSMN_OBJECT 104 150 1, tk JSMN_STRING 106 117 1,
     tk JSMN_OBJECT 119 149 2, tk JSMN_STRING 121 123 1, tk JSMN_STRING 126 135 0, tk JSMN_STRING 138 142 1,
     tk JSMN_PRIMITIVE 144 148 0]"
  by code_simp

lemma demo_start_tokens: "tokens demo_start =
    [tk JSMN_OBJECT 0 78 4, tk JSMN_STRING 2 6 1, tk JSMN_STRING 9 16 0, tk JSMN_STRING 19 21 1,
     tk JSMN_STRING 24 25 0, tk JSMN_STRING 28 35 1, tk JSMN_STRING 38 46 0, tk JSMN_STRING 49 55 1,
     tk JSMN_OBJECT 57 77 1, tk JSMN_STRING 59 68 1, tk JSMN_STRING 71 75 0]"
  by code_simp

lemma handle_message_tokens:
  assumes "request_of js = Some (rid, cmd, tokens js)"
  shows "handle_message e i js w = serve e i cmd rid js (tokens js) w"
  by (rule handle_message_request [OF assms])

lemma demo_requests:
  "request_of demo_hello = Some (''1'', ''hello'', tokens demo_hello)"
  "request_of demo_open = Some (''2'', ''open_stream'', tokens demo_open)"
  "request_of demo_start = Some (''3'', ''start_rx'', tokens demo_start)"
  by code_simp+

lemma demo_hello_keys:
  "tok_find_key demo_hello (tokens demo_hello) 0 ''params'' = Some (Some 8)"
  "tok_find_key demo_hello (tokens demo_hello) 8 ''supported_protocol_versions'' = Some (Some 10)"
  "tok_find_key demo_hello (tokens demo_hello) 8 ''client_name'' = Some None"
  "tok_at (tokens demo_hello) 10 = Some \<lparr>tk_type = JSMN_ARRAY, tk_start = 85, tk_end = 92, tk_size = 1\<rparr>"
  "hello_versions demo_hello (tokens demo_hello) (Suc 0) 11 (False, False) = Some (True, False)"
  unfolding demo_hello_tokens by code_simp+

lemma demo_open_keys:
  "tok_find_key demo_open (tokens demo_open) 0 ''params'' = Some (Some 8)"
  "tok_find_key demo_open (tokens demo_open) 8 ''function'' = Some (Some 10)"
  "tok_find_key demo_open (tokens demo_open) 8 ''channel'' = Some None"
  "tok_find_key demo_open (tokens demo_open) 8 ''protocol'' = Some (Some 12)"
  "tok_find_key demo_open (tokens demo_open) 8 ''vita'' = Some (Some 14)"
  "tok_find_key demo_open (tokens demo_open) 14 ''protocol_version'' = Some None"
  "tok_find_key demo_open (tokens demo_open) 14 ''format'' = Some None"
  "tok_find_key demo_open (tokens demo_open) 14 ''destination'' = Some (Some 16)"
  "tok_find_key demo_open (tokens demo_open) 16 ''ip'' = Some (Some 18)"
  "tok_find_key demo_open (tokens demo_open) 16 ''port'' = Some (Some 20)"
  unfolding demo_open_tokens by code_simp+

lemma demo_open_toks:
  "tok_at (tokens demo_open) 10 = Some \<lparr>tk_type = JSMN_STRING, tk_start = 73, tk_end = 75, tk_size = 0\<rparr>"
  "tok_at (tokens demo_open) 12 = Some \<lparr>tk_type = JSMN_STRING, tk_start = 89, tk_end = 95, tk_size = 0\<rparr>"
  "tok_at (tokens demo_open) 14 = Some \<lparr>tk_type = JSMN_OBJECT, tk_start = 104, tk_end = 150, tk_size = 1\<rparr>"
  "tok_at (tokens demo_open) 16 = Some \<lparr>tk_type = JSMN_OBJECT, tk_start = 119, tk_end = 149, tk_size = 2\<rparr>"
  "tok_at (tokens demo_open) 18 = Some \<lparr>tk_type = JSMN_STRING, tk_start = 126, tk_end = 135, tk_size = 0\<rparr>"
  "tok_at (tokens demo_open) 20 = Some \<lparr>tk_type = JSMN_PRIMITIVE, tk_start = 144, tk_end = 148, tk_size = 0\<rparr>"
  "tok_eq demo_open \<lparr>tk_type = JSMN_STRING, tk_start = 73, tk_end = 75, tk_size = 0\<rparr> ''rx''"
  "tok_eq demo_open \<lparr>tk_type = JSMN_STRING, tk_start = 89, tk_end = 95, tk_size = 0\<rparr> ''vita49''"
  "tok_str demo_open \<lparr>tk_type = JSMN_STRING, tk_start = 126, tk_end = 135, tk_size = 0\<rparr> 16 = ''127.0.0.1''"
  "tok_str demo_open \<lparr>tk_type = JSMN_PRIMITIVE, tk_start = 144, tk_end = 148, tk_size = 0\<rparr> 8 = ''5000''"
  unfolding demo_open_tokens by code_simp+

lemma demo_numbers: "inet_pton ''127.0.0.1'' = Some 0x7F000001" "strtoull ''5000'' = (5000, False)"
  by (simp_all add: inet_pton_def octet_ok_def digit_val_def strtoull_def isdigit_def isspace_def dec_value_def)

lemma demo_start_keys:
  "tok_find_key demo_start (tokens demo_start) 0 ''params'' = Some (Some 8)"
  "tok_find_key demo_start (tokens demo_start) 8 ''stream_id'' = Some (Some 10)"
  "tok_at (tokens demo_start) 10 = Some \<lparr>tk_type = JSMN_STRING, tk_start = 71, tk_end = 75, tk_size = 0\<rparr>"
  "tok_str demo_start \<lparr>tk_type = JSMN_STRING, tk_start = 71, tk_end = 75, tk_size = 0\<rparr> 32 = ''rx-1''"
  unfolding demo_start_tokens by code_simp+

section \<open>What they do\<close>

lemma serve_passes:
  assumes "ss_state (sess i w) \<noteq> SESSION_AWAIT_HELLO" and "\<not> w_rx_auth w \<or> ss_rx_unlocked (sess i w)"
  shows "serve e i cmd rid js t w = dispatch e i cmd rid js t w"
  using assms by (cases "w_rx_auth w") (simp_all add: serve_def cp_rx_requires_auth_def)

lemma demo_hello_does: "handle_message e i demo_hello w = Some (hello_accept e i ''1'' ''(unnamed)'' w)"
  by (simp add: handle_message_tokens [OF demo_requests(1)] serve_def cmd_addresses_rx_def dispatch_def cmd_hello_def
      find_params_def with_key_def with_tok_def demo_hello_keys Let_def del: hello_versions.simps)

lemma demo_open_does:
  assumes "ss_state (sess i w) \<noteq> SESSION_AWAIT_HELLO" and "\<not> w_rx_auth w \<or> ss_rx_unlocked (sess i w)"
    and "\<not> ss_stream_open (sess i w)" and "w_rx_owner w = None"
  shows "handle_message e i demo_open w = Some (open_accept e i ''2'' ''127.0.0.1'' 0x7F000001 5000 (claimed i w))"
proof -
  have c: "cp_rx_claim i w = (True, claimed i w)" using assms(4) by (simp add: cp_rx_claim_def claimed_def)
  show ?thesis using assms(3)
    by (simp add: handle_message_tokens [OF demo_requests(2)] serve_passes [OF assms(1,2)] dispatch_def cmd_open_stream_def require_function_def
        channel_ok_def open_transport_def open_format_def open_destination_def c
        find_params_def with_key_def with_tok_def demo_open_keys demo_open_toks demo_numbers Let_def)
qed

lemma demo_start_does:
  assumes "ss_state (sess i w) \<noteq> SESSION_AWAIT_HELLO" and "\<not> w_rx_auth w \<or> ss_rx_unlocked (sess i w)"
    and "ss_stream_open (sess i w)" and "ss_stream_id (sess i w) = ''rx-1''"
  shows "handle_message e i demo_start w = Some (start_rx_do e i ''3'' w)"
  using assms(3,4)
  by (simp add: handle_message_tokens [OF demo_requests(3)] serve_passes [OF assms(1,2)] dispatch_def cmd_start_rx_def
      with_stream_def find_params_def with_param_key_def with_key_def with_tok_def demo_start_keys Let_def)

section \<open>Concrete states\<close>

text \<open>Two clients; the first has said hello, opened its stream and started it.\<close>

definition demo_two :: "stub world" where
  "demo_two = snd (accept_connection demo_env 6 0x7F000001 (demo_connected False))"

definition demo_greeted :: "stub world" where
  "demo_greeted = hello_accept demo_env 0 ''1'' ''(unnamed)'' demo_two"

definition demo_opened :: "stub world" where
  "demo_opened = open_accept demo_env 0 ''2'' ''127.0.0.1'' 0x7F000001 5000 (claimed 0 demo_greeted)"

lemma demo_two_step: "step (demo_connected False) demo_two"
  by (rule step.connect [of 6 demo_env "0x7F000001" _ "fst (accept_connection demo_env 6 0x7F000001 (demo_connected False))"])
    (simp_all add: demo_two_def)

lemma demo_sessions: "w_sessions (demo_connected False) =
    session_zero\<lparr>ss_fd := 5, ss_client_ip := 0x7F000001, ss_vita_token := - 1,
      ss_frequency_hz := ucast RTL_DEFAULT_FREQ, ss_sample_rate_sps := RTL_DEFAULT_RATE_NORMAL,
      ss_rf_gain_db := tenths (g_gain_tenth_db (w_rtl (dm_world (demo_daemon False))))\<rparr> # replicate (MAX_SESSIONS - 1) session_zero"
proof -
  have "w_sessions (dm_world (demo_daemon False)) = replicate MAX_SESSIONS session_zero"
    using demo_initial(1) by (simp add: initial_def)
  then show ?thesis
    by (simp add: demo_connected_def accept_connection_def session_create_def MAX_SESSIONS_def numeral_eq_Suc session_zero_def
        demo_env_def upd_def)
qed

lemma demo_two_sess:
  "ss_fd (sess 0 demo_two) = 5" "\<not> ss_stream_open (sess 0 demo_two)" "live (Suc 0) demo_two" "w_rx_owner demo_two = None"
  "length (w_sessions demo_two) = MAX_SESSIONS" "w_rx_auth demo_two = False"
  using demo_connected_sess(4,5) [of False]
  by (simp_all add: demo_two_def accept_connection_def session_create_def demo_sessions MAX_SESSIONS_def numeral_eq_Suc
        session_zero_def demo_env_def live_def sess_def upd_def)

lemma demo_two_inv: "cp_inv demo_two"
  by (rule step_inv [OF demo_connected_inv demo_two_step])

lemma demo_greeted_sess:
  "live 0 demo_greeted" "live (Suc 0) demo_greeted" "ss_state (sess 0 demo_greeted) = SESSION_IDLE"
  "\<not> ss_stream_open (sess 0 demo_greeted)" "w_rx_owner demo_greeted = None" "\<not> w_rx_auth demo_greeted" "cp_inv demo_greeted"
  using demo_two_sess hello_accept_inv [OF demo_two_inv, of 0]
  by (simp_all add: demo_greeted_def hello_accept_def cp_rx_requires_auth_def live_def sess_upd MAX_SESSIONS_def)

lemma demo_opened_message: "handle_message demo_env 0 demo_open demo_greeted = Some demo_opened"
  using demo_greeted_sess by (simp add: demo_open_does demo_opened_def)

lemma demo_run: "step\<^sup>*\<^sup>* (dm_world (demo_daemon False)) demo_opened"
proof -
  have "step demo_two demo_greeted"
    using demo_two_sess by (intro step.message [OF _ demo_hello_does [of demo_env 0 demo_two, folded demo_greeted_def]])
      (simp add: live_def MAX_SESSIONS_def)
  moreover have "step demo_greeted demo_opened" by (rule step.message [OF demo_greeted_sess(1) demo_opened_message])
  ultimately show ?thesis
    using demo_connect_step [of False] demo_two_step by (meson converse_rtranclp_into_rtranclp rtranclp.rtrancl_refl)
qed

lemma demo_opened_sess: "cp_inv demo_opened" "live (Suc 0) demo_opened" "ss_stream_open (sess 0 demo_opened)"
  "w_rx_owner demo_opened = Some 0"
proof -
  show inv: "cp_inv demo_opened"
    using handle_message_inv [OF demo_greeted_sess(7,1), of demo_env demo_open] by (simp add: demo_opened_message)
  have len: "length (w_sessions demo_greeted) = MAX_SESSIONS" by (rule cp_invD(1) [OF demo_greeted_sess(7)])
  then show "live (Suc 0) demo_opened" "ss_stream_open (sess 0 demo_opened)"
    using demo_greeted_sess(2)
    by (simp_all add: demo_opened_def open_accept_def alloc_stream_id_def Let_def live_def sess_upd claimed_def MAX_SESSIONS_def)
  with inv show "w_rx_owner demo_opened = Some 0" by (simp add: owner_of_open [symmetric] MAX_SESSIONS_def)
qed

end
