(* ===== verification/Cp_Requests.thy ===== *)
theory Cp_Requests
  imports Cp_Wellformed
begin

text \<open>
  Requests end to end: what the commands of a client do when they succeed, stated on the JSON the client writes rather than on
  tokens, and the form of the replies it reads back. Members may come in any order and with others between them.
\<close>

section \<open>Lookups in a request\<close>

lemma key_present:
  assumes "value_at ws js t i (JObj kvs)" and "map_of kvs key = Some v"
  obtains j where "value_at ws js t j v" and "tok_find_key js t i key = Some (Some j)"
  using find_key_object [OF assms(1), of key] assms(2) by auto

lemma key_absent: "value_at ws js t i (JObj kvs) \<Longrightarrow> map_of kvs key = None \<Longrightarrow> tok_find_key js t i key = Some None"
  using find_key_object [of ws js t i kvs key] by simp

lemma string_tok:
  assumes "value_at ws js t i (JStr s)" and "CHR 0x00 \<notin> set s" and "length s < cap"
  obtains tok where "tok_at t i = Some tok" and "tok_str js tok cap = s" and "tok_eq js tok s"
proof -
  obtain tok where t: "tok_at t i = Some tok" "tok_text js tok = s" "tok_eq js tok s" using string_at [OF assms(1)] by blast
  have "tok_str js tok cap = s" using t(2) assms(3) cstr_id [OF assms(2)] by (simp add: tok_str_def)
  from that [OF t(1) this t(3)] show ?thesis .
qed

lemma number_tok:
  assumes "value_at ws js t i (JPrim (show_nat n))" and "length (show_nat n) < cap"
  obtains tok where "tok_at t i = Some tok" and "tok_str js tok cap = show_nat n"
proof -
  obtain tok where t: "tok_at t i = Some tok" "tok_text js tok = show_nat n" using prim_at [OF assms(1)] by blast
  have "CHR 0x00 \<notin> set (show_nat n)" using show_nat_isdigit [of n] by (auto simp: isdigit_def)
  then have "tok_str js tok cap = show_nat n" using t(2) assms(2) by (simp add: tok_str_def cstr_id)
  from that [OF t(1) this] show ?thesis .
qed

lemma object_tok:
  assumes "value_at ws js t i (JObj kvs)"
  obtains tok where "tok_at t i = Some tok" and "tk_type tok = JSMN_OBJECT"
  using value_tok [OF assms] by auto

lemmas lookups = with_key_def find_params_def with_tok_def with_param_key_def

lemma show_nat_length: "n < 10 ^ Suc k \<Longrightarrow> length (show_nat n) \<le> Suc k"
proof (induction k arbitrary: n)
  case 0
  then show ?case by (subst show_nat.simps) simp
next
  case (Suc k)
  then have "n div 10 < 10 ^ Suc k" by simp
  from Suc.IH [OF this] show ?case by (subst show_nat.simps) simp
qed

section \<open>Requests that pass the gates\<close>

text \<open>A request with the members \<open>ps\<close> in its \<open>params\<close>; one for the receiver names the function and no channel.\<close>

definition has_params :: "string \<Rightarrow> (string \<times> json) list \<Rightarrow> string \<Rightarrow> string \<Rightarrow> (string \<times> json) list \<Rightarrow> bool" where
  "has_params ws kvs rid cmd ps \<longleftrightarrow> good_message ws kvs \<and> is_request rid cmd kvs \<and> map_of kvs ''params'' = Some (JObj ps)"

definition for_rx :: "(string \<times> json) list \<Rightarrow> bool" where
  "for_rx ps \<longleftrightarrow> map_of ps ''function'' = Some (JStr ''rx'') \<and> map_of ps ''channel'' = None"

text \<open>A session that may address the receiver: greeted and, where that is required, authenticated.\<close>

definition admitted :: "nat \<Rightarrow> 'd world \<Rightarrow> bool" where
  "admitted i w \<longleftrightarrow> ss_state (sess i w) \<noteq> SESSION_AWAIT_HELLO \<and> (w_rx_auth w \<longrightarrow> ss_rx_unlocked (sess i w))"

lemma admitted_serve: "admitted i w \<Longrightarrow> serve e i cmd rid js t w = dispatch e i cmd rid js t w"
proof -
  assume "admitted i w"
  then have a: "ss_state (sess i w) \<noteq> SESSION_AWAIT_HELLO" "\<not> (cp_rx_requires_auth w \<and> \<not> ss_rx_unlocked (sess i w))"
    by (auto simp: admitted_def cp_rx_requires_auth_def)
  show ?thesis unfolding serve_def if_not_P [OF a(2)] using a(1) by simp
qed

lemma request_dispatched:
  assumes "has_params ws kvs rid cmd ps" and "admitted i w"
  obtains t p where "handle_message e i (jtext ws (JObj kvs)) w = dispatch e i cmd rid (jtext ws (JObj kvs)) t w"
    and "value_at ws (jtext ws (JObj kvs)) t p (JObj ps)" and "tok_find_key (jtext ws (JObj kvs)) t 0 ''params'' = Some (Some p)"
proof -
  let ?js = "jtext ws (JObj kvs)" and ?t = "jtoks ws 0 (JObj kvs)"
  have g: "good_message ws kvs" "is_request rid cmd kvs" "map_of kvs ''params'' = Some (JObj ps)"
    using assms(1) by (simp_all add: has_params_def)
  obtain p where p: "value_at ws ?js ?t p (JObj ps)" "tok_find_key ?js ?t 0 ''params'' = Some (Some p)"
    using key_present [OF value_at_0 g(3)] .
  have "handle_message e i ?js w = dispatch e i cmd rid ?js ?t w"
    using handle_message_request [OF good_request [OF g(1,2)], of e i w] admitted_serve [OF assms(2)] by (simp del: jtext.simps)
  from that [OF this p] show ?thesis .
qed

lemma rx_function:
  assumes "value_at ws js t p (JObj ps)" and "tok_find_key js t 0 ''params'' = Some (Some p)" and "for_rx ps"
  shows "require_function i rid js t w k = k p" and "channel_ok i rid js t p w k' = k'"
proof -
  have f: "map_of ps ''function'' = Some (JStr ''rx'')" "map_of ps ''channel'' = None" using assms(3) by (simp_all add: for_rx_def)
  obtain f where fi: "value_at ws js t f (JStr ''rx'')" "tok_find_key js t p ''function'' = Some (Some f)"
    using key_present [OF assms(1) f(1)] .
  obtain tok where tok: "tok_at t f = Some tok" "tok_eq js tok ''rx''" by (rule string_tok [OF fi(1), of 3]) simp_all
  show "require_function i rid js t w k = k p" using tok by (simp add: require_function_def lookups assms(2) fi(2))
  show "channel_ok i rid js t p w k' = k'" by (simp add: channel_ok_def lookups key_absent [OF assms(1) f(2)])
qed

section \<open>Tuning\<close>

lemma frequency_set:
  assumes rq: "has_params ws kvs rid ''set_frequency'' ps" and rx: "for_rx ps" and adm: "admitted i w"
    and num: "map_of ps ''frequency_hz'' = Some (JPrim (show_nat n))" "n < 10 ^ 18"
    and free: "\<not> cp_rx_owned_by_other i w"
  shows "handle_message e i (jtext ws (JObj kvs)) w = Some (set_frequency_value e i rid (show_nat n) w)"
proof -
  obtain t p where d: "handle_message e i (jtext ws (JObj kvs)) w = dispatch e i ''set_frequency'' rid (jtext ws (JObj kvs)) t w"
    "value_at ws (jtext ws (JObj kvs)) t p (JObj ps)" "tok_find_key (jtext ws (JObj kvs)) t 0 ''params'' = Some (Some p)"
    using request_dispatched [OF rq adm] .
  obtain f where f: "value_at ws (jtext ws (JObj kvs)) t f (JPrim (show_nat n))"
    "tok_find_key (jtext ws (JObj kvs)) t p ''frequency_hz'' = Some (Some f)" using key_present [OF d(2) num(1)] .
  have len: "length (show_nat n) < 32" using show_nat_length [of n 17] num(2) by simp
  obtain tok where tok: "tok_at t f = Some tok" "tok_str (jtext ws (JObj kvs)) tok 32 = show_nat n" using number_tok [OF f(1) len] .
  show ?thesis
    using free tok
    by (simp add: d(1) dispatch_def cmd_set_frequency_def guarded_def rx_function [OF d(2,3) rx] may_configure_def lookups f(2) del: jtext.simps)
qed

section \<open>Opening and starting a stream\<close>

text \<open>The members of an \<open>open_stream\<close> request for the address \<open>ip\<close> and the port \<open>n\<close>, format and protocol version left to the device.\<close>

definition opens_to :: "string \<Rightarrow> nat \<Rightarrow> (string \<times> json) list \<Rightarrow> bool" where
  "opens_to ip n ps \<longleftrightarrow> map_of ps ''protocol'' = Some (JStr ''vita49'')
     \<and> (\<exists>vs ds. map_of ps ''vita'' = Some (JObj vs) \<and> map_of vs ''protocol_version'' = None \<and> map_of vs ''format'' = None
         \<and> map_of vs ''destination'' = Some (JObj ds) \<and> map_of ds ''ip'' = Some (JStr ip) \<and> map_of ds ''port'' = Some (JPrim (show_nat n)))"

lemma destination_read:
  assumes v: "value_at ws js t vi (JObj vs)" and dst: "map_of vs ''destination'' = Some (JObj ds)"
    and ip: "map_of ds ''ip'' = Some (JStr ip)" "CHR 0x00 \<notin> set ip" "length ip < 16" "inet_pton ip = Some a"
    and port: "map_of ds ''port'' = Some (JPrim (show_nat n))" "0 < n" "n \<le> 65535"
  shows "open_destination e i rid js t vi w = Some (open_accept e i rid ip a (of_nat n) w)"
proof -
  obtain d where d: "value_at ws js t d (JObj ds)" "tok_find_key js t vi ''destination'' = Some (Some d)" using key_present [OF v dst] .
  obtain dt where dt: "tok_at t d = Some dt" "tk_type dt = JSMN_OBJECT" using object_tok [OF d(1)] .
  obtain x where x: "value_at ws js t x (JStr ip)" "tok_find_key js t d ''ip'' = Some (Some x)" using key_present [OF d(1) ip(1)] .
  obtain y where y: "value_at ws js t y (JPrim (show_nat n))" "tok_find_key js t d ''port'' = Some (Some y)" using key_present [OF d(1) port(1)] .
  obtain xt where xt: "tok_at t x = Some xt" "tok_str js xt 16 = ip" using string_tok [OF x(1) ip(2,3)] .
  have len: "length (show_nat n) < 8" using show_nat_length [of n 4] port(3) by simp
  obtain yt where yt: "tok_at t y = Some yt" "tok_str js yt 8 = show_nat n" using number_tok [OF y(1) len] .
  have num: "fst (strtoull (show_nat n)) = of_nat n" using port(3) by (subst strtoull_show_nat) simp_all
  have u: "unat (of_nat n :: u64) = n" using port(3) by (simp add: unat_of_nat take_bit_nat_eq_self)
  then have "(of_nat n :: u64) \<noteq> 0" "\<not> 65535 < (of_nat n :: u64)" using port(2,3) by (auto simp: word_less_nat_alt)
  moreover have "ucast (of_nat n :: u64) = (of_nat n :: u16)" using port(3) by (simp add: unsigned_of_nat take_bit_nat_eq_self)
  ultimately show ?thesis
    using dt ip(4) by (simp add: open_destination_def lookups d(2) x(2) y(2) xt yt num)
qed

lemma stream_opened:
  assumes rq: "has_params ws kvs rid ''open_stream'' ps" and rx: "for_rx ps" and adm: "admitted i w"
    and op: "opens_to ip n ps" and ip: "CHR 0x00 \<notin> set ip" "length ip < 16" "inet_pton ip = Some a" and port: "0 < n" "n \<le> 65535"
    and free: "w_rx_owner w = None" "\<not> ss_stream_open (sess i w)"
  shows "handle_message e i (jtext ws (JObj kvs)) w = Some (open_accept e i rid ip a (of_nat n) (snd (cp_rx_claim i w)))"
proof -
  let ?js = "jtext ws (JObj kvs)"
  obtain t p where d: "handle_message e i ?js w = dispatch e i ''open_stream'' rid ?js t w"
    "value_at ws ?js t p (JObj ps)" "tok_find_key ?js t 0 ''params'' = Some (Some p)" using request_dispatched [OF rq adm] .
  obtain vs ds where m: "map_of ps ''protocol'' = Some (JStr ''vita49'')" "map_of ps ''vita'' = Some (JObj vs)"
    "map_of vs ''protocol_version'' = None" "map_of vs ''format'' = None" "map_of vs ''destination'' = Some (JObj ds)"
    "map_of ds ''ip'' = Some (JStr ip)" "map_of ds ''port'' = Some (JPrim (show_nat n))" using op by (auto simp: opens_to_def)
  obtain pr where pr: "value_at ws ?js t pr (JStr ''vita49'')" "tok_find_key ?js t p ''protocol'' = Some (Some pr)" using key_present [OF d(2) m(1)] .
  obtain prt where prt: "tok_at t pr = Some prt" "tok_eq ?js prt ''vita49''" by (rule string_tok [OF pr(1), of 7]) simp_all
  obtain vi where vi: "value_at ws ?js t vi (JObj vs)" "tok_find_key ?js t p ''vita'' = Some (Some vi)" using key_present [OF d(2) m(2)] .
  obtain vt where vt: "tok_at t vi = Some vt" "tk_type vt = JSMN_OBJECT" using object_tok [OF vi(1)] .
  have dest: "open_destination e i rid ?js t vi w1 = Some (open_accept e i rid ip a (of_nat n) w1)" for w1 :: "'a world"
    using destination_read [OF vi(1) m(5,6) ip m(7) port] .
  have "open_transport e i rid ?js t p w1 = Some (open_accept e i rid ip a (of_nat n) w1)" for w1 :: "'a world"
    using vt by (simp add: open_transport_def open_format_def lookups vi(2) key_absent [OF vi(1) m(3)] key_absent [OF vi(1) m(4)] dest
        del: jtext.simps)
  then show ?thesis
    using free prt
    by (simp add: d(1) dispatch_def cmd_open_stream_def rx_function [OF d(2,3) rx] cp_rx_claim_def lookups pr(2) del: jtext.simps)
qed

text \<open>A request that names the open stream of its session reaches the body of its handler.\<close>

lemma stream_named:
  assumes rq: "has_params ws kvs rid cmd ps" and adm: "admitted i w"
    and sid: "map_of ps ''stream_id'' = Some (JStr sid)" "CHR 0x00 \<notin> set sid" "length sid < 32"
    and op: "ss_stream_open (sess i w)" "ss_stream_id (sess i w) = sid"
  obtains t where "handle_message e i (jtext ws (JObj kvs)) w = dispatch e i cmd rid (jtext ws (JObj kvs)) t w"
    and "\<And>k. with_stream i rid (jtext ws (JObj kvs)) t w k = k"
proof -
  let ?js = "jtext ws (JObj kvs)"
  obtain t p where d: "handle_message e i ?js w = dispatch e i cmd rid ?js t w"
    "value_at ws ?js t p (JObj ps)" "tok_find_key ?js t 0 ''params'' = Some (Some p)" using request_dispatched [OF rq adm] .
  obtain x where x: "value_at ws ?js t x (JStr sid)" "tok_find_key ?js t p ''stream_id'' = Some (Some x)" using key_present [OF d(2) sid(1)] .
  obtain xt where xt: "tok_at t x = Some xt" "tok_str ?js xt 32 = sid" using string_tok [OF x(1) sid(2,3)] .
  have "with_stream i rid ?js t w k = k" for k using op by (simp add: with_stream_def lookups d(3) x(2) xt del: jtext.simps)
  from that [OF d(1) this] show ?thesis .
qed

lemma stream_requests:
  assumes "admitted i w" and "map_of ps ''stream_id'' = Some (JStr sid)" "CHR 0x00 \<notin> set sid" "length sid < 32"
    and "ss_stream_open (sess i w)" "ss_stream_id (sess i w) = sid"
  shows "has_params ws kvs rid ''start_rx'' ps \<Longrightarrow> handle_message e i (jtext ws (JObj kvs)) w = Some (start_rx_do e i rid w)"
    and "has_params ws kvs rid ''stop_rx'' ps \<Longrightarrow> handle_message e i (jtext ws (JObj kvs)) w = Some (stop_rx_do e i rid w)"
    and "has_params ws kvs rid ''close_stream'' ps \<Longrightarrow> handle_message e i (jtext ws (JObj kvs)) w = Some (close_stream_do e i rid w)"
  by (erule stream_named [OF _ assms, where e = e], simp add: dispatch_def cmd_start_rx_def cmd_stop_rx_def cmd_close_stream_def del: jtext.simps)+

section \<open>Error replies\<close>

text \<open>What a client does with a string literal it reads: the escapes are undone.\<close>

definition unescape_char :: "char \<Rightarrow> char" where
  "unescape_char c =
     (if c = CHR ''n'' then CHR 0x0A else if c = CHR ''r'' then CHR 0x0D else if c = CHR ''t'' then CHR 0x09
      else if c = CHR ''b'' then CHR 0x08 else if c = CHR ''f'' then CHR 0x0C else c)"

fun json_unescape :: "string \<Rightarrow> string" where
  "json_unescape [] = []"
| "json_unescape (c # s) =
     (if c = CHR 0x5C then
        (case s of
           [] \<Rightarrow> []
         | d # r \<Rightarrow> if d = CHR ''u'' then char_of (base_value 16 xdigit_val (take 4 r)) # json_unescape (drop 4 r)
                    else unescape_char d # json_unescape r)
      else c # json_unescape s)"

lemma xdigit_hex_char: "n < 16 \<Longrightarrow> xdigit_val (hex_char n) = n"
  by (auto simp: xdigit_val_def hex_char_def isdigit_def digit_val_def tolower_def)

lemma hex_value: "base_value 16 xdigit_val (show_hex k n) = n mod 16 ^ k"
proof (induction k arbitrary: n)
  case (Suc k)
  have "base_value 16 xdigit_val (show_hex (Suc k) n) = 16 * base_value 16 xdigit_val (show_hex k (n div 16)) + n mod 16"
    by (simp add: base_value_def xdigit_hex_char)
  then show ?case by (simp add: Suc mod_mult2_eq)
qed (simp add: base_value_def)

lemma unescape_esc: "json_unescape (json_esc c @ s) = c # json_unescape s"
proof -
  have u: "json_unescape (CHR 0x5C # CHR ''u'' # show_hex 4 (of_char c) @ s) = c # json_unescape s"
  proof -
    have "(of_char c :: nat) mod 65536 = of_char c" using of_char_lt_256 [of c] by (intro mod_less) linarith
    then have "base_value 16 xdigit_val (show_hex 4 (of_char c)) = of_char c" by (simp only: hex_value) simp
    moreover have "take 4 (show_hex 4 (of_char c) @ s) = show_hex 4 (of_char c)" "drop 4 (show_hex 4 (of_char c) @ s) = s" by simp_all
    ultimately show ?thesis by (simp del: show_hex.simps)
  qed
  show ?thesis using u by (simp add: json_esc_def unescape_char_def del: show_hex.simps)
qed

lemma escape_fits: "length (concat (map json_esc s)) < cap \<Longrightarrow> escape_upto cap s = concat (map json_esc s)"
  by (induction cap s rule: escape_upto.induct) (auto simp: Let_def)

lemma unescape_escape:
  assumes "CHR 0x00 \<notin> set s" and "length (concat (map json_esc s)) < cap"
  shows "json_unescape (json_escape s cap) = s"
proof -
  have "json_unescape (concat (map json_esc s)) = s" by (induction s) (simp_all add: unescape_esc)
  then show ?thesis using escape_fits [OF assms(2)] cstr_id [OF assms(1)] by (simp add: json_escape_def)
qed

definition error_value :: "string \<Rightarrow> string \<Rightarrow> string \<Rightarrow> json" where
  "error_value rid code msg = JObj [(''type'', JStr ''response''), (''id'', JStr (json_escape rid 288)), (''status'', JStr ''error''),
     (''error'', JObj [(''code'', JStr code), (''message'', JStr (json_escape msg 512))])]"



section \<open>Guessing a key\<close>

text \<open>One attempt: what the system answers meanwhile and the texts of the request.\<close>

type_synonym 'd attempt = "'d env \<times> string \<times> string \<times> string \<times> string"

fun attempts :: "nat \<Rightarrow> 'd attempt list \<Rightarrow> 'd world \<Rightarrow> 'd world" where
  "attempts i [] w = w"
| "attempts i ((e, rid, meth, kid, resp) # as) w = attempts i as (auth_decide e i rid meth kid resp w)"

lemma auth_decide_cases:
  assumes "i < length (w_sessions w)" and "e_mono_ns e - ss_auth_window_ns (sess i w) \<le> AUTH_WINDOW_NS"
  obtains (accepted) "ss_rx_unlocked (sess i (auth_decide e i rid meth kid resp w))"
  | (refused) "ss_auth_failures (sess i (auth_decide e i rid meth kid resp w)) = ss_auth_failures (sess i w) + 1"
      "ss_auth_window_ns (sess i (auth_decide e i rid meth kid resp w)) = ss_auth_window_ns (sess i w)"
      "ss_rx_unlocked (sess i (auth_decide e i rid meth kid resp w)) = ss_rx_unlocked (sess i w)"
      "ss_close_after_reply (sess i (auth_decide e i rid meth kid resp w))
         \<longleftrightarrow> ss_close_after_reply (sess i w) \<or> AUTH_MAX_FAILURES \<le> ss_auth_failures (sess i w) + 1"
      "ss_nonce_valid (sess i (auth_decide e i rid meth kid resp w)) \<longrightarrow>
         (\<exists>hex r. auth_make_nonce (e_random e) = Some ((ss_nonce (sess i (auth_decide e i rid meth kid resp w)), hex), r))"
proof -
  have nw: "\<not> AUTH_WINDOW_NS < e_mono_ns e - ss_auth_window_ns (sess i w)" using assms(2) by simp
  have l: "i < length (w_sessions (upd i f w))" for f using assms(1) by simp
  show ?thesis
  proof (cases "ss_nonce_valid (sess i w) \<and> meth = AUTH_METHOD_PSK \<and> kr_keys (w_keys w) \<noteq> [] \<and> auth_verify (w_keys w) kid (ss_nonce (sess i w)) resp")
    case True
    then have "ss_rx_unlocked (sess i (auth_decide e i rid meth kid resp w))"
      using nw assms(1) by (simp add: auth_decide_def Let_def sess_upd)
    then show ?thesis by (rule accepted)
  next
    case False
    then have d: "auth_decide e i rid meth kid resp w = auth_refuse e i rid w" using nw by (auto simp: auth_decide_def Let_def)
    show ?thesis
      by (rule refused) (use assms(1) in \<open>auto simp: d auth_refuse_def Let_def sess_upd split: option.splits prod.splits\<close>)
  qed
qed

lemma unlocked_stays:
  "i < length (w_sessions w) \<Longrightarrow> ss_rx_unlocked (sess i w) \<Longrightarrow> ss_rx_unlocked (sess i (attempts i as w))"
proof (induction as arbitrary: w)
  case (Cons a as)
  obtain e rid meth kid resp where a: "a = (e, rid, meth, kid, resp)" by (cases a)
  have "ss_rx_unlocked (sess i (auth_decide e i rid meth kid resp w))"
    using Cons.prems by (auto simp: auth_decide_def auth_refuse_def Let_def sess_upd split: option.splits prod.splits)
  moreover have "i < length (w_sessions (auth_decide e i rid meth kid resp w))"
    using Cons.prems by (auto simp: auth_decide_def auth_refuse_def Let_def split: option.splits prod.splits)
  ultimately show ?case using Cons.IH by (simp add: a)
qed simp

lemma attempts_counted:
  assumes "i < length (w_sessions w)" and "\<not> ss_rx_unlocked (sess i (attempts i as w))"
    and "\<forall>a \<in> set as. e_mono_ns (fst a) - ss_auth_window_ns (sess i w) \<le> AUTH_WINDOW_NS"
    and "ss_auth_failures (sess i w) = of_nat k" and "ss_close_after_reply (sess i w) \<longleftrightarrow> 10 \<le> k" and "k + length as < 1000"
  shows "ss_auth_failures (sess i (attempts i as w)) = of_nat (k + length as)
    \<and> (ss_close_after_reply (sess i (attempts i as w)) \<longleftrightarrow> 10 \<le> k + length as)
    \<and> (as \<noteq> [] \<and> ss_nonce_valid (sess i (attempts i as w)) \<longrightarrow>
         (\<exists>hex r. auth_make_nonce (e_random (fst (last as))) = Some ((ss_nonce (sess i (attempts i as w)), hex), r)))"
  using assms
proof (induction as arbitrary: w k)
  case (Cons a as)
  obtain e rid meth kid resp where a: "a = (e, rid, meth, kid, resp)" by (cases a)
  let ?w = "auth_decide e i rid meth kid resp w"
  have len: "i < length (w_sessions ?w)"
    using Cons.prems(1) by (auto simp: auth_decide_def auth_refuse_def Let_def split: option.splits prod.splits)
  have win: "e_mono_ns e - ss_auth_window_ns (sess i w) \<le> AUTH_WINDOW_NS" using Cons.prems(3) by (simp add: a)
  have final: "\<not> ss_rx_unlocked (sess i (attempts i as ?w))" using Cons.prems(2) by (simp add: a)
  then have not_acc: "\<not> ss_rx_unlocked (sess i ?w)" using unlocked_stays [OF len] by blast
  have big: "AUTH_MAX_FAILURES \<le> (of_nat k + 1 :: u32) \<longleftrightarrow> 10 \<le> Suc k"
  proof -
    have "unat (of_nat (Suc k) :: u32) = Suc k" using Cons.prems(6) by (simp only: unat_of_nat) (simp add: take_bit_nat_eq_self)
    moreover have "of_nat k + 1 = (of_nat (Suc k) :: u32)" by (simp add: add.commute)
    moreover have "unat AUTH_MAX_FAILURES = 10" by (simp add: AUTH_MAX_FAILURES_def)
    ultimately show ?thesis unfolding word_le_nat_alt by metis
  qed
  have "ss_auth_failures (sess i ?w) = of_nat (Suc k) \<and> ss_auth_window_ns (sess i ?w) = ss_auth_window_ns (sess i w)
    \<and> (ss_close_after_reply (sess i ?w) \<longleftrightarrow> 10 \<le> Suc k)
    \<and> (ss_nonce_valid (sess i ?w) \<longrightarrow> (\<exists>hex r. auth_make_nonce (e_random e) = Some ((ss_nonce (sess i ?w), hex), r)))"
  proof (cases rule: auth_decide_cases [OF Cons.prems(1) win, of rid meth kid resp])
    case 1
    with not_acc show ?thesis by blast
  next
    case 2
    then show ?thesis unfolding Cons.prems(4) big Cons.prems(5) by (intro conjI) (simp_all only: of_nat_Suc add.commute, linarith)
  qed
  with Cons.IH [OF len final, of "Suc k"] Cons.prems(3,6) show ?case by (cases as) (simp_all add: a)
qed simp

end
