(* ===== verification/Cp_Typing.thy ===== *)
theory Cp_Typing
  imports Cp_Connection
begin

text \<open>
  The types of the C structures, as far as the model's own types do not show them: every text of a session fits the array that
  holds it, the nonce has its length, the VITA token is a slot or -1, and every frame written is one the framing of
  \<open>cp/cp_session.c\<close> allows. Each operation keeps them.
\<close>

section \<open>Sizes\<close>

definition session_fits :: "Session \<Rightarrow> bool" where
  "session_fits s \<longleftrightarrow> length (ss_client_name s) < 48 \<and> length (ss_nonce s) = AUTH_NONCE_BYTES
     \<and> length (ss_nonce_hex s) \<le> 2 * AUTH_NONCE_BYTES \<and> length (ss_stream_id s) < 32
     \<and> - 1 \<le> ss_vita_token s \<and> ss_vita_token s < int MAX_VITA_SESSIONS"

definition frame_fits :: "nat \<times> string \<Rightarrow> bool" where
  "frame_fits p \<longleftrightarrow> fst p < MAX_SESSIONS \<and> snd p \<noteq> [] \<and> length (snd p) < MAX_MSG_BYTES"

definition typed :: "'d world \<Rightarrow> bool" where
  "typed w \<longleftrightarrow> list_all session_fits (w_sessions w) \<and> list_all frame_fits (w_out w) \<and> length (vt_sessions (w_vita w)) = MAX_VITA_SESSIONS"

named_theorems typing

lemma zero_fits [simp]: "session_fits session_zero"
  by (simp add: session_fits_def session_zero_def AUTH_NONCE_BYTES_def MAX_VITA_SESSIONS_def)

lemma typed_fields [simp]:
  "typed (w\<lparr>w_rtl := g\<rparr>) = typed w" "typed (w\<lparr>w_udp := u\<rparr>) = typed w" "typed (w\<lparr>w_gains := gs\<rparr>) = typed w"
  "typed (w\<lparr>w_gain_default := gd\<rparr>) = typed w" "typed (w\<lparr>w_rx_owner := ow\<rparr>) = typed w" "typed (w\<lparr>w_stream_counter := n\<rparr>) = typed w"
  "typed (on_rtl h w) = typed w"
  by (simp_all add: typed_def on_rtl_def)

lemma typed_vita [typing]: "typed w \<Longrightarrow> length (vt_sessions v) = MAX_VITA_SESSIONS \<Longrightarrow> typed (w\<lparr>w_vita := v\<rparr>)"
  by (simp add: typed_def)

lemma typed_upd [typing]: "typed w \<Longrightarrow> (\<And>s. session_fits s \<Longrightarrow> session_fits (f s)) \<Longrightarrow> typed (upd i f w)"
proof -
  assume t: "typed w" and f: "\<And>s. session_fits s \<Longrightarrow> session_fits (f s)"
  have "list_all session_fits ((w_sessions w)[i := f (w_sessions w ! i)])"
  proof (cases "i < length (w_sessions w)")
    case True
    then have "session_fits (f (w_sessions w ! i))" using t f by (simp add: typed_def list_all_length)
    then show ?thesis using t by (auto simp: typed_def list_all_iff dest!: set_update_subset_insert [THEN subsetD])
  qed (use t in \<open>simp add: typed_def list_update_beyond not_less\<close>)
  then show ?thesis using t by (simp add: typed_def upd_def)
qed

lemma typed_send: "typed w \<Longrightarrow> i < MAX_SESSIONS \<Longrightarrow> s \<noteq> [] \<Longrightarrow> length s < MAX_MSG_BYTES \<Longrightarrow> typed (send_framed i s w)"
  by (simp add: typed_def send_framed_def frame_fits_def)

lemma event_fits: "event_json ev p \<noteq> []" "length (event_json ev p) < MAX_MSG_BYTES"
  using length_snprintf [of 512] by (simp_all add: event_json_def snprintf_def MAX_MSG_BYTES_def)

lemma typed_broadcast [typing]: "typed w \<Longrightarrow> typed (broadcast k ev p w)"
proof -
  have "list_all frame_fits (map (\<lambda>i. (i, event_json ev p)) (audience k w))"
    using event_fits [of ev p] by (simp add: audience_def list_all_iff frame_fits_def)
  then show "typed w \<Longrightarrow> ?thesis" by (simp add: typed_def broadcast_eq)
qed

lemma replies_fit [typing]:
  assumes "typed w" and "i < MAX_SESSIONS"
  shows "typed (send_framed i (ok_json rid r) w)" "typed (send_framed i (error_json rid c m) w)"
    "typed (send_framed i (auth_failed_json rid d) w)" "typed (send_framed i (event_json ev p) w)"
  using assms event_fits
  by (auto intro!: typed_send simp: ok_json_def error_json_def auth_failed_json_def snprintf_def MAX_MSG_BYTES_def)

lemma typed_on_vita [typing]:
  "typed w \<Longrightarrow> (\<And>v. length (vt_sessions v) = MAX_VITA_SESSIONS \<Longrightarrow> length (vt_sessions (fst (vf v))) = MAX_VITA_SESSIONS) \<Longrightarrow> typed (on_vita vf w)"
  by (simp add: typed_def on_vita_def case_prod_unfold)

section \<open>The operations of a session\<close>

lemma fits_simps [simp]:
  "session_fits (s\<lparr>ss_owns_rx := b\<rparr>) = session_fits s" "session_fits (s\<lparr>ss_nonce_valid := b\<rparr>) = session_fits s"
  "session_fits (s\<lparr>ss_rx_unlocked := b\<rparr>) = session_fits s" "session_fits (s\<lparr>ss_auth_failures := n\<rparr>) = session_fits s"
  "session_fits (s\<lparr>ss_auth_window_ns := t\<rparr>) = session_fits s" "session_fits (s\<lparr>ss_close_after_reply := b\<rparr>) = session_fits s"
  "session_fits (s\<lparr>ss_state := st\<rparr>) = session_fits s" "session_fits (s\<lparr>ss_stream_open := b\<rparr>) = session_fits s"
  "session_fits (s\<lparr>ss_vita_stream_id := v\<rparr>) = session_fits s" "session_fits (s\<lparr>ss_dest_ip := a\<rparr>) = session_fits s"
  "session_fits (s\<lparr>ss_dest_port := p\<rparr>) = session_fits s" "session_fits (s\<lparr>ss_iq_fmt := q\<rparr>) = session_fits s"
  "session_fits (s\<lparr>ss_frequency_hz := f\<rparr>) = session_fits s" "session_fits (s\<lparr>ss_sample_rate_sps := r\<rparr>) = session_fits s"
  "session_fits (s\<lparr>ss_rf_gain_db := g\<rparr>) = session_fits s" "session_fits (s\<lparr>ss_fd := fd\<rparr>) = session_fits s"
  "session_fits (s\<lparr>ss_client_ip := ip\<rparr>) = session_fits s"
  by (simp_all add: session_fits_def)

lemma nonce_fits: "auth_make_nonce rs = Some ((raw, hex), rs') \<Longrightarrow> length raw = AUTH_NONCE_BYTES \<and> length hex = 2 * AUTH_NONCE_BYTES"
  using fill_random_length [of AUTH_NONCE_BYTES rs raw rs']
  by (auto simp: auth_make_nonce_def length_auth_hex split: option.splits)

lemma release_typed [typing]: "typed w \<Longrightarrow> typed (cp_rx_release i w)"
  by (auto simp: cp_rx_release_def Let_def intro!: typing)

lemma drop_typed [typing]: "typed w \<Longrightarrow> typed (drop_vita i w)"
proof -
  assume t: "typed w"
  then have "typed (w\<lparr>w_vita := vita_session_remove (ss_vita_token (sess i w)) (w_vita w)\<rparr>)" by (simp add: typed_def)
  moreover have "session_fits s \<Longrightarrow> session_fits (s\<lparr>ss_vita_token := - 1\<rparr>)" for s by (simp add: session_fits_def)
  ultimately show ?thesis using t by (auto simp: drop_vita_def intro: typed_upd)
qed

lemma context_typed [typing]: "typed w \<Longrightarrow> typed (send_context_all w)"
  unfolding send_context_all_def
proof (rule typed_on_vita)
  fix v :: vita
  assume l: "length (vt_sessions v) = MAX_VITA_SESSIONS"
  obtain v' ds where c: "vita_send_context_all (g_gain_tenth_db (w_rtl w)) v = (v', ds)" by (cases "vita_send_context_all (g_gain_tenth_db (w_rtl w)) v")
  from context_all_same [OF l c] c l
  show "length (vt_sessions (fst (vita_send_context_all (g_gain_tenth_db (w_rtl w)) v))) = MAX_VITA_SESSIONS" by (simp add: same_slots_def)
qed

lemma load_typed [simp]: "typed (load_gain_table e w) = typed w"
  by (simp add: load_gain_table_def split: option.split list.split)

lemma stop_reader_typed [simp]: "typed (stop_reader e w) = typed w"
  by (simp add: stop_reader_def)

lemma nonce_typed [typing]:
  assumes "typed w" and "auth_make_nonce rs = Some ((raw, hex), r)"
  shows "typed (upd i (\<lambda>s. s\<lparr>ss_nonce := raw, ss_nonce_hex := hex, ss_nonce_valid := True\<rparr>) w)"
  using assms nonce_fits [OF assms(2)] by (intro typed_upd) (simp_all add: session_fits_def)

lemma issue_typed [typing]: "typed w \<Longrightarrow> typed (issue_nonce e i w)"
  by (auto simp: issue_nonce_def intro!: nonce_typed split: option.split) (rule typed_upd, simp_all add: session_fits_def)

lemma hello_typed: "typed w \<Longrightarrow> i < MAX_SESSIONS \<Longrightarrow> length name < 48 \<Longrightarrow> typed (hello_accept e i rid name w)"
  unfolding hello_accept_def Let_def send_ok_def
  by (intro replies_fit) (auto intro!: issue_typed typed_upd simp: session_fits_def)

lemma auth_typed: "typed w \<Longrightarrow> i < MAX_SESSIONS \<Longrightarrow> typed (auth_decide e i rid meth kid resp w)"
  unfolding auth_decide_def auth_refuse_def Let_def
  by (auto intro!: replies_fit typed_upd nonce_typed split: option.split prod.split)

lemma clamp_typed [typing]: "typed w \<Longrightarrow> typed (clamp_frequency e w)" "typed w \<Longrightarrow> typed (clamp_rate e w)"
  by (simp_all add: clamp_frequency_def clamp_rate_def Let_def case_prod_unfold typed_broadcast)

lemma mode_typed [typing]: "typed w \<Longrightarrow> typed (apply_mode_change_side_effects e w)"
proof -
  assume "typed w"
  then have "typed (clamp_rate e (clamp_frequency e w))" by (intro clamp_typed)
  then show ?thesis
    unfolding apply_mode_change_side_effects_def Let_def
    by (intro context_typed typed_vita) (simp_all add: vita_update_payload_format_def typed_def)
qed

lemma settings_typed:
  assumes "typed w" and "i < MAX_SESSIONS"
  shows "typed (set_frequency_value e i rid s w)" "typed (set_sample_rate_value e i rid s w)"
    "pred_option typed (set_rf_gain e i rid js tok s w)" "pred_option typed (set_agc e i rid js tok w)"
    "pred_option typed (set_bias_tee e i rid js tok s w)" "pred_option typed (set_ppm e i rid js tok s w)"
    "pred_option typed (set_direct_sampling e i rid js tok s w)"
  using assms
  by (auto simp: set_frequency_value_def set_sample_rate_value_def set_rf_gain_def set_agc_def set_bias_tee_def set_ppm_def
      set_direct_sampling_def Let_def intro!: typing split: option.splits prod.splits)

section \<open>Streams\<close>

lemma open_accept_typed: "typed w \<Longrightarrow> i < MAX_SESSIONS \<Longrightarrow> typed (open_accept e i rid ip a port w)"
  unfolding open_accept_def alloc_stream_id_def Let_def prod.case send_ok_def cp_broadcast_event_except_def
  by (intro typing) (simp_all add: session_fits_def, simp add: snprintf_def)

lemma start_typed:
  assumes t: "typed w" and i: "i < MAX_SESSIONS"
  shows "typed (start_rx_do e i rid w)"
proof (cases "ss_state (sess i w) = SESSION_STREAMING")
  case True
  then show ?thesis using t i by (simp add: start_rx_do_def typing)
next
  case False
  let ?s = "sess i w" and ?g = "w_rtl w"
  let ?add = "vita_session_add (g_gain_tenth_db ?g) (e_time e) (g_rate_sps ?g) (ss_stream_id ?s) (ss_vita_stream_id ?s)
               (ss_dest_ip ?s) (ss_dest_port ?s) (ss_iq_fmt ?s) (sampling_mode_payload_fmt (g_sampling_mode ?g)) (w_vita w)"
  obtain tok v ds where a: "?add = (tok, v, ds)" by (cases ?add)
  have tok: "- 1 \<le> tok \<and> tok < int MAX_VITA_SESSIONS \<and> length (vt_sessions v) = MAX_VITA_SESSIONS"
  proof (cases "0 \<le> tok")
    case True
    with vita_session_add_ok [OF a] t show ?thesis by (metis (no_types, lifting) of_nat_less_iff order_trans typed_def zero_le_one neg_le_0_iff_le)
  next
    case False
    then show ?thesis using a t by (auto simp: vita_session_add_def typed_def MAX_VITA_SESSIONS_def split: option.splits prod.splits)
  qed
  define w1 where "w1 = upd i (\<lambda>s. s\<lparr>ss_vita_token := tok\<rparr>) (w\<lparr>w_vita := v, w_udp := w_udp w @ ds\<rparr>)"
  have "typed (w\<lparr>w_vita := v, w_udp := w_udp w @ ds\<rparr>)" using t tok by (simp add: typed_def)
  then have w1: "typed w1" unfolding w1_def using tok by (intro typed_upd) (simp_all add: session_fits_def)
  obtain r g where r: "rtl_bridge_start (e_lib e) (e_thread_ok e) (w_rtl w1) = (r, g)" by (cases "rtl_bridge_start (e_lib e) (e_thread_ok e) (w_rtl w1)")
  have undo: "typed (upd i (\<lambda>s. s\<lparr>ss_vita_token := - 1\<rparr>) (w1\<lparr>w_rtl := g, w_vita := vita_session_remove tok (w_vita w1)\<rparr>))"
    using w1 by (intro typed_upd) (simp_all add: session_fits_def, simp add: typed_def)
  show ?thesis
    using False w1 undo i r a
    by (auto simp: start_rx_do_def w1_def [symmetric] Let_def intro!: replies_fit typed_upd)
qed

lemma stop_typed: "typed w \<Longrightarrow> i < MAX_SESSIONS \<Longrightarrow> typed (stop_rx_do e i rid w)"
  by (auto simp: stop_rx_do_def Let_def intro!: replies_fit typed_upd drop_typed)

lemma close_typed: "typed w \<Longrightarrow> i < MAX_SESSIONS \<Longrightarrow> typed (close_stream_do e i rid w)"
proof -
  assume a: "typed w" "i < MAX_SESSIONS"
  have c: "typed (upd i (\<lambda>s. s\<lparr>ss_stream_open := False, ss_state := SESSION_IDLE, ss_stream_id := []\<rparr>) w')" if "typed w'" for w' :: "'a world"
    using that by (intro typed_upd) (simp_all add: session_fits_def)
  show ?thesis using a by (auto simp: close_stream_do_def Let_def intro!: replies_fit release_typed c drop_typed)
qed

section \<open>Every message keeps the types\<close>

lemma tok_str_length: "0 < cap \<Longrightarrow> length (tok_str js t cap) < cap"
  using length_cstr [of "take (cap - 1) (tok_text js t)"] by (auto simp: tok_str_def)

lemma commands_typed:
  assumes "typed w" and "i < MAX_SESSIONS"
  shows "pred_option typed (cmd_hello e i rid js t w)" "pred_option typed (cmd_authenticate e i rid js t w)"
    "pred_option typed (cmd_set_frequency e i rid js t w)" "pred_option typed (cmd_set_sample_rate e i rid js t w)"
    "pred_option typed (cmd_set_control e i rid js t w)" "pred_option typed (cmd_get_control i rid js t w)"
    "pred_option typed (cmd_start_rx e i rid js t w)" "pred_option typed (cmd_stop_rx e i rid js t w)"
    "pred_option typed (cmd_close_stream e i rid js t w)"
  unfolding cmd_hello_def cmd_authenticate_def cmd_set_frequency_def cmd_set_sample_rate_def cmd_set_control_def cmd_get_control_def
    cmd_start_rx_def cmd_stop_rx_def cmd_close_stream_def Let_def
  using assms
  by (intro vcg; auto simp: settings_typed set_control_value_def Let_def replies_fit hello_typed auth_typed start_typed stop_typed close_typed
      tok_str_length intro!: vcg split: option.splits prod.splits)+

lemma open_typed:
  assumes "typed w" and "i < MAX_SESSIONS"
  shows "pred_option typed (open_transport e i rid js t p w)" "pred_option typed (open_fail i rid c m w)"
proof -
  show fail: "pred_option typed (open_fail i rid c m w)" for c m using assms by (simp add: open_fail_def replies_fit release_typed)
  have "pred_option typed (open_destination e i rid js t vi w)" for vi
    unfolding open_destination_def by (intro vcg) (auto simp: fail Let_def open_accept_typed assms intro!: vcg split: option.splits)
  then have "pred_option typed (open_format i rid js t vi w (open_destination e i rid js t vi w))" for vi
    unfolding open_format_def by (intro vcg) (auto simp: fail split: bool.splits)
  then show "pred_option typed (open_transport e i rid js t p w)"
    unfolding open_transport_def Let_def by (intro vcg) (auto simp: fail)
qed

lemma open_stream_typed: "typed w \<Longrightarrow> i < MAX_SESSIONS \<Longrightarrow> pred_option typed (cmd_open_stream e i rid js t w)"
proof -
  assume a: "typed w" "i < MAX_SESSIONS"
  obtain ok w' where cl: "cp_rx_claim i w = (ok, w')" by (cases "cp_rx_claim i w")
  then have "typed w'" using a(1) by (auto simp: cp_rx_claim_def intro!: typed_upd split: if_splits)
  then show ?thesis
    unfolding cmd_open_stream_def cl prod.case using a by (intro vcg) (auto simp: open_typed replies_fit)
qed

lemma handle_message_typed: "typed w \<Longrightarrow> i < MAX_SESSIONS \<Longrightarrow> pred_option typed (handle_message e i js w)"
proof -
  assume a: "typed w" "i < MAX_SESSIONS"
  have "pred_option typed (dispatch e i cmd rid js t w)" for cmd rid t
    unfolding dispatch_def
    by (intro post_if commands_typed open_stream_typed a)
      (simp_all add: cmd_get_capabilities_def cmd_ping_def cmd_get_status_def cmd_get_clock_status_def Let_def replies_fit a)
  then have "pred_option typed (serve e i cmd rid js t w)" for cmd rid t
    by (simp add: serve_def replies_fit a split: option.split bool.split)
  then show ?thesis by (intro handle_message_serve) (simp_all add: replies_fit a)
qed

lemma destroy_typed: "typed w \<Longrightarrow> typed (session_destroy e i w)"
  unfolding session_destroy_def Let_def
  by (rule typed_upd) (auto intro!: release_typed drop_typed typed_broadcast)

lemma create_typed: "typed w \<Longrightarrow> session_create fd ip w = (r, w') \<Longrightarrow> typed w'"
proof -
  assume t: "typed w" and c: "session_create fd ip w = (r, w')"
  have "session_fits (session_zero\<lparr>ss_fd := fd, ss_client_ip := ip, ss_vita_token := - 1, ss_frequency_hz := f, ss_sample_rate_sps := x,
      ss_rf_gain_db := g\<rparr>)" for f x g
    using zero_fits by (simp add: session_fits_def)
  with t c show ?thesis by (auto simp: session_create_def intro!: typed_upd split: option.splits)
qed

lemma callback_typed: "typed w \<Longrightarrow> typed (rtl_callback m now buf w)"
proof -
  assume t: "typed w"
  have v: "length (vt_sessions (fst (vita_send_callback buf v))) = MAX_VITA_SESSIONS" if "length (vt_sessions v) = MAX_VITA_SESSIONS" for v
    using callback_same [of buf v] that by (cases "vita_send_callback buf v") (simp add: same_slots_def)
  show ?thesis
    using t by (auto simp: rtl_callback_def cp_on_adc_overload_def Let_def intro!: typed_on_vita typed_broadcast v split: prod.splits option.splits)
qed

end
