(* ===== verification/Serving.thy ===== *)
theory Serving
  imports Client_Script Cp_Requests Cp_Typing
begin

text \<open>
  The daemon in service: the types of its structures in every reachable state, and what the requests of a client bring about when
  nothing stands in their way: a frequency is applied and announced, a stream is opened and runs, a guesser is cut off.
\<close>

section \<open>Types of the running daemon\<close>

definition unspoken :: "'d world \<Rightarrow> bool" where
  "unspoken w \<longleftrightarrow> initial w \<and> w_out w = []"

lemma step_typed: "typed w \<Longrightarrow> step w w' \<Longrightarrow> typed w'"
proof -
  assume t: "typed w" and st: "step w w'"
  from st show "typed w'"
  proof cases
    case (connect fd e ip r)
    then show ?thesis using t
      by (cases "session_create fd ip w")
        (auto simp: accept_connection_def dest: create_typed intro: destroy_typed split: option.splits if_splits)
  next
    case (message i e js)
    then show ?thesis using handle_message_typed [OF t, of i e js] by (simp add: live_def)
  qed (simp_all add: t destroy_typed callback_typed)
qed

interpretation types: invariant_system unspoken step typed
proof unfold_locales
  fix w w' :: "'d world"
  show "unspoken w \<Longrightarrow> typed w" by (simp add: unspoken_def initial_def typed_def list_all_iff)
  show "typed w \<Longrightarrow> step w w' \<Longrightarrow> typed w'" by (rule step_typed)
qed

lemma start_unspoken: "main_start e o' dev = Some (Inr dm) \<Longrightarrow> unspoken (dm_world dm)"
  using start_initial(1) [of e o' dev dm]
  by (auto simp: unspoken_def main_start_def main_serve_def fresh_world_def Let_def split: if_splits option.splits prod.splits bind_splits)

lemma frame_read: "frame_fits (i, s) \<Longrightarrow> read_frame (frame_bytes s @ rest) = Message s rest"
  by (intro read_frame_bytes) (simp_all add: frame_fits_def)

text \<open>
  C5: Types hold at run time: in every state a started daemon can reach, each text of a session fits its C array with its terminator,
  the nonce has its sixteen bytes, each VITA token is -1 or indexes the table, and every frame ever written went to a slot of
  the table and is one a peer with the same framing reads back whole.
\<close>

theorem daemon_well_typed:
  assumes "main_start e o' dev = Some (Inr dm)" and "step\<^sup>*\<^sup>* (dm_world dm) w"
  shows "typed w \<and> (\<forall>i s rest. (i, s) \<in> set (w_out w) \<longrightarrow> i < MAX_SESSIONS \<and> read_frame (frame_bytes s @ rest) = Message s rest)"
proof -
  have t: "typed w" using start_unspoken [OF assms(1)] assms(2) by (rule types.reachable_inv)
  have "frame_fits (i, s)" if "(i, s) \<in> set (w_out w)" for i s using t that by (auto simp: typed_def list_all_iff)
  then show ?thesis using t frame_read by (fastforce simp: frame_fits_def)
qed

theorem daemon_well_typed_witness: "typed demo_opened \<and> w_rx_owner demo_opened = Some 0"
  using daemon_well_typed [OF demo_starts demo_run] demo_opened_sess(4) by blast

section \<open>Tuning\<close>

text \<open>The result the reply to \<open>set_frequency\<close> carries.\<close>

definition frequency_result :: "u32 \<Rightarrow> string" where
  \<open>frequency_result applied = snprintf 128 (''{"function":"rx","applied_frequency_hz":'' @ fmt_u applied @ ''}'')\<close>

lemma in_range_sets:
  assumes "unat (rtl_freq_min (w_rtl w)) \<le> n" and "n \<le> unat (rtl_freq_max (w_rtl w))"
    and "rtl_set_frequency (e_lib e) (of_nat n) (w_rtl w) = (applied, g)" and "applied \<noteq> 0"
  shows "set_frequency_value e i rid (show_nat n) w =
    broadcast None ''frequency_changed'' (frequency_event applied)
      (send_ok i rid (frequency_result applied) (upd i (\<lambda>s. s\<lparr>ss_frequency_hz := ucast applied\<rparr>) (w\<lparr>w_rtl := g\<rparr>)))"
proof -
  have top: "n < 2 ^ 64" using assms(2) by (simp add: rtl_freq_max_def RTL_FREQ_MAX_NORMAL_def RTL_FREQ_MAX_DIRECT_def split: if_splits)
  then have u: "unat (of_nat n :: u64) = n" by (simp add: unat_of_nat take_bit_nat_eq_self)
  have "0 < unat (rtl_freq_min (w_rtl w))" by (simp add: rtl_freq_min_def RTL_FREQ_MIN_NORMAL_def RTL_FREQ_MIN_DIRECT_def)
  then have "\<not> (of_nat n :: u64) < 1" "\<not> (of_nat n :: u64) < rtl_freq_min (w_rtl w)" "\<not> rtl_freq_max (w_rtl w) < (of_nat n :: u64)"
    using assms(1,2) by (simp_all add: word_less_nat_alt u)
  then show ?thesis
    unfolding set_frequency_value_def strtoull_show_nat [OF top] prod.case assms(3) Let_def
    using assms(4) by (simp add: frequency_result_def)
qed

text \<open>
  C10: A request to tune does what it says: when no other client holds the receiver, the frequency is in the published range and the driver
  applies one, the receiver is tuned, the session remembers the applied value, the client gets it in its reply and every greeted
  client, in slot order, the event that announces it; the sender, the channel and the other sessions are untouched.
\<close>

theorem set_frequency_applied:
  assumes "has_params ws kvs rid ''set_frequency'' ps" and "for_rx ps" and "admitted i w" and "cp_inv w" and "live i w"
    and "map_of ps ''frequency_hz'' = Some (JPrim (show_nat n))" and "w_rx_owner w = None \<or> w_rx_owner w = Some i"
    and "unat (rtl_freq_min (w_rtl w)) \<le> n" and "n \<le> unat (rtl_freq_max (w_rtl w))"
    and "rtl_set_frequency (e_lib e) (of_nat n) (w_rtl w) = (applied, g)" and "applied \<noteq> 0"
  shows "\<exists>w'. handle_message e i (jtext ws (JObj kvs)) w = Some w' \<and> w_rtl w' = g \<and> g_freq_hz g = ucast applied
    \<and> ss_frequency_hz (sess i w') = ucast applied \<and> (\<forall>k. k \<noteq> i \<longrightarrow> sess k w' = sess k w)
    \<and> w_out w' = w_out w @ [(i, ok_json rid (frequency_result applied))]
         @ map (\<lambda>k. (k, event_json ''frequency_changed'' (frequency_event applied))) (audience None w)
    \<and> w_vita w' = w_vita w \<and> w_udp w' = w_udp w \<and> w_rx_owner w' = w_rx_owner w"
proof -
  let ?w = "upd i (\<lambda>s. s\<lparr>ss_frequency_hz := ucast applied\<rparr>) (w\<lparr>w_rtl := g\<rparr>)"
  have i: "i < length (w_sessions w)" "0 < ss_fd (sess i w)" using assms(4,5) by (simp_all add: live_def cp_invD(1))
  have "unat (rtl_freq_max (w_rtl w)) < 10 ^ 18" by (simp add: rtl_freq_max_def RTL_FREQ_MAX_NORMAL_def RTL_FREQ_MAX_DIRECT_def)
  then have "n < 10 ^ 18" using assms(9) by linarith
  moreover have "\<not> cp_rx_owned_by_other i w" using assms(7) by (auto simp: cp_rx_owned_by_other_def)
  ultimately have h: "handle_message e i (jtext ws (JObj kvs)) w =
      Some (broadcast None ''frequency_changed'' (frequency_event applied) (send_ok i rid (frequency_result applied) ?w))"
    using frequency_set [OF assms(1-3,6), of e] in_range_sets [OF assms(8-11)] by (simp del: jtext.simps)
  have aud: "audience None (send_framed i s ?w) = audience None w" for s
    using i by (simp add: audience_def hears_def sess_upd cong: if_cong)
  have "g_freq_hz g = ucast applied" using assms(10,11) by (auto simp: rtl_set_frequency_def Let_def split: if_splits)
  then show ?thesis
    unfolding h using i by (simp add: send_ok_def broadcast_eq aud, simp add: send_framed_def sess_upd)
qed

text \<open>A started daemon has its dongle open, in the sampling mode of the command line.\<close>

lemma start_device:
  assumes "main_start e o' dev = Some (Inr dm)"
  shows "s_dev (w_rtl (dm_world dm)) \<and> g_sampling_mode (w_rtl (dm_world dm)) = mo_samp_mode o'"
proof -
  have i: "s_dev g \<and> g_sampling_mode g = mo_samp_mode o'" if "rtl_bridge_init lib (mo_samp_mode o') v a p (rtl_globals dev) = (r, g)" "\<not> r < 0" for lib v a p r g
    using that by (auto simp: rtl_bridge_init_def Let_def dev_call_def case_prod_unfold split: if_splits)
  have m: "s_dev g' = s_dev g \<and> g_sampling_mode g' = g_sampling_mode g" if "main_gain e o' g = Some g'" for g g'
    using that by (auto simp: main_gain_def rtl_set_gain_def Let_def split: if_splits option.splits)
  have s: "s_dev (w_rtl (dm_world dm)) = s_dev g \<and> g_sampling_mode (w_rtl (dm_world dm)) = g_sampling_mode g" 
    if "main_serve e o' keys name iface disp g = Some (Inr dm)" for keys name iface disp g
    using that by (auto simp: main_serve_def fresh_world_def rtl_set_overload_handler_def Let_def split: if_splits bind_splits prod.splits)
  show ?thesis using assms i m s
    by (fastforce simp: main_start_def Let_def split: if_splits option.splits bind_splits prod.splits)
qed
lemma demo_greeted_rtl:
  "w_rtl demo_greeted = w_rtl (dm_world (demo_daemon False))" "s_dev (w_rtl demo_greeted)" "g_sampling_mode (w_rtl demo_greeted) = SAMPLING_NORMAL"
proof -
  have c: "w_rtl (snd (accept_connection e fd ip w)) = w_rtl w" if "e_thread_ok e" for e :: "stub env" and fd ip w
    using that by (auto simp: accept_connection_def session_create_def split: option.split)
  have h: "w_rtl (hello_accept e i rid name w) = w_rtl w" for e :: "stub env" and i rid name w
    by (simp add: hello_accept_def issue_nonce_def Let_def split: option.split)
  have "e_thread_ok demo_env" by (simp add: demo_env_def)
  then show eq: "w_rtl demo_greeted = w_rtl (dm_world (demo_daemon False))"
    by (simp add: demo_greeted_def demo_two_def demo_connected_def c h)
  show "s_dev (w_rtl demo_greeted)" "g_sampling_mode (w_rtl demo_greeted) = SAMPLING_NORMAL"
    using start_device [OF demo_starts [of False]] by (simp_all add: eq demo_opts_def main_defaults_def)
qed

lemma demo_admitted: "admitted 0 demo_greeted"
  using demo_greeted_sess(3,6) by (simp add: admitted_def)

definition demo_tune_params :: "(string \<times> json) list" where
  "demo_tune_params = [(''function'', JStr ''rx''), (''frequency_hz'', JPrim (show_nat 100000000))]"

definition demo_request :: "string \<Rightarrow> (string \<times> json) list \<Rightarrow> (string \<times> json) list" where
  "demo_request cmd ps = [(''type'', JStr ''request''), (''id'', JStr ''4''), (''command'', JStr cmd), (''params'', JObj ps)]"

lemma shown_prim: "prim_ok (show_nat n)"
proof -
  have d: "isdigit c \<Longrightarrow> prim_char c \<and> \<not> prim_delim c \<and> c \<notin> {CHR ''{'', CHR ''['', CHR 0x22}" for c
    by (auto simp: isdigit_def prim_char_def prim_delim_def)
  have "show_nat n \<noteq> []" by (subst show_nat.simps) simp
  then show ?thesis using show_nat_isdigit [of n] d by (auto simp: prim_ok_def list_all_iff hd_in_set)
qed

lemma demo_tune_has: "has_params '' '' (demo_request ''set_frequency'' demo_tune_params) ''4'' ''set_frequency'' demo_tune_params" "for_rx demo_tune_params"
  by (simp_all add: demo_request_def has_params_def good_message_def is_request_def json_space_def member_toks_def MAX_JSON_TOKENS_def
      demo_tune_params_def for_rx_def shown_prim)

theorem set_frequency_applied_witness:
  "\<exists>w'. handle_message demo_env 0 (jtext '' '' (JObj (demo_request ''set_frequency'' demo_tune_params))) demo_greeted = Some w'
     \<and> ss_frequency_hz (sess 0 w') = 100000000 \<and> g_freq_hz (w_rtl w') = 100000000"
proof -
  let ?g = "(dev_do (rtlsdr_set_center_freq stub_lib 100000000) (w_rtl demo_greeted))\<lparr>g_freq_hz := 100000000\<rparr>"
  have "rtl_set_frequency (e_lib demo_env) (of_nat 100000000) (w_rtl demo_greeted) = (100000000, ?g)"
    using demo_greeted_rtl(2) by (simp add: rtl_set_frequency_def demo_env_def stub_lib_def dev_do_def dev_call_def)
  from set_frequency_applied [OF demo_tune_has demo_admitted demo_greeted_sess(7,1) _ _ _ _ this]
  show ?thesis
    using demo_greeted_sess(5) demo_greeted_rtl(3)
    by (auto simp: demo_tune_params_def rtl_freq_min_def rtl_freq_max_def RTL_FREQ_MIN_NORMAL_def RTL_FREQ_MAX_NORMAL_def simp del: jtext.simps)
qed

section \<open>A stream from its request to its packets\<close>

lemma stream_name: "CHR 0x00 \<notin> set (snprintf 32 (''rx-'' @ fmt_u n))" "length (snprintf 32 (''rx-'' @ fmt_u n)) < 32"
proof -
  have "CHR 0x00 \<notin> set (''rx-'' @ fmt_u n)" using show_nat_isdigit [of "unat n"] by (auto simp: fmt_u_def isdigit_def)
  then show "CHR 0x00 \<notin> set (snprintf 32 (''rx-'' @ fmt_u n))" by (auto simp: snprintf_def dest: in_set_takeD)
qed (simp add: snprintf_def)

lemma plain_safe: "(\<And>c. c \<in> set s \<Longrightarrow> c \<noteq> CHR 0x5C \<and> c \<noteq> CHR 0x22 \<and> 32 \<le> (of_char c :: nat)) \<Longrightarrow> json_safe s"
  by (induction s) simp_all

lemma stream_name_safe: "json_safe (snprintf 32 (''rx-'' @ fmt_u n))"
proof (rule plain_safe)
  fix c
  assume "c \<in> set (snprintf 32 (''rx-'' @ fmt_u n))"
  then have "c \<in> set (''rx-'' @ fmt_u n)" by (auto simp: snprintf_def dest: in_set_takeD)
  then show "c \<noteq> CHR 0x5C \<and> c \<noteq> CHR 0x22 \<and> 32 \<le> (of_char c :: nat)"
    using show_nat_isdigit [of "unat n"] by (fastforce simp: fmt_u_def isdigit_def)
qed

lemma opened_name: "i < length (w_sessions w) \<Longrightarrow> json_safe (ss_stream_id (sess i (open_accept e i rid ip a p w)))"
  using stream_name_safe by (simp add: open_accept_def alloc_stream_id_def Let_def send_ok_def sess_upd)

lemma opened_state:
  assumes "i < length (w_sessions w)"
  shows "ss_stream_open (sess i (open_accept e i rid ip a p w))" "ss_state (sess i (open_accept e i rid ip a p w)) = SESSION_STREAM_OPEN"
    "ss_dest_ip (sess i (open_accept e i rid ip a p w)) = a" "ss_dest_port (sess i (open_accept e i rid ip a p w)) = p"
    "CHR 0x00 \<notin> set (ss_stream_id (sess i (open_accept e i rid ip a p w)))" "length (ss_stream_id (sess i (open_accept e i rid ip a p w))) < 32"
    "ss_rx_unlocked (sess i (open_accept e i rid ip a p w)) = ss_rx_unlocked (sess i w)"
    "w_rx_auth (open_accept e i rid ip a p w) = w_rx_auth w" "w_vita (open_accept e i rid ip a p w) = w_vita w"
    "w_rtl (open_accept e i rid ip a p w) = w_rtl w" "w_rx_owner (open_accept e i rid ip a p w) = w_rx_owner w"
    "ss_iq_fmt (sess i (open_accept e i rid ip a p w)) = IQ_FMT_U8" "w_udp (open_accept e i rid ip a p w) = w_udp w"
  using assms stream_name [of "w_stream_counter w + 1"]
  by (simp_all add: open_accept_def alloc_stream_id_def Let_def send_ok_def sess_upd)

lemma slot_added:
  assumes "vita_session_add gain now rate sid vid ip port fmt pf v = (tok, v', ds)" and "\<exists>s \<in> set (vt_sessions v). \<not> vs_active s"
  obtains k where "tok = int k" and "k < length (vt_sessions v')" and "vs_active (vt_sessions v' ! k)"
    and "vs_dest_ip (vt_sessions v' ! k) = ip" and "vs_dest_port (vt_sessions v' ! k) = port"
    and "vs_vita_stream_id (vt_sessions v' ! k) = vid" and "vs_rate_hz_anchor (vt_sessions v' ! k) = ucast rate"
    and "vs_fmt (vt_sessions v' ! k) = fmt"
proof -
  obtain k where k: "find_slot (\<lambda>s. \<not> vs_active s) (vt_sessions v) = Some k"
    using assms(2) by (cases "find_slot (\<lambda>s. \<not> vs_active s) (vt_sessions v)") (auto simp: find_slot_None)
  with find_slot_Some [OF k] assms(1) show ?thesis
    by (intro that [of k]) (auto simp: vita_session_add_def send_context_locked_def context_entry_def vita_new_session_def Let_def split: if_splits)
qed

text \<open>The session streams raw 8-bit samples to the address \<open>a\<close> and the port \<open>p\<close>, its time stamps anchored at \<open>rate\<close>.\<close>

definition streams_to :: "nat \<Rightarrow> u32 \<Rightarrow> u16 \<Rightarrow> u32 \<Rightarrow> 'd world \<Rightarrow> bool" where
  "streams_to i a p rate w \<longleftrightarrow> ss_state (sess i w) = SESSION_STREAMING \<and> s_running (w_rtl w) \<and> w_rx_owner w = Some i
     \<and> (\<exists>k < MAX_VITA_SESSIONS. ss_vita_token (sess i w) = int k
         \<and> (let v = vt_sessions (w_vita w) ! k in
              vs_active v \<and> vs_dest_ip v = a \<and> vs_dest_port v = p \<and> vs_rate_hz_anchor v = ucast rate \<and> vs_fmt v = IQ_FMT_U8))"

text \<open>The Context packet that opens the stream of session \<open>i\<close>.\<close>

definition opening_context :: "nat \<Rightarrow> 'd world \<Rightarrow> datagram list" where
  "opening_context i w =
     (if vt_sock (w_vita w) \<and> vt_context_enabled (w_vita w)
      then [(ss_dest_ip (sess i w), ss_dest_port (sess i w), vita_build_context_packet (ss_vita_stream_id (sess i w)) 0
               (sampling_mode_payload_fmt (g_sampling_mode (w_rtl w))) (rtl_reference_level_dbm (tenths (g_gain_tenth_db (w_rtl w)))) True)]
      else [])"

lemma stream_runs:
  assumes inv: "cp_inv w" and live: "live i w" and state: "ss_state (sess i w) = SESSION_STREAM_OPEN" and ok: "e_thread_ok e"
    and free: "\<exists>s \<in> set (vt_sessions (w_vita w)). \<not> vs_active s" and fmt: "ss_iq_fmt (sess i w) = IQ_FMT_U8"
  shows "streams_to i (ss_dest_ip (sess i w)) (ss_dest_port (sess i w)) (g_rate_sps (w_rtl w)) (start_rx_do e i rid w)"
    and "w_udp (start_rx_do e i rid w) = w_udp w @ opening_context i w"
proof -
  let ?s = "sess i w" and ?g = "w_rtl w" and ?w' = "start_rx_do e i rid w"
  let ?add = "vita_session_add (g_gain_tenth_db ?g) (e_time e) (g_rate_sps ?g) (ss_stream_id ?s) (ss_vita_stream_id ?s)
               (ss_dest_ip ?s) (ss_dest_port ?s) (ss_iq_fmt ?s) (sampling_mode_payload_fmt (g_sampling_mode ?g)) (w_vita w)"
  have i: "i < length (w_sessions w)" "i < MAX_SESSIONS" using live by (simp_all add: live_def cp_invD(1) [OF inv])
  then have opn: "ss_stream_open ?s" "w_rx_owner w = Some i" using cp_invD(4) [OF inv, of i] state by (auto simp: slot_ok_def)
  obtain tok v ds where a: "?add = (tok, v, ds)" by (cases ?add)
  obtain k where k: "tok = int k" "k < length (vt_sessions v)" "vs_active (vt_sessions v ! k)" "vs_dest_ip (vt_sessions v ! k) = ss_dest_ip ?s"
    "vs_dest_port (vt_sessions v ! k) = ss_dest_port ?s" "vs_rate_hz_anchor (vt_sessions v ! k) = ucast (g_rate_sps ?g)" "vs_fmt (vt_sessions v ! k) = IQ_FMT_U8"
    using slot_added [OF a free] fmt by metis
  have ds: "ds = opening_context i w" using vita_session_add_ok [OF a] k(1) by (metis of_nat_0_le_iff opening_context_def)
  obtain g where r: "rtl_bridge_start (e_lib e) True ?g = (0, g)" "s_running g"
    using cp_invD(3) [OF inv] by (auto simp: rtl_bridge_start_def reader_inv_def Let_def)
  have w': "w_vita ?w' = v" "ss_state (sess i ?w') = SESSION_STREAMING" "s_running (w_rtl ?w')" "w_rx_owner ?w' = Some i" "ss_vita_token (sess i ?w') = int k"
    using i(1) ok state k(1) opn(2) r(2) by (simp_all add: start_rx_do_def a Let_def r(1) send_ok_def sess_upd)
  have "length (vt_sessions v) = MAX_VITA_SESSIONS" using cp_invD(2) [OF start_rx_inv [OF inv live opn(1)], of e rid] by (simp add: w'(1))
  with k w' show "streams_to i (ss_dest_ip ?s) (ss_dest_port ?s) (g_rate_sps ?g) ?w'" unfolding streams_to_def Let_def by (metis (no_types, lifting))
  show "w_udp ?w' = w_udp w @ opening_context i w"
    using i(1) ok state k(1) ds by (simp add: start_rx_do_def a Let_def r(1) send_ok_def sess_upd)
qed

lemma open_granted:
  assumes "cp_inv w" and "live i w" and "admitted i w" and "w_rx_owner w = None"
    and "has_params ws kvs rid ''open_stream'' ps" and "for_rx ps" and "opens_to ip n ps"
    and "CHR 0x00 \<notin> set ip" and "length ip < 16" and "inet_pton ip = Some a" and "0 < n" and "n \<le> 65535"
  shows "handle_message e i (jtext ws (JObj kvs)) w = Some (open_accept e i rid ip a (of_nat n) (claimed i w))"
proof -
  have closed: "\<not> ss_stream_open (sess i w)" using owner_of_open [OF assms(1), of i] assms(2,4) by (simp add: live_def)
  have cl: "snd (cp_rx_claim i w) = claimed i w" using assms(4) by (simp add: cp_rx_claim_def claimed_def)
  show ?thesis unfolding cl [symmetric] by (rule stream_opened [OF assms(5,6,3,7-12,4) closed])
qed

lemma claimed_frame:
  "w_udp (claimed i w) = w_udp w" "w_vita (claimed i w) = w_vita w" "w_rtl (claimed i w) = w_rtl w" "w_rx_auth (claimed i w) = w_rx_auth w" "w_rx_owner (claimed i w) = Some i"
  "length (w_sessions (claimed i w)) = length (w_sessions w)"
  "i < length (w_sessions w) \<Longrightarrow> ss_rx_unlocked (sess i (claimed i w)) = ss_rx_unlocked (sess i w)"
  by (simp_all add: claimed_def sess_upd)

text \<open>
  C7: From the request to running samples: when the channel is free, \<open>open_stream\<close> of an admitted client gives it the channel, and
  \<open>start_rx\<close> for the stream id it was given makes the session stream: the reader runs, a slot of the sender is active with the
  address and the port the client asked for, anchored at the receiver's sample rate, and with Context packets on the first
  datagram that leaves is the Context packet of the stream, with the gain and the payload format in force.
\<close>

theorem stream_opens_and_starts:
  assumes "cp_inv w" and "live i w" and "admitted i w" and "w_rx_owner w = None"
    and "has_params ws kvs rid ''open_stream'' ps" and "for_rx ps" and "opens_to ip n ps"
    and "CHR 0x00 \<notin> set ip" and "length ip < 16" and "inet_pton ip = Some a" and "0 < n" and "n \<le> 65535"
    and "\<exists>s \<in> set (vt_sessions (w_vita w)). \<not> vs_active s" and "e_thread_ok e2"
  shows "\<exists>w1. handle_message e1 i (jtext ws (JObj kvs)) w = Some w1 \<and> w_rx_owner w1 = Some i
    \<and> (\<forall>ws2 kvs2 rid2 qs. has_params ws2 kvs2 rid2 ''start_rx'' qs \<and> map_of qs ''stream_id'' = Some (JStr (ss_stream_id (sess i w1))) \<longrightarrow>
         (\<exists>w2. handle_message e2 i (jtext ws2 (JObj kvs2)) w1 = Some w2 \<and> streams_to i a (of_nat n) (g_rate_sps (w_rtl w)) w2
            \<and> w_udp w2 = w_udp w @ opening_context i w1))
    \<and> (vt_sock (w_vita w) \<and> vt_context_enabled (w_vita w) \<longrightarrow>
         (\<exists>p. opening_context i w1 = [(a, of_nat n, p)] \<and> packet_type (a, of_nat n, p) = 4 \<and> words_of p ! 1 = ss_vita_stream_id (sess i w1)
            \<and> words_of p ! 3 = vita_encode_reference_level (rtl_reference_level_dbm (tenths (g_gain_tenth_db (w_rtl w))))))"
proof -
  define w1 where "w1 = open_accept e1 i rid ip a (of_nat n) (claimed i w)"
  have h1: "handle_message e1 i (jtext ws (JObj kvs)) w = Some w1" unfolding w1_def by (rule open_granted [OF assms(1-12)])
  have i: "i < length (w_sessions w)" using assms(1,2) by (simp add: live_def cp_invD(1))
  then have "i < length (w_sessions (claimed i w))" by (simp add: claimed_frame)
  note st = opened_state [OF this, of e1 rid ip a "of_nat n", folded w1_def] and c = claimed_frame [of i w]
  have inv1: "cp_inv w1" using handle_message_inv [OF assms(1,2), of e1 "jtext ws (JObj kvs)"] h1 by (simp del: jtext.simps)
  have live1: "live i w1" using assms(2) by (simp add: w1_def live_def claimed_def open_accept_def alloc_stream_id_def Let_def send_ok_def sess_upd i)
  have adm: "admitted i w1" using assms(3) i by (simp add: admitted_def st c)
  have run: "streams_to i a (of_nat n) (g_rate_sps (w_rtl w)) (start_rx_do e2 i rid2 w1)"
    "w_udp (start_rx_do e2 i rid2 w1) = w_udp w @ opening_context i w1" for rid2
    using stream_runs [OF inv1 live1 st(2) assms(14) _ st(12), of rid2] assms(13) by (simp_all add: st c)
  have "vt_sock (w_vita w) \<and> vt_context_enabled (w_vita w) \<longrightarrow>
    (\<exists>p. opening_context i w1 = [(a, of_nat n, p)] \<and> packet_type (a, of_nat n, p) = 4 \<and> words_of p ! 1 = ss_vita_stream_id (sess i w1)
       \<and> words_of p ! 3 = vita_encode_reference_level (rtl_reference_level_dbm (tenths (g_gain_tenth_db (w_rtl w)))))"
    by (simp add: opening_context_def st c ctx_packet_type context_word)
  then show ?thesis using h1 run stream_requests(1) [OF adm _ st(5,6,1) refl] st(11) c(5) by (metis (no_types, lifting))
qed

definition demo_open_params :: "(string \<times> json) list" where
  "demo_open_params = [(''function'', JStr ''rx''), (''protocol'', JStr ''vita49''),
     (''vita'', JObj [(''destination'', JObj [(''ip'', JStr ''127.0.0.1''), (''port'', JPrim (show_nat 5000))])])]"

definition demo_start_params :: "'d world \<Rightarrow> (string \<times> json) list" where
  "demo_start_params w = [(''stream_id'', JStr (ss_stream_id (sess 0 w)))]"

lemma start_vita: "main_start e o' dev = Some (Inr dm) \<Longrightarrow> vt_sessions (w_vita (dm_world dm)) = replicate MAX_VITA_SESSIONS vita_zero"
  by (auto simp: main_start_def main_serve_def fresh_world_def vita_tx_init_def vita_set_context_packets_def vita_globals_def Let_def
      split: if_splits option.splits prod.splits bind_splits)

lemma demo_greeted_vita: "w_vita demo_greeted = w_vita (dm_world (demo_daemon False))"
proof -
  have c: "w_vita (snd (accept_connection e fd ip w)) = w_vita w" if "e_thread_ok e" for e :: "stub env" and fd ip w
    using that by (auto simp: accept_connection_def session_create_def split: option.split)
  have h: "w_vita (hello_accept e i rid name w) = w_vita w" for e :: "stub env" and i rid name w
    by (simp add: hello_accept_def issue_nonce_def Let_def split: option.split)
  have "e_thread_ok demo_env" by (simp add: demo_env_def)
  then show ?thesis by (simp add: demo_greeted_def demo_two_def demo_connected_def c h)
qed

lemma demo_free_slot: "\<exists>s \<in> set (vt_sessions (w_vita demo_greeted)). \<not> vs_active s"
  using start_vita [OF demo_starts [of False]] by (simp add: demo_greeted_vita MAX_VITA_SESSIONS_def vita_zero_def)

lemma demo_open_has:
  "has_params '' '' (demo_request ''open_stream'' demo_open_params) ''4'' ''open_stream'' demo_open_params" "for_rx demo_open_params"
  "opens_to ''127.0.0.1'' 5000 demo_open_params"
  by (simp_all add: demo_request_def has_params_def good_message_def is_request_def json_space_def member_toks_def MAX_JSON_TOKENS_def
      demo_open_params_def for_rx_def opens_to_def shown_prim)

lemma demo_named:
  assumes "json_safe (ss_stream_id (sess 0 w))" and "json_safe cmd" and "length cmd < 64"
  shows "has_params '' '' (demo_request cmd (demo_start_params w)) ''4'' cmd (demo_start_params w)"
  using assms
  by (simp add: demo_request_def has_params_def good_message_def is_request_def json_space_def member_toks_def MAX_JSON_TOKENS_def
      demo_start_params_def)

theorem stream_opens_and_starts_witness:
  "\<exists>w1 w2. handle_message demo_env 0 (jtext '' '' (JObj (demo_request ''open_stream'' demo_open_params))) demo_greeted = Some w1
     \<and> handle_message demo_env 0 (jtext '' '' (JObj (demo_request ''start_rx'' (demo_start_params w1)))) w1 = Some w2
     \<and> streams_to 0 0x7F000001 5000 (g_rate_sps (w_rtl demo_greeted)) w2"
proof -
  let ?m = "jtext '' '' (JObj (demo_request ''open_stream'' demo_open_params))"
  have ip: "CHR 0x00 \<notin> set ''127.0.0.1''" "length ''127.0.0.1'' < 16" "0 < (5000::nat)" "(5000::nat) \<le> 65535" "e_thread_ok demo_env"
    by (simp_all add: demo_env_def)
  note go = demo_greeted_sess(7,1) demo_admitted demo_greeted_sess(5) demo_open_has ip(1,2) demo_numbers(1) ip(3,4)
  obtain w1 where w1: "handle_message demo_env 0 ?m demo_greeted = Some w1"
    "has_params ws2 kvs2 rid2 ''start_rx'' qs \<and> map_of qs ''stream_id'' = Some (JStr (ss_stream_id (sess 0 w1))) \<Longrightarrow>
       \<exists>w2. handle_message demo_env 0 (jtext ws2 (JObj kvs2)) w1 = Some w2 \<and> streams_to 0 0x7F000001 (of_nat 5000) (g_rate_sps (w_rtl demo_greeted)) w2"
    for ws2 kvs2 rid2 qs
    using stream_opens_and_starts [OF go demo_free_slot ip(5), of demo_env] by blast
  have "w1 = open_accept demo_env 0 ''4'' ''127.0.0.1'' 0x7F000001 (of_nat 5000) (claimed 0 demo_greeted)"
    using w1(1) open_granted [OF go, of demo_env] by simp
  moreover have "0 < length (w_sessions (claimed 0 demo_greeted))"
    using cp_invD(1) [OF demo_greeted_sess(7)] by (simp add: claimed_frame MAX_SESSIONS_def)
  ultimately have "json_safe (ss_stream_id (sess 0 w1))" by (simp add: opened_name)
  then have "has_params '' '' (demo_request ''start_rx'' (demo_start_params w1)) ''4'' ''start_rx'' (demo_start_params w1)" by (rule demo_named) simp_all
  with w1(2) [of "'' ''" _ "''4''" "demo_start_params w1"] w1(1) show ?thesis by (auto simp: demo_start_params_def simp del: jtext.simps)
qed

section \<open>Guessing a key\<close>

text \<open>
  C12: A client cannot keep guessing: of any attempts within one window that leave the session locked, each is counted, and the
  connection is marked to be closed exactly when the tenth has been refused, whatever the attempts say. A nonce that is valid
  after a refused attempt is fresh from the random source, so an old response is of no use.
\<close>

theorem guessing_limited:
  assumes "i < length (w_sessions w)" and "\<not> ss_rx_unlocked (sess i (attempts i as w))"
    and "\<forall>a \<in> set as. e_mono_ns (fst a) - ss_auth_window_ns (sess i w) \<le> AUTH_WINDOW_NS"
    and "ss_auth_failures (sess i w) = 0" and "\<not> ss_close_after_reply (sess i w)" and "length as < 1000"
  shows "ss_auth_failures (sess i (attempts i as w)) = of_nat (length as)
    \<and> (ss_close_after_reply (sess i (attempts i as w)) \<longleftrightarrow> 10 \<le> length as)
    \<and> (as \<noteq> [] \<and> ss_nonce_valid (sess i (attempts i as w)) \<longrightarrow>
         (\<exists>hex r. auth_make_nonce (e_random (fst (last as))) = Some ((ss_nonce (sess i (attempts i as w)), hex), r)))"
  using attempts_counted [OF assms(1-3), of 0] assms(4-6) by simp

lemma other_method_locked:
  assumes "\<forall>a \<in> set as. fst (snd (snd a)) \<noteq> AUTH_METHOD_PSK" and "i < length (w_sessions w)" and "\<not> ss_rx_unlocked (sess i w)"
  shows "\<not> ss_rx_unlocked (sess i (attempts i as w))"
  using assms
proof (induction as arbitrary: w)
  case (Cons a as)
  obtain e rid meth kid resp where a: "a = (e, rid, meth, kid, resp)" by (cases a)
  have "\<not> ss_rx_unlocked (sess i (auth_decide e i rid meth kid resp w))" "i < length (w_sessions (auth_decide e i rid meth kid resp w))"
    using Cons.prems by (auto simp: a auth_decide_def auth_refuse_def Let_def sess_upd split: option.splits prod.splits)
  then show ?case using Cons.IH Cons.prems(1) by (simp add: a)
qed simp

theorem guessing_limited_witness:
  "ss_close_after_reply (sess 0 (attempts 0 (replicate 10 (demo_env, ''1'', ''x'', ''k'', ''r'')) (demo_connected False)))"
proof -
  let ?w = "demo_connected False" and ?as = "replicate 10 (demo_env, ''1'', ''x'', ''k'', ''r'')"
  have s: "sess 0 ?w = session_zero\<lparr>ss_fd := 5, ss_client_ip := 0x7F000001, ss_vita_token := - 1,
      ss_frequency_hz := ucast RTL_DEFAULT_FREQ, ss_sample_rate_sps := RTL_DEFAULT_RATE_NORMAL,
      ss_rf_gain_db := tenths (g_gain_tenth_db (w_rtl (dm_world (demo_daemon False))))\<rparr>" "0 < length (w_sessions ?w)"
    by (simp_all add: sess_def demo_sessions)
  have "\<not> ss_rx_unlocked (sess 0 (attempts 0 ?as ?w))"
    by (rule other_method_locked) (use s in \<open>simp_all add: AUTH_METHOD_PSK_def session_zero_def\<close>)
  with guessing_limited [OF s(2) this] s(1) show ?thesis by (simp add: session_zero_def demo_env_def AUTH_WINDOW_NS_def)
qed

end
