(* ===== verification/Deviations.thy ===== *)
theory Deviations
  imports Json_Builder Serving
begin

text \<open>
  Where the code departs from what it means to do, each departure derived from the model on a concrete input or state. Nothing else
  rests on these facts.
\<close>

section \<open>Sessions\<close>

text \<open>
  A second \<open>hello\<close> while streaming marks the session idle; a \<open>close_stream\<close> afterwards gives the channel back and leaves the USB reader
  running with nobody to stop it.
\<close>

lemma second_hello_leaves_reader_running:
  assumes "cp_inv w" and "live i w" and "streams_to i a p rate w"
  shows "w_rx_owner (close_stream_do e i rid2 (hello_accept e i rid name w)) = None
    \<and> s_running (w_rtl (close_stream_do e i rid2 (hello_accept e i rid name w)))"
proof -
  have i: "i < length (w_sessions w)" using assms(1,2) by (simp add: live_def cp_invD(1))
  let ?h = "hello_accept e i rid name w"
  have h: "ss_state (sess i ?h) = SESSION_IDLE" "w_rtl ?h = w_rtl w" "w_rx_owner ?h = w_rx_owner w"
    using i by (simp_all add: hello_accept_def issue_nonce_def Let_def sess_upd split: option.split)
  have len: "i < length (w_sessions ?h)" using i by (simp add: hello_accept_def issue_nonce_def Let_def split: option.split)
  have d: "ss_state (sess i (drop_vita i ?h)) = SESSION_IDLE" "w_rtl (drop_vita i ?h) = w_rtl w" "w_rx_owner (drop_vita i ?h) = w_rx_owner w"
    using h len by (simp_all add: drop_vita_def sess_upd)
  then show ?thesis using assms(3) by (simp add: close_stream_do_def Let_def streams_to_def cp_rx_release_def send_ok_def)
qed

text \<open>
  The receive buffer of \<open>cp_session_thread\<close> is one static array: \<open>recv_exact\<close> of the payload and the terminator, and the text of \<open>n\<close>
  characters a thread then parses out of it.
\<close>

definition store_payload :: "u8 list \<Rightarrow> u8 list \<Rightarrow> u8 list" where
  "store_payload payload msg_buf = payload @ [0] @ drop (length payload + 1) msg_buf"

definition parsed_text :: "nat \<Rightarrow> u8 list \<Rightarrow> string" where
  "parsed_text n msg_buf = text_of (take n msg_buf)"

text \<open>
  When the payload of another session, of the same length, arrives between the receipt and the parsing of a session's own, the session is served
  the other's request under its own rights.
\<close>

lemma shared_buffer_race:
  assumes "length theirs = length mine"
  shows "handle_message e i (parsed_text (length mine) (store_payload theirs (store_payload mine msg_buf))) w
    = handle_message e i (text_of theirs) w"
  using assms by (simp add: parsed_text_def store_payload_def)

text \<open>A \<open>params\<close> that is a non-empty array sends the key lookup beyond the tokens the parser produced.\<close>

lemma array_params_read_stale_tokens:
  \<open>handle_message demo_env 0 ''{"type":"request","id":"1","command":"set_frequency","params":[1]}'' demo_greeted = None\<close>
proof -
  let ?js = \<open>''{"type":"request","id":"1","command":"set_frequency","params":[1]}''\<close>
  have r: "request_of ?js = Some (''1'', ''set_frequency'', tokens ?js)" by code_simp
  have k: "tok_find_key ?js (tokens ?js) 0 ''params'' = Some (Some 8)" "tok_find_key ?js (tokens ?js) 8 ''function'' = None" by code_simp+
  show ?thesis
    unfolding handle_message_tokens [OF r] admitted_serve [OF demo_admitted] dispatch_def
    by (simp add: cmd_set_frequency_def guarded_def require_function_def lookups k)
qed

section \<open>Numbers\<close>

text \<open>Digits beyond 32 bits are dropped: these texts are accepted as the rate 2048000 and the correction 0.\<close>

lemma sample_rate_wraps: "set_sample_rate_value e i rid ''4297015296'' w = set_sample_rate_value e i rid ''2048000'' w"
proof -
  have "fst (strtoull ''4297015296'') = 4297015296" "fst (strtoull ''2048000'') = 2048000"
    by (simp_all add: strtoull_def isdigit_def isspace_def dec_value_def digit_val_def)
  then have "ucast (fst (strtoull ''4297015296'')) = (ucast (fst (strtoull ''2048000'')) :: u32)" by simp
  then show ?thesis unfolding set_sample_rate_value_def by (simp only:)
qed

lemma ppm_wraps: "set_ppm e i rid js tok ''4294967296'' w = set_ppm e i rid js tok ''0'' w"
proof -
  have "to_int32 (strtol ''4294967296'') = 0" "to_int32 (strtol ''0'') = 0"
    by (simp_all add: strtol_def to_int32_def isdigit_def isspace_def dec_value_def digit_val_def)
  then show ?thesis unfolding set_ppm_def by simp
qed

text \<open>A word that is no number reads as zero.\<close>

lemma null_is_zero_volts: "set_bias_tee e i rid js tok ''null'' w = set_bias_tee e i rid js tok ''0.0'' w"
proof -
  have "strtod ''null'' = Fin 0" "strtod ''0.0'' = Fin 0" by code_simp+
  then show ?thesis unfolding set_bias_tee_def by simp
qed

text \<open>A zero point that is not a number passes the range check of the command line.\<close>

lemma nan_zero_point_accepted: "main_option (Opt_u8_zero_point ''nan'') o' = Some (Inr (o'\<lparr>g_u8_zero_point := NaN\<rparr>))"
proof -
  have "strtod ''nan'' = NaN" by code_simp
  then show ?thesis by (simp add: main_option_def)
qed

text \<open>A number of 32 or more characters makes \<open>jb_f32\<close> copy beyond its buffer.\<close>

lemma show_nat_long: "10 ^ k \<le> n \<Longrightarrow> k < length (show_nat n)"
proof (induction k arbitrary: n)
  case 0
  then show ?case by (subst show_nat.simps) simp
next
  case (Suc k)
  then have "10 ^ k \<le> n div 10" by (simp add: less_eq_div_iff_mult_less_eq)
  from Suc.IH [OF this] Suc.prems order_trans [OF _ Suc.prems, of 10] show ?case by (subst show_nat.simps) simp
qed

lemma large_float_overruns: "jb_f32 (Fin (10 ^ 31)) 1 jb = None"
proof -
  have "nat (rne (10 ^ 32)) = 10 ^ 32" using rne_of_int [of "10 ^ 32"] by simp
  then have "32 \<le> length (fmt_f 1 (Fin (10 ^ 31)))" using show_nat_long [of 31 "10 ^ 31"] by (simp add: fmt_f_def Let_def)
  then show ?thesis by (simp add: jb_f32_def)
qed

section \<open>Identifiers\<close>

text \<open>An id the client writes with an escape comes back with the backslash doubled, so it denotes another text.\<close>

lemma escaped_id_not_verbatim:
  "json_escape ([CHR 0x5C] @ ''u0041'') 288 = [CHR 0x5C, CHR 0x5C] @ ''u0041''"
  "json_unescape ([CHR 0x5C] @ ''u0041'') = ''A''" "json_unescape ([CHR 0x5C, CHR 0x5C] @ ''u0041'') = [CHR 0x5C] @ ''u0041''"
  by code_simp+

text \<open>A dot in the instance name splits it into two labels of the published names.\<close>

lemma dotted_instance_split: "labels (host_fqdn (mdns_globals\<lparr>md_instance := ''a.b''\<rparr>)) = [''a'', ''b'', ''local'']"
  by code_simp

section \<open>Failures half way\<close>

text \<open>A listening socket that cannot be bound stays open.\<close>

lemma failed_bind_keeps_socket:
  "0 \<le> ls_socket e \<Longrightarrow> \<not> ls_bind_ok e \<Longrightarrow> fst (cp_server_start e sv) = - 1 \<and> sv_listen_fd (snd (cp_server_start e sv)) = ls_socket e"
  by (simp add: cp_server_start_def)

text \<open>Without its thread the responder reports failure, having announced the service, and counts as published.\<close>

lemma failed_thread_stays_published:
  assumes "mdns_builtin_start ifs True True False iface inst port txts m = Some (rc, m', ps)" and "ps \<noteq> []"
  shows "rc = - 1 \<and> md_published m' \<and> md_sock m'"
  using assms by (auto simp: mdns_builtin_start_def Let_def split: option.splits bind_splits)

end
