(* ===== verification/Console.thy ===== *)
theory Console
  imports Daemon
begin

text \<open>
  What \<open>main.c\<close> tells its operator: the usage text and the messages of a start-up that succeeds, in the order they are logged.
  Characters beyond ASCII are the bytes of their UTF-8 form, as the compiler puts them into the literals.
\<close>

section \<open>Usage\<close>

text \<open>\<open>%.0f\<close> of a frequency in kHz and MHz.\<close>

definition khz :: "u64 \<Rightarrow> string" where
  "khz f = fmt_f 0 (ddiv (of_int_d (uint f)) (Fin 1000))"

definition mhz :: "u64 \<Rightarrow> string" where
  "mhz f = fmt_f 0 (ddiv (of_int_d (uint f)) (Fin 1000000))"

definition usage_server :: "string \<Rightarrow> string list" where
  \<open>usage_server prog = [
     ''Usage: '' @ prog @ '' [options]'',
     [],
     ''  -p, --port PORT          control plane TCP port (default '' @ fmt_u CP_PORT_DEFAULT @ '')'',
     ''      --rx-port PORT       VITA49 RX source UDP port (default '' @ fmt_u VITA_SRC_PORT_DEFAULT @ '')'',
     ''  -i, --iface IFACE        interface whose MAC derives the SLC-XXYYZZ'',
     ''                           instance name (default: first interface with a'',
     ''                           hardware address). mDNS itself is published on'',
     ''                           every interface by avahi-daemon.'',
     ''      --name NAME          override the mDNS instance / device_name'',
     ''      --rx-auth MODE       "none" (default): the rx function is open, as'',
     ''                           SDR-SLC-CP-1.0 '' @ [CHR 0xC2, CHR 0xA7] @ ''26 expects of a receiver.'',
     ''                           "psk": require psk-hmac-sha256 authentication'',
     ''                           for every command addressing rx.'',
     ''      --keys-file PATH     pre-shared keys, one "<key_id> <psk>" per line'',
     ''                           (default '' @ SLC_DEFAULT_KEYS_FILE @ ''). Populate it'',
     ''                           with: sudo '' @ SLC_DAEMON_NAME @ '' keygen'',
     []]\<close>

definition usage_sampling :: "string list" where
  \<open>usage_sampling = [
     ''Sampling mode (choose one; default: normal):'',
     ''      --normal             normal tuner path, '' @ khz RTL_FREQ_MIN_NORMAL @ '' kHz - '' @ mhz RTL_FREQ_MAX_NORMAL @ '' MHz'',
     ''      --direct-i           direct sampling, I-branch, '' @ khz RTL_FREQ_MIN_DIRECT @ '' kHz - '' @ mhz RTL_FREQ_MAX_DIRECT @ '' MHz'',
     ''      --direct-q           direct sampling, Q-branch, '' @ khz RTL_FREQ_MIN_DIRECT @ '' kHz - '' @ mhz RTL_FREQ_MAX_DIRECT @ '' MHz'',
     []]\<close>

definition usage_hardware :: "string list" where
  \<open>usage_hardware = [
     ''Hardware defaults (applied at startup; the client may override):'',
     ''      --bias-tee           power the bias tee ('' @ fmt_f 1 RTL_BIAS_TEE_VOLTS @ '' V) at startup.'',
     ''                           '' @ [CHR 0xC2, CHR 0xA7] @ ''13.3 makes 0.0 V the startup default, so this'',
     ''                           is an override.'',
     ''      --bias-tee-persist   also re-apply the startup bias tee value after'',
     ''                           a client disconnects, instead of dropping to'',
     ''                           0.0 V. Deviates from '' @ [CHR 0xC2, CHR 0xA7] @ ''13.3; for masthead LNAs'',
     ''                           that must stay powered.'',
     ''      --agc                enable hardware AGC at startup (default: off)'',
     ''      --ppm N              PPM frequency correction (default: 0)'',
     ''      --gain DB            initial RF gain in dB (default: '' @ fmt_f 1 (tenths RTL_DEFAULT_GAIN) @ '' dB)'',
     ''      --u8-zero-point V    ADC code value that is zero signal, declared as'',
     ''                           iq_formats[].zero_point (default '' @ fmt_f 1 RTL_U8_ZERO_POINT_DEFAULT @ ''; the'',
     ''                           RTL2832U midpoint, not 128). Measure with a'',
     ''                           terminated input: the mean of the raw u8 stream.'',
     []]\<close>

definition usage_service :: "string list" where
  \<open>usage_service = [
     ''      --no-context-packets do not emit VITA-A/1.0-CTX packets. They are on'',
     ''                           by default (SDR-SLC-VITA-1.0 Release 1.2 '' @ [CHR 0xC2, CHR 0xA7] @ ''7).'',
     ''      --mdns BACKEND       "builtin" (default): the daemon'' @ [CHR 0x27] @ ''s own mDNS'',
     ''                           responder, no dependencies. "avahi": publish'',
     ''                           through avahi-daemon, as sdr-slc-bladerfd does;'',
     ''                           only in a build made with make MDNS=avahi.'',
     ''      --no-mdns            do not publish over mDNS'',
     ''      --syslog             log to syslog instead of stderr'',
     ''  -v, --verbose            repeatable: info -> debug -> trace'',
     ''  -h, --help               this text'',
     []]\<close>

definition usage_keygen :: "string \<Rightarrow> string list" where
  \<open>usage_keygen prog = [
     ''Subcommands:'',
     ''  '' @ prog @ '' keygen [--key-id ID] [--keys-file PATH]'',
     ''                           generate a pre-shared key for the rx function'',
     ''                           and append it to the key file'',
     [],
     ''Protocol: SDR-SLC-CP-1.0 Release '' @ SLC_CP_RELEASE @ '', SDR-SLC-VITA-1.0 Release '' @ SLC_VITA_RELEASE @ ''; functions rx (Tier '' @ fmt_d RX_TIER @ '').'']\<close>

definition usage_lines :: "string \<Rightarrow> string list" where
  "usage_lines prog = usage_server prog @ usage_sampling @ usage_hardware @ usage_service @ usage_keygen prog"

definition usage :: "string \<Rightarrow> string" where
  "usage prog = concat (map (\<lambda>l. l @ [CHR 0x0A]) (usage_lines prog))"

text \<open>The line of the usage text that introduces a long option: six columns, then the name and a blank.\<close>

definition documents :: "string \<Rightarrow> string \<Rightarrow> bool" where
  "documents name l \<longleftrightarrow> take (length name + 3) (drop 6 l) = ''--'' @ name @ '' ''"

text \<open>The usage text and the option table agree: every option is introduced by a line of its own.\<close>

lemma usage_complete: "list_all (\<lambda>(name, a). list_ex (documents name) (usage_lines prog)) opts"
  by (simp add: opts_def usage_lines_def usage_server_def usage_sampling_def usage_hardware_def usage_service_def documents_def)

section \<open>Messages of the start-up\<close>

text \<open>A message: its level, its tag and its text.\<close>

type_synonym message = "int \<times> string \<times> string"

definition mode_name :: "sampling_mode_t \<Rightarrow> string" where
  "mode_name m = (case m of SAMPLING_NORMAL \<Rightarrow> ''normal'' | SAMPLING_DIRECT_I \<Rightarrow> ''direct-i'' | SAMPLING_DIRECT_Q \<Rightarrow> ''direct-q'')"

definition on_off :: "bool \<Rightarrow> string" where
  "on_off b = (if b then ''on'' else ''off'')"

definition starting_messages :: "main_opts \<Rightarrow> message list" where
  "starting_messages o' =
     [(LL_INFO, ''main'', SLC_DAEMON_NAME @ '' '' @ SLC_DAEMON_VERSION @ '' starting (SDR-SLC-CP-1.0 Release '' @ SLC_CP_RELEASE
         @ '', SDR-SLC-VITA-1.0 Release '' @ SLC_VITA_RELEASE @ '', schema_version '' @ fmt_d CAP_SCHEMA_VERSION
         @ '', functions rx Tier '' @ fmt_d RX_TIER @ '')''),
      (LL_INFO, ''main'', ''mode='' @ mode_name (mo_samp_mode o') @ '' bias_tee='' @ on_off (mo_bias_tee o') @ '' agc='' @ on_off (mo_agc o')
         @ '' ppm='' @ fmt_d (mo_ppm o') @ '' gain='' @ fmt_f 1 (tenths (mo_gain_tenth o')) @ '' dB'')]"

definition warn_rx_locked :: "string \<Rightarrow> message list" where
  \<open>warn_rx_locked keys_file =
     [(LL_WARN, ''main'', ''rx is LOCKED: --rx-auth psk requires authentication (SDR-SLC-CP-1.0 '' @ [CHR 0xC2, CHR 0xA7]
         @ ''26) and no pre-shared key is configured in '' @ keys_file
         @ ''. Every command addressing rx will be refused with "unauthorized".''),
      (LL_WARN, ''main'', ''to unlock it, generate a key on this machine:''),
      (LL_WARN, ''main'', ''    sudo '' @ SLC_DAEMON_NAME @ '' keygen''),
      (LL_WARN, ''main'', ''then enter the key_id and psk it prints into the client and restart the daemon. ''
         @ ''To run without authentication, drop --rx-auth psk.'')]\<close>

definition key_messages :: "main_opts \<Rightarrow> auth_keyring_t \<Rightarrow> message list" where
  "key_messages o' keys =
     (if \<not> mo_rx_auth o' then []
      else let nk = length (kr_keys keys) in
        if nk = 0 then warn_rx_locked (mo_keys_file o')
        else [(LL_INFO, ''main'', ''rx requires psk-hmac-sha256 authentication; '' @ show_nat nk @ '' key'' @ (if nk = 1 then [] else ''s'')
                 @ '' loaded from '' @ mo_keys_file o')])"

definition name_messages :: "('d, 'a) main_env \<Rightarrow> main_opts \<Rightarrow> message list" where
  "name_messages e o' =
     (case mo_name o' of
        Some (c # cs) \<Rightarrow> []
      | _ \<Rightarrow>
          (case pick_mac e (mo_iface o') of
             Some (mac, used) \<Rightarrow> [(LL_INFO, ''main'', ''instance name '' @ fst (instance_name e o') @ '' from '' @ used)]
           | None \<Rightarrow>
               [(LL_WARN, ''main'', ''no interface with a hardware address'' @ (case mo_iface o' of None \<Rightarrow> [] | Some i \<Rightarrow> '' '' @ i)
                   @ ''; instance name '' @ fst (instance_name e o')
                   @ '' is derived from the PID and will NOT be stable across restarts. Use --name.'')]))"

definition persist_messages :: "main_opts \<Rightarrow> message list" where
  "persist_messages o' =
     (if mo_bias_persist o'
      then [(LL_WARN, ''main'', ''--bias-tee-persist: bias tee will be re-applied after a client disconnects. This deviates from SDR-SLC-CP-1.0 ''
              @ [CHR 0xC2, CHR 0xA7] @ ''13.3, which requires 0.0 V.'')]
      else [])"

definition ready_messages :: "main_opts \<Rightarrow> string \<Rightarrow> int \<Rightarrow> message list" where
  "ready_messages o' name gain =
     [(LL_INFO, ''main'', name @ '' ready: '' @ MODEL_NAME @ '', mode '' @ mode_name (mo_samp_mode o') @ '', control tcp/'' @ fmt_u (g_cp_port o')
         @ '', vita udp/'' @ fmt_u (g_vita_src_port o') @ '', mdns '' @ (if mo_no_mdns o' then ''off'' else mo_mdns_backend o')
         @ '', rx auth '' @ (if mo_rx_auth o' then AUTH_METHOD_PSK else ''none'')),
      (LL_INFO, ''main'', ''  ref level: '' @ fmt_f 1 (rtl_reference_level_dbm (tenths gain)) @ '' dBm at '' @ fmt_f 1 (tenths gain)
         @ '' dB gain (nominal, +/-'' @ fmt_f 0 RTL_REF_LEVEL_ACCURACY_DB @ '' dB)''),
      (LL_INFO, ''main'', ''  u8 zero point: '' @ fmt_f 2 (g_u8_zero_point o') @ '' (declared in iq_formats[]; the client subtracts it)'')]
     @ (if mo_bias_tee o'
        then [(LL_WARN, ''main'', ''  BIAS TEE:  ENABLED '' @ [CHR 0xE2, CHR 0x80, CHR 0x94] @ '' voltage on SMA connector'')] else [])"

text \<open>Everything \<open>main\<close> itself logs up to its waiting loop when each step of the start-up succeeds.\<close>

definition main_messages :: "('d, 'a) main_env \<Rightarrow> main_opts \<Rightarrow> ('d, 'a) daemon \<Rightarrow> message list" where
  "main_messages e o' dm =
     starting_messages o' @ key_messages o' (w_keys (dm_world dm)) @ name_messages e o' @ persist_messages o'
     @ ready_messages o' (w_device_name (dm_world dm)) (g_gain_tenth_db (w_rtl (dm_world dm)))"

text \<open>The operator is warned of a locked receiver exactly when authentication is required and no key was loaded.\<close>

lemma warned_when_locked:
  "set (warn_rx_locked (mo_keys_file o')) \<subseteq> set (key_messages o' keys) \<longleftrightarrow> mo_rx_auth o' \<and> kr_keys keys = []"
  by (auto simp: key_messages_def warn_rx_locked_def Let_def LL_WARN_def LL_INFO_def)

end
