(* ===== verification/Cp_Threads.thy ===== *)
theory Cp_Threads
  imports Serving
begin

text \<open>
  The receive loops of the session threads, one \<open>recv\<close> at a time. All threads of \<open>cp_session_thread\<close> fill one static buffer; here a
  frame arrives in pieces, the pieces of several clients interleave, and a message is what the buffer holds when its thread
  parses it. Parsing and serving a message stay one step.
\<close>

section \<open>State\<close>

text \<open>
  Where a thread is in its loop: some bytes of the length prefix received, \<open>got\<close> of \<open>len\<close> bytes of the payload received, a
  payload complete, or a length refused.
\<close>

datatype phase = Header "u8 list" | Payload nat nat | Parsing nat | Refused

record 'd threads =
  th_world :: "'d world"
  th_buf :: "u8 list"
  th_phase :: "nat \<Rightarrow> phase"

text \<open>The bytes the thread asks \<open>recv\<close> for.\<close>

definition wanted :: "phase \<Rightarrow> nat" where
  "wanted ph = (case ph of Header h \<Rightarrow> 4 - length h | Payload len got \<Rightarrow> len - got | _ \<Rightarrow> 0)"

definition write_at :: "nat \<Rightarrow> u8 list \<Rightarrow> u8 list \<Rightarrow> u8 list" where
  "write_at k bs buf = take k buf @ bs @ drop (k + length bs) buf"

definition set_phase :: "nat \<Rightarrow> phase \<Rightarrow> 'd threads \<Rightarrow> 'd threads" where
  "set_phase i ph s = s\<lparr>th_phase := (th_phase s)(i := ph)\<rparr>"

section \<open>Steps\<close>

text \<open>One \<open>recv\<close> that delivers \<open>bs\<close> to the thread of session \<open>i\<close>, with what follows it up to the next call.\<close>

definition recv_bytes :: "nat \<Rightarrow> u8 list \<Rightarrow> 'd threads \<Rightarrow> 'd threads" where
  "recv_bytes i bs s =
     (case th_phase s i of
        Header h \<Rightarrow>
          (let h = h @ bs in
           if length h < 4 then set_phase i (Header h) s
           else let len = from_be32 h in
             if len = 0 \<or> of_nat MAX_MSG_BYTES < len then set_phase i Refused s else set_phase i (Payload (unat len) 0) s)
      | Payload len got \<Rightarrow>
          (let s = s\<lparr>th_buf := write_at got bs (th_buf s)\<rparr>; got = got + length bs in
           if got < len then set_phase i (Payload len got) s
           else set_phase i (Parsing len) (s\<lparr>th_buf := (th_buf s)[len := 0]\<rparr>))
      | _ \<Rightarrow> s)"

text \<open>The text a thread parses and serves, and the end of its loop after an authentication refusal.\<close>

definition serve_buffer :: "'d env \<Rightarrow> 'd env \<Rightarrow> nat \<Rightarrow> nat \<Rightarrow> 'd threads \<Rightarrow> 'd threads option" where
  "serve_buffer e e' i len s =
     (case handle_message e i (text_of (take len (th_buf s))) (th_world s) of
        None \<Rightarrow> None
      | Some w \<Rightarrow>
          let w = (if ss_close_after_reply (sess i w) then session_destroy e' i w else w)
          in Some (set_phase i (Header []) (s\<lparr>th_world := w\<rparr>)))"

inductive thread_step :: "'d threads \<Rightarrow> 'd threads \<Rightarrow> bool" where
  receive: "live i (th_world s) \<Longrightarrow> bs \<noteq> [] \<Longrightarrow> length bs \<le> wanted (th_phase s i) \<Longrightarrow> thread_step s (recv_bytes i bs s)"
| serve: "live i (th_world s) \<Longrightarrow> th_phase s i = Parsing len \<Longrightarrow> serve_buffer e e' i len s = Some s' \<Longrightarrow> thread_step s s'"
| leave: "live i (th_world s) \<Longrightarrow> \<forall>len. th_phase s i \<noteq> Parsing len \<Longrightarrow>
    thread_step s (set_phase i (Header []) (s\<lparr>th_world := session_destroy e i (th_world s)\<rparr>))"
| connect: "0 < fd \<Longrightarrow> accept_connection e fd ip (th_world s) = (Some i, w') \<Longrightarrow>
    thread_step s (set_phase i (Header []) (s\<lparr>th_world := w'\<rparr>))"
| reject: "0 < fd \<Longrightarrow> accept_connection e fd ip (th_world s) = (None, w') \<Longrightarrow> thread_step s (s\<lparr>th_world := w'\<rparr>)"
| buffer: "thread_step s (s\<lparr>th_world := rtl_callback m now buf (th_world s)\<rparr>)"

text \<open>The daemon as it starts: no session, the static buffer zero.\<close>

definition threads_of :: "'d world \<Rightarrow> 'd threads" where
  "threads_of w = \<lparr>th_world = w, th_buf = replicate (MAX_MSG_BYTES + 1) 0, th_phase = \<lambda>_. Header []\<rparr>"

section \<open>The buffer is never overrun\<close>

fun phase_ok :: "phase \<Rightarrow> bool" where
  "phase_ok (Header h) \<longleftrightarrow> length h < 4"
| "phase_ok (Payload len got) \<longleftrightarrow> got < len \<and> len \<le> MAX_MSG_BYTES"
| "phase_ok (Parsing len) \<longleftrightarrow> len \<le> MAX_MSG_BYTES"
| "phase_ok Refused \<longleftrightarrow> True"

definition buffer_ok :: "'d threads \<Rightarrow> bool" where
  "buffer_ok s \<longleftrightarrow> length (th_buf s) = MAX_MSG_BYTES + 1 \<and> (\<forall>i. phase_ok (th_phase s i))"

lemma set_phase_simps [simp]:
  "th_world (set_phase i ph s) = th_world s" "th_buf (set_phase i ph s) = th_buf s" "th_phase (set_phase i ph s) = (th_phase s)(i := ph)"
  by (simp_all add: set_phase_def)

lemma buffer_ok_phase [simp]: "buffer_ok s \<Longrightarrow> phase_ok ph \<Longrightarrow> buffer_ok (set_phase i ph s)"
  by (simp add: buffer_ok_def)

lemma buffer_ok_world [simp]: "buffer_ok (s\<lparr>th_world := w\<rparr>) = buffer_ok s"
  by (simp add: buffer_ok_def)

lemma length_write_at: "k + length bs \<le> length buf \<Longrightarrow> length (write_at k bs buf) = length buf"
  by (simp add: write_at_def)

lemma recv_world [simp]: "th_world (recv_bytes i bs s) = th_world s"
  by (simp add: recv_bytes_def Let_def split: phase.split)

lemma bad_length: "\<not> of_nat MAX_MSG_BYTES < (len :: u32) \<Longrightarrow> unat len \<le> MAX_MSG_BYTES"
  by (simp add: word_less_nat_alt MAX_MSG_BYTES_def)

lemma recv_buffer_ok:
  assumes ok: "buffer_ok s" and n: "length bs \<le> wanted (th_phase s i)"
  shows "buffer_ok (recv_bytes i bs s)"
proof (cases "th_phase s i")
  case (Header h)
  then show ?thesis using ok bad_length by (auto simp: recv_bytes_def Let_def unat_gt_0)
next
  case (Payload len got)
  then have "got < len" "len \<le> MAX_MSG_BYTES" using ok unfolding buffer_ok_def by (metis phase_ok.simps(2))+
  then have "length (write_at got bs (th_buf s)) = MAX_MSG_BYTES + 1"
    using ok n Payload by (simp add: buffer_ok_def wanted_def length_write_at)
  with ok Payload \<open>len \<le> MAX_MSG_BYTES\<close> show ?thesis by (auto simp: recv_bytes_def buffer_ok_def Let_def)
qed (use ok in \<open>simp_all add: recv_bytes_def\<close>)

lemma serve_buffer_ok: "buffer_ok s \<Longrightarrow> serve_buffer e e' i len s = Some s' \<Longrightarrow> buffer_ok s'"
  by (auto simp: serve_buffer_def Let_def split: option.splits)

lemma thread_step_ok: "thread_step s s' \<Longrightarrow> buffer_ok s \<Longrightarrow> buffer_ok s'"
  by (induction rule: thread_step.induct) (auto intro: recv_buffer_ok serve_buffer_ok)

section \<open>The interleaved threads refine the daemon\<close>

text \<open>
  A detailed transition system refines an abstract one through \<open>abs\<close> when each of its steps, under its invariant, is a run of the
  abstract system, possibly empty.
\<close>

locale stuttering_refinement =
  fixes detailed :: "'c \<Rightarrow> 'c \<Rightarrow> bool" and inv :: "'c \<Rightarrow> bool" and abstract :: "'a \<Rightarrow> 'a \<Rightarrow> bool" and abs :: "'c \<Rightarrow> 'a"
  assumes keeps: "detailed c c' \<Longrightarrow> inv c \<Longrightarrow> inv c'"
    and simulates: "detailed c c' \<Longrightarrow> inv c \<Longrightarrow> abstract\<^sup>*\<^sup>* (abs c) (abs c')"
begin

lemma run_simulated: "detailed\<^sup>*\<^sup>* c c' \<Longrightarrow> inv c \<Longrightarrow> inv c' \<and> abstract\<^sup>*\<^sup>* (abs c) (abs c')"
proof (induction rule: rtranclp_induct)
  case (step c1 c2)
  then have i: "inv c1" and r: "abstract\<^sup>*\<^sup>* (abs c) (abs c1)" by simp_all
  show ?case using keeps [OF step.hyps(2) i] rtranclp_trans [OF r simulates [OF step.hyps(2) i]] by blast
qed simp

end

lemma serve_simulated:
  assumes "live i (th_world s)" and "serve_buffer e e' i len s = Some s'"
  shows "step\<^sup>*\<^sup>* (th_world s) (th_world s')"
proof -
  obtain w where w: "handle_message e i (text_of (take len (th_buf s))) (th_world s) = Some w"
    "th_world s' = (if ss_close_after_reply (sess i w) then session_destroy e' i w else w)"
    using assms(2) by (auto simp: serve_buffer_def Let_def split: option.splits)
  have "step (th_world s) w" by (rule step.message [OF assms(1) w(1)])
  moreover have "step w (session_destroy e' i w)" by (rule step.leave [OF handle_message_live [OF assms(1) w(1)]])
  ultimately show ?thesis using w(2) by (auto intro: converse_rtranclp_into_rtranclp)
qed

lemma thread_step_simulated: "thread_step s s' \<Longrightarrow> step\<^sup>*\<^sup>* (th_world s) (th_world s')"
  by (induction rule: thread_step.induct) (auto intro: serve_simulated step.intros)

interpretation threaded: stuttering_refinement thread_step buffer_ok step th_world
  by unfold_locales (auto intro: thread_step_ok thread_step_simulated)

section \<open>A frame in pieces\<close>

text \<open>
  The receipts of all threads in their order, while no thread but that of session \<open>i\<close> is filling the buffer: the others receive
  bytes of their length prefixes only.
\<close>

fun receipts :: "nat \<Rightarrow> (nat \<times> u8 list) list \<Rightarrow> 'd threads \<Rightarrow> 'd threads option" where
  "receipts i [] s = Some s"
| "receipts i ((j, bs) # evs) s =
     (if bs \<noteq> [] \<and> length bs \<le> wanted (th_phase s j) \<and> (j \<noteq> i \<longrightarrow> (case th_phase s j of Header _ \<Rightarrow> True | _ \<Rightarrow> False))
      then receipts i evs (recv_bytes j bs s) else None)"

definition own :: "nat \<Rightarrow> (nat \<times> u8 list) list \<Rightarrow> u8 list" where
  "own i evs = concat (map snd (filter (\<lambda>(j, bs). j = i) evs))"

text \<open>The thread of session \<open>i\<close> has received the first \<open>k\<close> bytes of the frame of \<open>m\<close>.\<close>

definition holding :: "nat \<Rightarrow> string \<Rightarrow> nat \<Rightarrow> 'd threads \<Rightarrow> bool" where
  "holding i m k s \<longleftrightarrow> buffer_ok s \<and>
     (if k < 4 then th_phase s i = Header (take k (frame_bytes m))
      else if k < 4 + length m then th_phase s i = Payload (length m) (k - 4) \<and> take (k - 4) (th_buf s) = take (k - 4) (octets_of m)
      else k = 4 + length m \<and> th_phase s i = Parsing (length m) \<and> take (length m) (th_buf s) = octets_of m)"

lemma length_octets [simp]: "length (octets_of m) = length m"
  by (simp add: octets_of_def)

lemma length_frame [simp]: "length (frame_bytes m) = 4 + length m"
  by (simp add: frame_bytes_def)

lemma frame_prefix: "take 4 (frame_bytes m) = be32 (of_nat (length m))" "drop 4 (frame_bytes m) = octets_of m"
  by (simp_all add: frame_bytes_def)

lemma length_read:
  assumes "m \<noteq> []" and "length m \<le> MAX_MSG_BYTES"
  shows "unat (of_nat (length m) :: u32) = length m" and "(of_nat (length m) :: u32) \<noteq> 0"
    and "\<not> of_nat MAX_MSG_BYTES < (of_nat (length m) :: u32)"
proof -
  show u: "unat (of_nat (length m) :: u32) = length m"
    using assms(2) by (simp add: unat_of_nat take_bit_nat_eq_self MAX_MSG_BYTES_def)
  show "(of_nat (length m) :: u32) \<noteq> 0" using assms(1) u by (metis length_0_conv unat_0)
  show "\<not> of_nat MAX_MSG_BYTES < (of_nat (length m) :: u32)" using assms(2) u by (simp add: word_less_nat_alt MAX_MSG_BYTES_def)
qed

lemma take_write_at: "k \<le> length buf \<Longrightarrow> take (k + length bs) (write_at k bs buf) = take k buf @ bs"
  by (simp add: write_at_def)

lemma holding_recv:
  assumes h: "holding i m k s" and m: "m \<noteq> []" "length m \<le> MAX_MSG_BYTES"
    and bs: "bs = take (length bs) (drop k (frame_bytes m))" "length bs \<le> wanted (th_phase s i)"
  shows "holding i m (k + length bs) (recv_bytes i bs s)"
proof -
  have ok: "buffer_ok s" using h by (simp add: holding_def)
  note ok' = recv_buffer_ok [OF ok bs(2)]
  consider (head) "k < 4" | (body) "4 \<le> k" "k < 4 + length m" | (whole) "k = 4 + length m" using h by (auto simp: holding_def split: if_splits)
  then show ?thesis
  proof cases
    case head
    then have p: "th_phase s i = Header (take k (frame_bytes m))" using h by (simp add: holding_def)
    have le: "k + length bs \<le> 4" using bs(2) head by (simp add: p wanted_def)
    have cat: "take k (frame_bytes m) @ bs = take (k + length bs) (frame_bytes m)" by (subst bs(1)) (simp add: take_add)
    show ?thesis
    proof (cases "k + length bs < 4")
      case True
      then show ?thesis using ok' by (simp add: holding_def recv_bytes_def p cat Let_def)
    next
      case False
      with le have "k + length bs = 4" by simp
      then have "take k (frame_bytes m) @ bs = be32 (of_nat (length m))" using cat frame_prefix(1) by metis
      then show ?thesis
        using ok' m \<open>k + length bs = 4\<close> length_read [OF m] by (simp add: holding_def recv_bytes_def p Let_def)
    qed
  next
    case body
    then have p: "th_phase s i = Payload (length m) (k - 4)" "take (k - 4) (th_buf s) = take (k - 4) (octets_of m)"
      using h by (simp_all add: holding_def)
    have le: "k - 4 + length bs \<le> length m" using bs(2) body by (simp add: p wanted_def)
    have "bs = take (length bs) (drop (k - 4) (octets_of m))" using bs(1) body frame_prefix(2) [of m] by (metis drop_drop le_add_diff_inverse2)
    then have cat: "take (k - 4) (octets_of m) @ bs = take (k - 4 + length bs) (octets_of m)" by (metis take_add)
    have buf: "length (th_buf s) = MAX_MSG_BYTES + 1" using ok by (simp add: buffer_ok_def)
    have w: "take (k - 4 + length bs) (write_at (k - 4) bs (th_buf s)) = take (k - 4 + length bs) (octets_of m)"
      using take_write_at [of "k - 4" "th_buf s" bs] body buf m(2) p(2) cat by simp
    show ?thesis
    proof (cases "k - 4 + length bs < length m")
      case True
      then show ?thesis using ok' w body by (simp add: holding_def recv_bytes_def p Let_def)
    next
      case False
      with le body have "k - 4 + length bs = length m" "k + length bs = 4 + length m" by simp_all
      then show ?thesis using ok' w by (simp add: holding_def recv_bytes_def p Let_def)
    qed
  next
    case whole
    then have "bs = []" "th_phase s i = Parsing (length m)" using bs(1) h by (simp_all add: holding_def)
    then show ?thesis using h by (simp add: recv_bytes_def)
  qed
qed

lemma holding_other:
  assumes "holding i m k s" and "j \<noteq> i" and "th_phase s j = Header h" and "length bs \<le> wanted (th_phase s j)"
  shows "holding i m k (recv_bytes j bs s)"
proof -
  have "buffer_ok (recv_bytes j bs s)" using recv_buffer_ok [OF _ assms(4)] assms(1) by (simp add: holding_def)
  moreover have "th_buf (recv_bytes j bs s) = th_buf s" "th_phase (recv_bytes j bs s) i = th_phase s i"
    using assms(2,3) by (simp_all add: recv_bytes_def Let_def)
  ultimately show ?thesis using assms(1) by (simp add: holding_def)
qed

lemma receipts_hold:
  assumes "receipts i evs s = Some s'" and "holding i m k s" and "m \<noteq> []" and "length m \<le> MAX_MSG_BYTES" and "own i evs = drop k (frame_bytes m)"
  shows "holding i m (4 + length m) s' \<and> th_world s' = th_world s"
  using assms
proof (induction evs arbitrary: s k)
  case Nil
  then have "4 + length m \<le> k" by (simp add: own_def)
  then show ?case using Nil by (simp add: holding_def split: if_splits)
next
  case (Cons ev evs)
  obtain j bs where ev: "ev = (j, bs)" by (cases ev)
  have r: "receipts i evs (recv_bytes j bs s) = Some s'" "length bs \<le> wanted (th_phase s j)" "j \<noteq> i \<Longrightarrow> \<exists>h. th_phase s j = Header h"
    using Cons.prems(1) by (auto simp: ev split: if_splits phase.splits)
  show ?case
  proof (cases "j = i")
    case True
    then have o: "bs @ own i evs = drop k (frame_bytes m)" using Cons.prems(5) by (simp add: own_def ev)
    then have "bs = take (length bs) (drop k (frame_bytes m))" "own i evs = drop (k + length bs) (frame_bytes m)"
      by (metis append_eq_conv_conj, metis add.commute append_eq_conv_conj drop_drop)
    with Cons.IH [OF r(1) [unfolded True] holding_recv [OF Cons.prems(2-4)] Cons.prems(3,4)] r(2) True show ?thesis by simp
  next
    case False
    then obtain h where "th_phase s j = Header h" using r(3) by blast
    with Cons.IH [OF r(1) holding_other [OF Cons.prems(2) False] Cons.prems(3,4)] r(2) False Cons.prems(5) show ?thesis
      by (simp add: own_def ev)
  qed
qed

section \<open>Properties\<close>


text \<open>
  C19: A frame survives the network: into whatever pieces its bytes are split, as long as no other thread fills the buffer meanwhile, the
  thread ends up with exactly the message, and serving it is the service of that message.
\<close>

theorem frame_reassembled:
  assumes "receipts i evs s = Some s'" and "own i evs = frame_bytes m" and "m \<noteq> []" and "length m \<le> MAX_MSG_BYTES"
    and "buffer_ok s" and "th_phase s i = Header []"
  shows "th_phase s' i = Parsing (length m) \<and> text_of (take (length m) (th_buf s')) = m \<and> th_world s' = th_world s
    \<and> serve_buffer e e' i (length m) s' =
        map_option (\<lambda>w. set_phase i (Header []) (s'\<lparr>th_world := if ss_close_after_reply (sess i w) then session_destroy e' i w else w\<rparr>))
          (handle_message e i m (th_world s))"
proof -
  have "holding i m 0 s" using assms(5,6) by (simp add: holding_def)
  from receipts_hold [OF assms(1) this assms(3,4)] assms(2)
  have h: "th_phase s' i = Parsing (length m)" "take (length m) (th_buf s') = octets_of m" "th_world s' = th_world s" by (simp_all add: holding_def)
  then show ?thesis by (simp add: serve_buffer_def Let_def split: option.split)
qed

definition demo_pieces :: "(nat \<times> u8 list) list" where
  "demo_pieces = [(0, [0, 0]), (1, [0]), (0, [0, 2]), (0, [0x7B]), (1, [0, 0, 9]), (0, [0x7D])]"

theorem frame_reassembled_witness:
  "\<exists>s'. receipts 0 demo_pieces (threads_of demo_two) = Some s' \<and> text_of (take 2 (th_buf s')) = ''{}''"
proof -
  have "\<exists>s'. receipts 0 demo_pieces (threads_of demo_two) = Some s'"
    by (simp add: demo_pieces_def threads_of_def recv_bytes_def set_phase_def wanted_def MAX_MSG_BYTES_def write_at_def Let_def)
  then obtain s' where s': "receipts 0 demo_pieces (threads_of demo_two) = Some s'" by blast
  moreover have "own 0 demo_pieces = frame_bytes ''{}''"
    by (simp add: own_def demo_pieces_def frame_bytes_def be32_def octets_of_def)
  moreover have "buffer_ok (threads_of demo_two)" "th_phase (threads_of demo_two) 0 = Header []" by (simp_all add: threads_of_def buffer_ok_def)
  ultimately show ?thesis using frame_reassembled [of 0 demo_pieces "threads_of demo_two" s' "''{}''"] by (auto simp: MAX_MSG_BYTES_def numeral_2_eq_2)
qed


end
