(* ===== verification/Stream_Control.thy ===== *)
theory Stream_Control
  imports Serving
begin

text \<open>
  A receiver in use, end to end: a gain the capabilities publish, sent back as it is printed there, is set exactly; a stream that runs is
  stopped and closed as its client asks; and while it runs, the USB buffers reach the client byte for byte.
\<close>

section \<open>A gain as text\<close>

text \<open>\<open>%.1f\<close> of a tenth, and \<open>strtod\<close> of that text, for the gains a tuner lists.\<close>

definition gain_digits :: "nat \<Rightarrow> string" where
  "gain_digits t = show_nat (t div 10) @ ''.'' @ show_nat (t mod 10)"

definition gain_text :: "int \<Rightarrow> string" where
  "gain_text t = (if t < 0 then ''-'' else []) @ gain_digits (nat \<bar>t\<bar>)"

lemma tenths_minus: "\<bar>t\<bar> < 2 ^ 53 \<Longrightarrow> tenths (- t) = dneg (tenths t)"
  using fl_minus [of "of_int t / 10"] fl_of_int [of t] fl_of_int [of "- t"] by (simp add: tenths_def of_int_d_def)

lemma show_digit: "d < 10 \<Longrightarrow> show_nat d = [digit_char d]"
  by (subst show_nat.simps) simp

lemma tenths_read:
  assumes "0 < t" and "t < 2 ^ 20"
  obtains r where "tenths (int t) = Fin r" and "0 < r" and "rne (r * 10) = int t"
proof -
  define x :: rat where "x = of_nat t"
  have "int t < int (2 ^ 20)" using assms(2) by (simp only: of_nat_less_iff)
  then have t: "int t \<noteq> 0" "\<bar>int t\<bar> < 2 ^ 20" using assms(1) by simp_all
  obtain r where r: "tenths (int t) = Fin r" "\<bar>r - x / 10\<bar> \<le> \<bar>x\<bar> / 10 / 2 ^ 53"
    using tenths_near [OF t] by (auto simp: x_def)
  have x: "1 \<le> \<bar>x\<bar>" "\<bar>x\<bar> \<le> 1048576" "0 \<le> x" using rat_of_int_bounds [OF t] by (simp_all add: x_def)
  have e: "\<bar>x\<bar> / 10 / 2 ^ 53 \<le> 1 / 100" using x(2) by simp
  have "0 < r" "\<bar>x - r * 10\<bar> < 1 / 2" using r(2) e x by linarith+
  then show ?thesis using r(1) by (intro that [of r]) (auto simp: x_def intro: rne_eqI)
qed

lemma fmt_tenths:
  assumes "\<bar>t\<bar> < 2 ^ 20"
  shows "fmt_f 1 (tenths t) = gain_text t"
proof (cases "t = 0")
  case True
  then have "tenths t = Fin 0" using fl_of_int [of 0] by (simp add: tenths_def of_int_d_def)
  then show ?thesis using True rne_of_int [of 0] by (simp add: fmt_f_def gain_text_def gain_digits_def Let_def show_digit)
next
  case False
  then obtain r where r: "tenths \<bar>t\<bar> = Fin r" "0 < r" "rne (r * 10) = \<bar>t\<bar>"
    using tenths_read [of "nat \<bar>t\<bar>"] assms by (auto simp: nat_less_iff)
  have "tenths t = Fin (if t < 0 then - r else r)" using r(1) tenths_minus [of "\<bar>t\<bar>"] assms by auto
  then show ?thesis using r(2,3) by (simp add: fmt_f_def gain_text_def gain_digits_def Let_def show_digit)
qed

lemma takeWhile_shown: "takeWhile isdigit (show_nat n @ CHR ''.'' # s) = show_nat n" "dropWhile isdigit (show_nat n @ CHR ''.'' # s) = CHR ''.'' # s"
proof -
  have "\<not> isdigit (CHR ''.'')" by (simp add: isdigit_def)
  then show "takeWhile isdigit (show_nat n @ CHR ''.'' # s) = show_nat n" "dropWhile isdigit (show_nat n @ CHR ''.'' # s) = CHR ''.'' # s"
    using show_nat_isdigit [of n] by (simp_all add: takeWhile_append2 dropWhile_append2)
qed

lemma digit_start:
  assumes "isdigit c"
  shows "\<not> isspace c" "c \<noteq> CHR ''-''" "c \<noteq> CHR ''+''" "tolower c = c" "c \<noteq> CHR ''i''" "c \<noteq> CHR ''n''"
  using assms by (auto simp: isdigit_def isspace_def tolower_def)

lemma strtod_gain_digits: "strtod (gain_digits t) = fl (of_nat t / 10)" "strtod (CHR ''-'' # gain_digits t) = dneg (fl (of_nat t / 10))"
proof -
  obtain c cs where c: "show_nat (t div 10) = c # cs" using show_nat_nonempty by (meson neq_Nil_conv)
  have d: "isdigit c" "\<forall>x \<in> set cs. isdigit x" using show_nat_isdigit [of "t div 10"] c by simp_all
  have hex: "take 2 (map tolower (gain_digits t)) \<noteq> ''0x''"
  proof (cases cs)
    case (Cons x xs)
    then have "tolower x \<noteq> CHR ''x''" using d(2) by (auto simp: isdigit_def tolower_def)
    then show ?thesis by (simp add: gain_digits_def c Cons)
  qed (simp add: gain_digits_def c tolower_def)
  have "base_value 10 digit_val (show_nat (t div 10) @ show_nat (t mod 10)) = t"
    using dec_value_show_nat [of "t div 10"] dec_value_show_nat [of "t mod 10"]
    by (simp add: show_digit base_value_def dec_value_def)
  then have n: "read_number 10 isdigit digit_val (CHR ''e'') 10 (gain_digits t) = Some (of_nat t / 10)"
    by (simp add: read_number_def gain_digits_def takeWhile_shown takeWhile_isdigit_show_nat show_nat_nonempty read_exponent_def Let_def)
       (simp add: show_digit)
  have "strip_sign (dropWhile isspace (gain_digits t)) = (False, gain_digits t)"
    "take 3 (map tolower (gain_digits t)) \<noteq> ''inf''" "take 3 (map tolower (gain_digits t)) \<noteq> ''nan''"
    using digit_start [OF d(1)] by (simp_all add: gain_digits_def c)
  then show "strtod (gain_digits t) = fl (of_nat t / 10)" "strtod (CHR ''-'' # gain_digits t) = dneg (fl (of_nat t / 10))"
    using hex n by (simp_all add: strtod_def isspace_def)
qed

lemma gain_text_tenths: "\<bar>t\<bar> < 2 ^ 20 \<Longrightarrow> strtod (gain_text t) = tenths t"
  using fl_of_int [of "int (nat \<bar>t\<bar>)"] tenths_minus [of "\<bar>t\<bar>"]
  by (auto simp: gain_text_def strtod_gain_digits tenths_def of_int_d_def)

lemma gain_text_plain:
  assumes "\<bar>t\<bar> < 2 ^ 20"
  shows "CHR 0x00 \<notin> set (gain_text t)" "length (gain_text t) < 64" "gain_text t \<noteq> ''true''" "gain_text t \<noteq> ''false''" "prim_ok (gain_text t)"
proof -
  have d: "isdigit c \<or> c = CHR ''.'' \<or> c = CHR ''-''" if "c \<in> set (gain_text t)" for c
    using that show_nat_isdigit by (auto simp: gain_text_def gain_digits_def split: if_splits)
  then show "CHR 0x00 \<notin> set (gain_text t)" "gain_text t \<noteq> ''true''" "gain_text t \<noteq> ''false''" by (force simp: isdigit_def)+
  have "length (show_nat (nat \<bar>t\<bar> div 10)) \<le> Suc 6" using assms by (intro show_nat_length) (simp add: nat_less_iff)
  then have "length (gain_digits (nat \<bar>t\<bar>)) < 63" by (simp only: gain_digits_def) (simp add: show_digit)
  then show "length (gain_text t) < 64" by (auto simp: gain_text_def abs_if split: if_splits)
  have "c \<in> set (gain_text t) \<Longrightarrow> prim_char c \<and> \<not> prim_delim c \<and> c \<notin> {CHR ''{'', CHR ''['', CHR 0x22}" for c
    using d [of c] by (auto simp: isdigit_def prim_char_def prim_delim_def)
  moreover have "gain_text t \<noteq> []" by (simp add: gain_text_def gain_digits_def)
  ultimately show "prim_ok (gain_text t)" by (auto simp: prim_ok_def list_all_iff hd_in_set)
qed

lemma listed_gain: "t \<in> set gs \<Longrightarrow> \<bar>t\<bar> < 2 ^ 20 \<Longrightarrow> on_gain_list (tenths t) gs"
proof -
  assume t: "t \<in> set gs" "\<bar>t\<bar> < 2 ^ 20"
  obtain r where "tenths t = Fin r"
  proof (cases "t = 0")
    case True
    then show ?thesis using fl_of_int [of 0] by (intro that [of 0]) (simp add: tenths_def of_int_d_def)
  qed (use tenths_near [OF _ t(2)] that in blast)
  then have "dfabs (dsub (tenths t) (tenths t)) = Fin 0" using fl_of_int [of 0] by (simp add: dsub_def)
  moreover have "dless (Fin 0) (fl (5 / 100))" by code_simp
  ultimately show ?thesis unfolding on_gain_list_def using t(1) by metis
qed

section \<open>Setting a published gain\<close>

lemma control_read:
  assumes rq: "has_params ws kvs rid ''set_control'' ps" and rx: "for_rx ps" and adm: "admitted i w" and free: "\<not> cp_rx_owned_by_other i w"
    and n: "map_of ps ''name'' = Some (JStr name)" "CHR 0x00 \<notin> set name" "length name < 32"
    and v: "map_of ps ''value'' = Some (JPrim s)" "CHR 0x00 \<notin> set s" "length s < 64" "s \<noteq> ''true''" "s \<noteq> ''false''"
  obtains nt vt where "handle_message e i (jtext ws (JObj kvs)) w = set_control_value e i rid (jtext ws (JObj kvs)) nt vt w"
    and "tok_str (jtext ws (JObj kvs)) nt 32 = name" and "tok_str (jtext ws (JObj kvs)) vt 64 = s" and "number_tok (jtext ws (JObj kvs)) vt"
proof -
  let ?js = "jtext ws (JObj kvs)"
  obtain t p where d: "handle_message e i ?js w = dispatch e i ''set_control'' rid ?js t w"
    "value_at ws ?js t p (JObj ps)" "tok_find_key ?js t 0 ''params'' = Some (Some p)" using request_dispatched [OF rq adm] .
  obtain x where x: "value_at ws ?js t x (JStr name)" "tok_find_key ?js t p ''name'' = Some (Some x)" using key_present [OF d(2) n(1)] .
  obtain y where y: "value_at ws ?js t y (JPrim s)" "tok_find_key ?js t p ''value'' = Some (Some y)" using key_present [OF d(2) v(1)] .
  obtain nt where nt: "tok_at t x = Some nt" "tok_str ?js nt 32 = name" using string_tok [OF x(1) n(2,3)] .
  obtain vt where vt: "tok_at t y = Some vt" "tk_type vt = JSMN_PRIMITIVE" "tok_text ?js vt = s" using prim_at [OF y(1)] by blast
  have "tok_str ?js vt 64 = s" using vt(3) v(2,3) by (simp add: tok_str_def cstr_id)
  moreover have "number_tok ?js vt"
    using vt v(4,5) by (simp add: number_tok_def tok_is_bool_def tok_is_true_def tok_is_false_def del: jtext.simps)
  moreover have "handle_message e i ?js w = set_control_value e i rid ?js nt vt w"
    using free nt(1) vt(1)
    by (simp add: d(1) dispatch_def cmd_set_control_def guarded_def rx_function [OF d(2,3) rx] may_configure_def lookups x(2) y(2) del: jtext.simps)
  ultimately show ?thesis using that nt(2) by blast
qed

lemma load_table_frame [simp]:
  "w_rtl (load_gain_table e w) = w_rtl w" "w_sessions (load_gain_table e w) = w_sessions w" "w_out (load_gain_table e w) = w_out w"
  "w_vita (load_gain_table e w) = w_vita w" "w_udp (load_gain_table e w) = w_udp w" "w_rx_owner (load_gain_table e w) = w_rx_owner w"
  "sess k (load_gain_table e w) = sess k w"
  by (simp_all add: load_gain_table_def sess_def split: option.split list.split)

text \<open>
  C11: A gain the device publishes can be set: sent as the capabilities print it, while no other client holds the receiver and the AGC is off, each
  entry of the gain table is accepted and applied exactly, the text through \<open>strtod\<close> and the arithmetic on \<open>double\<close> included; the
  session remembers it, the reply and the event to every greeted client carry the same text, and running streams get a Context
  packet for it.
\<close>

theorem published_gain_accepted:
  assumes "has_params ws kvs rid ''set_control'' ps" and "for_rx ps" and "admitted i w" and "cp_inv w" and "live i w"
    and "map_of ps ''name'' = Some (JStr ''rf_gain'')" and "map_of ps ''value'' = Some (JPrim (fmt_f 1 (tenths (t))))"
    and "w_rx_owner w = None \<or> w_rx_owner w = Some i" and "tuner (e_lib e)" and "s_dev (w_rtl w)" and "\<not> g_agc_enabled (w_rtl w)"
    and "t \<in> set (gain_table (load_gain_table e w))" and "t \<in> set (rtlsdr_get_tuner_gains (e_lib e) (r_device (w_rtl w)))"
  shows "\<exists>w'. handle_message e i (jtext ws (JObj kvs)) w = Some w' \<and> g_gain_tenth_db (w_rtl w') = t
    \<and> ss_rf_gain_db (sess i w') = tenths (t) \<and> (\<forall>k. k \<noteq> i \<longrightarrow> sess k w' = sess k w) \<and> w_rx_owner w' = w_rx_owner w
    \<and> w_udp w' = w_udp w @ snd (vita_send_context_all (t) (w_vita w))
    \<and> w_out w' = w_out w @ [(i, ok_json rid (control_result ''rf_gain'' (fmt_f 1 (tenths (t)))))]
         @ map (\<lambda>k. (k, event_json ''control_changed'' (control_event ''rf_gain'' (fmt_f 1 (tenths (t)))))) (audience None w)"
proof -
  have small: "\<bar>t\<bar> < 2 ^ 20" using tuner.table_small [OF assms(9,13)] by simp
  note p = gain_text_plain [OF small]
  have free: "\<not> cp_rx_owned_by_other i w" using assms(8) by (auto simp: cp_rx_owned_by_other_def)
  have i: "i < length (w_sessions w)" "0 < ss_fd (sess i w)" using assms(4,5) by (simp_all add: live_def cp_invD(1))
  obtain nt vt where c: "handle_message e i (jtext ws (JObj kvs)) w = set_control_value e i rid (jtext ws (JObj kvs)) nt vt w"
    "tok_str (jtext ws (JObj kvs)) nt 32 = ''rf_gain''" "tok_str (jtext ws (JObj kvs)) vt 64 = gain_text t" "number_tok (jtext ws (JObj kvs)) vt"
    using control_read [OF assms(1-3) free assms(6) _ _ assms(7) [unfolded fmt_tenths [OF small]] p(1-4), of e] by auto
  obtain g where g: "rtl_set_gain (e_lib e) (tenths (t)) (w_rtl w) = Some (tenths (t), g)" "g_gain_tenth_db g = t"
    using tuner.set_gain_listed [OF assms(9,10,13)] by blast
  let ?w = "upd i (\<lambda>s. s\<lparr>ss_rf_gain_db := tenths (t)\<rparr>) ((load_gain_table e w)\<lparr>w_rtl := g\<rparr>)"
  let ?t = "fmt_f 1 (tenths (t))"
  have h: "handle_message e i (jtext ws (JObj kvs)) w = Some (broadcast None ''control_changed'' (control_event ''rf_gain'' ?t)
      (send_context_all (send_ok i rid (control_result ''rf_gain'' ?t) ?w)))"
    using listed_gain [OF assms(12) small] assms(11) g(1)
    by (simp add: c set_control_value_def set_rf_gain_def gain_text_tenths [OF small] Let_def del: jtext.simps)
  have aud: "audience None (send_context_all (send_framed i s ?w)) = audience None w" for s
    using i by (simp add: audience_def hears_def sess_upd send_context_all_def on_vita_def case_prod_unfold cong: if_cong)
  show ?thesis
    unfolding h using i g(2)
    by (simp add: broadcast_eq aud send_ok_def) (simp add: send_context_all_def on_vita_def case_prod_unfold send_framed_def sess_upd)
qed

text \<open>On the fake dongle: the gain 19.7 dB, while no client holds the receiver.\<close>

definition demo_gain_params :: "(string \<times> json) list" where
  "demo_gain_params = [(''function'', JStr ''rx''), (''name'', JStr ''rf_gain''), (''value'', JPrim (fmt_f 1 (tenths 197)))]"

lemma demo_gain_has:
  "has_params '' '' (demo_request ''set_control'' demo_gain_params) ''4'' ''set_control'' demo_gain_params" "for_rx demo_gain_params"
proof -
  have "prim_ok (fmt_f 1 (tenths 197))" using fmt_tenths [of 197] gain_text_plain(5) [of 197] by simp
  then show "has_params '' '' (demo_request ''set_control'' demo_gain_params) ''4'' ''set_control'' demo_gain_params" "for_rx demo_gain_params"
    by (simp_all add: demo_request_def has_params_def good_message_def is_request_def json_space_def member_toks_def MAX_JSON_TOKENS_def
        demo_gain_params_def for_rx_def)
qed

text \<open>A started daemon has the AGC as the command line says and has not read the gain table yet.\<close>

lemma start_gain:
  assumes "main_start e o' dev = Some (Inr dm)"
  shows "g_agc_enabled (w_rtl (dm_world dm)) = mo_agc o' \<and> w_gains (dm_world dm) = None"
proof -
  have i: "g_agc_enabled g = mo_agc o'" if "rtl_bridge_init lib m v (mo_agc o') p (rtl_globals dev) = (r, g)" "\<not> r < 0" for lib m v p r g
    using that by (auto simp: rtl_bridge_init_def Let_def dev_call_def case_prod_unfold split: if_splits)
  have m: "g_agc_enabled g' = g_agc_enabled g" if "main_gain e o' g = Some g'" for g g'
    using that by (auto simp: main_gain_def rtl_set_gain_def Let_def split: if_splits option.splits)
  have s: "g_agc_enabled (w_rtl (dm_world dm)) = g_agc_enabled g \<and> w_gains (dm_world dm) = None"
    if "main_serve e o' keys name iface disp g = Some (Inr dm)" for keys name iface disp g
    using that by (auto simp: main_serve_def fresh_world_def rtl_set_overload_handler_def Let_def split: if_splits bind_splits prod.splits)
  show ?thesis using assms i m s
    by (fastforce simp: main_start_def Let_def split: if_splits option.splits bind_splits prod.splits)
qed

lemma demo_gain_state:
  "\<not> g_agc_enabled (w_rtl demo_greeted)" "gain_table (load_gain_table demo_env demo_greeted) = stub_gains"
proof -
  have c: "w_gains (snd (accept_connection e fd ip w)) = w_gains w" if "e_thread_ok e" for e :: "stub env" and fd ip w
    using that by (auto simp: accept_connection_def session_create_def split: option.split)
  have h: "w_gains (hello_accept e i rid name w) = w_gains w" for e :: "stub env" and i rid name w
    by (simp add: hello_accept_def issue_nonce_def Let_def split: option.split)
  have st: "\<not> g_agc_enabled (w_rtl (dm_world (demo_daemon False)))" "w_gains (dm_world (demo_daemon False)) = None"
    using start_gain [OF demo_starts [of False]] by (simp_all add: demo_opts_def main_defaults_def)
  show "\<not> g_agc_enabled (w_rtl demo_greeted)" using st(1) by (simp add: demo_greeted_rtl(1))
  have "e_thread_ok demo_env" by (simp add: demo_env_def)
  then have "w_gains demo_greeted = None"
    by (simp add: demo_greeted_def demo_two_def demo_connected_def c h st(2))
  then show "gain_table (load_gain_table demo_env demo_greeted) = stub_gains"
    using demo_greeted_rtl(2) by (simp add: load_gain_table_def gain_table_def rtl_get_gain_list_def demo_env_def stub_lib_def stub_gains_def)
qed

theorem published_gain_accepted_witness:
  "\<exists>w'. handle_message demo_env 0 (jtext '' '' (JObj (demo_request ''set_control'' demo_gain_params))) demo_greeted = Some w'
     \<and> g_gain_tenth_db (w_rtl w') = 197 \<and> ss_rf_gain_db (sess 0 w') = tenths 197"
proof -
  have "tuner (e_lib demo_env)" using stub_tuner.tuner_axioms by (simp add: demo_env_def)
  moreover have "197 \<in> set (rtlsdr_get_tuner_gains (e_lib demo_env) d)" for d by (simp add: demo_env_def stub_lib_def stub_gains_def)
  ultimately show ?thesis
    using published_gain_accepted [OF demo_gain_has demo_admitted demo_greeted_sess(7,1), of 197 demo_env] demo_greeted_sess(5) demo_greeted_rtl(2)
      demo_gain_state by (auto simp: demo_gain_params_def stub_gains_def simp del: jtext.simps)
qed

section \<open>Stopping and closing a stream\<close>

lemma reader_stopped:
  assumes "reader_inv g" and "s_running g"
  shows "s_stream_count (rtl_bridge_stop lib g) = s_stream_count g - 1" "s_running (rtl_bridge_stop lib g) \<longleftrightarrow> 1 < s_stream_count g"
  using assms by (auto simp: reader_inv_def rtl_bridge_stop_def rtl_cancel_def Let_def)

lemma stop_rx_stops:
  assumes inv: "cp_inv w" and live: "live i w" and st: "ss_state (sess i w) = SESSION_STREAMING"
    and w': "w' = stop_rx_do e i rid w"
  shows "sess i w' = (sess i w)\<lparr>ss_state := SESSION_STREAM_OPEN, ss_vita_token := - 1\<rparr>" "w_rx_owner w' = w_rx_owner w" "w_rx_auth w' = w_rx_auth w"
    "vt_sessions (w_vita w') = (vt_sessions (w_vita w))[nat (ss_vita_token (sess i w)) := vita_zero]"
    "s_stream_count (w_rtl w') = s_stream_count (w_rtl w) - 1" "s_running (w_rtl w') \<longleftrightarrow> 1 < s_stream_count (w_rtl w)"
    "w_out w' = w_out w @ [(i, ok_json rid (streaming_result False)),
       (i, event_json ''stream_state'' (stream_event (ss_stream_id (sess i w)) False ''client_request''))]"
proof -
  have i: "i < length (w_sessions w)" "0 < ss_fd (sess i w)" "i < MAX_SESSIONS" using inv live by (simp_all add: live_def cp_invD(1))
  have tok: "0 \<le> ss_vita_token (sess i w)" "ss_vita_token (sess i w) < int MAX_VITA_SESSIONS" and run: "s_running (w_rtl w)"
    using cp_invD(4) [OF inv i(3)] st i(2) by (simp_all add: slot_ok_def)
  note r = reader_stopped [OF cp_invD(3) [OF inv] run, of "e_lib e"]
  note d = w' stop_rx_do_def Let_def send_ok_def send_event_def
  show "sess i w' = (sess i w)\<lparr>ss_state := SESSION_STREAM_OPEN, ss_vita_token := - 1\<rparr>" "w_rx_owner w' = w_rx_owner w" "w_rx_auth w' = w_rx_auth w"
    using st i tok by (simp_all add: d sess_upd drop_vita_sess)
  show "vt_sessions (w_vita w') = (vt_sessions (w_vita w))[nat (ss_vita_token (sess i w)) := vita_zero]"
    using st tok by (simp add: d drop_vita_def vita_session_remove_def)
  show "s_stream_count (w_rtl w') = s_stream_count (w_rtl w) - 1" "s_running (w_rtl w') \<longleftrightarrow> 1 < s_stream_count (w_rtl w)"
    using st r by (simp_all add: d stop_reader_def on_rtl_def)
  show "w_out w' = w_out w @ [(i, ok_json rid (streaming_result False)),
       (i, event_json ''stream_state'' (stream_event (ss_stream_id (sess i w)) False ''client_request''))]"
    using st i tok by (simp add: d sess_upd drop_vita_sess send_framed_def)
qed

text \<open>What the other clients hear when the channel becomes free.\<close>

definition released_frame :: string where
  \<open>released_frame = event_json ''control_revoked'' ''{"function":"rx","control_state":"free"}''\<close>

definition closed_result :: string where
  \<open>closed_result = ''{"closed":true}''\<close>

lemma close_stream_frees:
  assumes inv: "cp_inv w" and live: "live i w" and st: "ss_state (sess i w) = SESSION_STREAM_OPEN" and tok: "ss_vita_token (sess i w) = - 1"
    and w': "w' = close_stream_do e i rid w"
  shows "ss_state (sess i w') = SESSION_IDLE" "\<not> ss_stream_open (sess i w')" "w_rx_owner w' = None" "w_rtl w' = w_rtl w" "w_vita w' = w_vita w"
    "w_out w' = w_out w @ map (\<lambda>k. (k, released_frame)) (audience (Some i) w) @ [(i, ok_json rid closed_result)]"
proof -
  have i: "i < length (w_sessions w)" "0 < ss_fd (sess i w)" "i < MAX_SESSIONS" using inv live by (simp_all add: live_def cp_invD(1))
  have own: "w_rx_owner w = Some i" using cp_invD(4) [OF inv i(3)] st by (auto simp: slot_ok_def)
  note d = w' close_stream_do_def drop_vita_def Let_def send_ok_def cp_rx_release_def
  show "ss_state (sess i w') = SESSION_IDLE" "\<not> ss_stream_open (sess i w')" "w_rx_owner w' = None" "w_rtl w' = w_rtl w" "w_vita w' = w_vita w"
    using st tok own i by (simp_all add: d sess_upd)
  have a: "audience (Some i) (w1\<lparr>w_rx_owner := ow\<rparr>) = audience (Some i) w1" for w1 :: "'a world" and ow by (simp add: audience_def)
  have b: "audience (Some i) (upd i f w1) = audience (Some i) w1" for f and w1 :: "'a world"
    unfolding audience_def by (rule filter_cong) (auto simp: hears_def)
  show "w_out w' = w_out w @ map (\<lambda>k. (k, released_frame)) (audience (Some i) w) @ [(i, ok_json rid closed_result)]"
    using st tok own i by (simp add: d broadcast_eq a b released_frame_def closed_result_def) (simp add: send_framed_def sess_upd)
qed

text \<open>
  C9: A stream ends as its client asks: \<open>stop_rx\<close> for the stream of a streaming session empties its slot of the sender and no other, takes one
  stream off the reader, which keeps running only for others still counted, answers and reports the end, and keeps the channel;
  \<open>close_stream\<close> after it gives the channel back, tells every other greeted client so and answers, with the hardware and the sender
  as they were.
\<close>

theorem stream_stops_and_closes:
  assumes "cp_inv w" and "live i w" and "admitted i w" and "ss_state (sess i w) = SESSION_STREAMING"
    and "ss_stream_id (sess i w) = sid" and "CHR 0x00 \<notin> set sid" and "length sid < 32"
    and "has_params ws kvs rid ''stop_rx'' ps" and "map_of ps ''stream_id'' = Some (JStr sid)"
  shows "\<exists>w1. handle_message e1 i (jtext ws (JObj kvs)) w = Some w1 \<and> ss_state (sess i w1) = SESSION_STREAM_OPEN \<and> w_rx_owner w1 = Some i
    \<and> vt_sessions (w_vita w1) = (vt_sessions (w_vita w))[nat (ss_vita_token (sess i w)) := vita_zero]
    \<and> s_stream_count (w_rtl w1) = s_stream_count (w_rtl w) - 1 \<and> (s_running (w_rtl w1) \<longleftrightarrow> 1 < s_stream_count (w_rtl w))
    \<and> w_out w1 = w_out w @ [(i, ok_json rid (streaming_result False)), (i, event_json ''stream_state'' (stream_event sid False ''client_request''))]
    \<and> (\<forall>ws2 kvs2 rid2 qs. has_params ws2 kvs2 rid2 ''close_stream'' qs \<and> map_of qs ''stream_id'' = Some (JStr sid) \<longrightarrow>
         (\<exists>w2. handle_message e2 i (jtext ws2 (JObj kvs2)) w1 = Some w2 \<and> ss_state (sess i w2) = SESSION_IDLE \<and> \<not> ss_stream_open (sess i w2)
            \<and> w_rx_owner w2 = None \<and> w_rtl w2 = w_rtl w1 \<and> w_vita w2 = w_vita w1
            \<and> w_out w2 = w_out w1 @ map (\<lambda>k. (k, released_frame)) (audience (Some i) w1) @ [(i, ok_json rid2 closed_result)]))"
proof -
  define w1 where "w1 = stop_rx_do e1 i rid w"
  have i: "i < MAX_SESSIONS" "0 < ss_fd (sess i w)" using assms(2) by (simp_all add: live_def)
  have op: "ss_stream_open (sess i w)" and own: "w_rx_owner w = Some i" using cp_invD(4) [OF assms(1) i(1)] assms(4) by (auto simp: slot_ok_def)
  have h1: "handle_message e1 i (jtext ws (JObj kvs)) w = Some w1"
    unfolding w1_def by (rule stream_requests(2) [OF assms(3,9,6,7) op assms(5,8)])
  note st = stop_rx_stops [OF assms(1,2,4) w1_def]
  have w1: "cp_inv w1" "live i w1" "admitted i w1"
    using stop_rx_inv [OF assms(1,2) op, of e1 rid] st(1) assms(2,3) by (simp_all add: w1_def [symmetric] live_def admitted_def st(3))
  have s1: "ss_state (sess i w1) = SESSION_STREAM_OPEN" "ss_vita_token (sess i w1) = - 1" "ss_stream_open (sess i w1)" "ss_stream_id (sess i w1) = sid"
    using op assms(5) by (simp_all add: st(1))
  note cl = stream_requests(3) [OF w1(3) _ assms(6,7) s1(3,4)] and fr = close_stream_frees [OF w1(1,2) s1(1,2) refl]
  show ?thesis using h1 s1(1) st(2,4-7) own assms(5) cl fr by (metis (no_types, lifting))
qed

text \<open>A session of the fake dongle that streams, in a daemon with a second client.\<close>

definition demo_streaming :: "stub world" where
  "demo_streaming = start_rx_do demo_env 0 ''3'' demo_opened"

lemma demo_opened_stream:
  "live 0 demo_opened" "ss_state (sess 0 demo_opened) = SESSION_STREAM_OPEN" "CHR 0x00 \<notin> set (ss_stream_id (sess 0 demo_opened))"
  "length (ss_stream_id (sess 0 demo_opened)) < 32" "json_safe (ss_stream_id (sess 0 demo_opened))" "\<not> w_rx_auth demo_opened"
  "w_vita demo_opened = w_vita demo_greeted" "ss_iq_fmt (sess 0 demo_opened) = IQ_FMT_U8"
  "ss_dest_ip (sess 0 demo_opened) = 0x7F000001" "ss_dest_port (sess 0 demo_opened) = 5000"
proof -
  have l: "0 < length (w_sessions (claimed 0 demo_greeted))" using cp_invD(1) [OF demo_greeted_sess(7)] by (simp add: claimed_frame MAX_SESSIONS_def)
  note o = opened_state [OF l, of demo_env "''2''" "''127.0.0.1''" "0x7F000001" 5000, folded demo_opened_def] and c = claimed_frame [of 0 demo_greeted]
  show "ss_state (sess 0 demo_opened) = SESSION_STREAM_OPEN" "CHR 0x00 \<notin> set (ss_stream_id (sess 0 demo_opened))"
    "length (ss_stream_id (sess 0 demo_opened)) < 32" "\<not> w_rx_auth demo_opened" "w_vita demo_opened = w_vita demo_greeted" "ss_iq_fmt (sess 0 demo_opened) = IQ_FMT_U8"
    "ss_dest_ip (sess 0 demo_opened) = 0x7F000001" "ss_dest_port (sess 0 demo_opened) = 5000"
    using demo_greeted_sess(6) by (simp_all add: o c)
  show "json_safe (ss_stream_id (sess 0 demo_opened))" unfolding demo_opened_def by (rule opened_name [OF l])
  show "live 0 demo_opened" using handle_message_live [OF demo_greeted_sess(1) demo_opened_message] .
qed

lemma demo_streams: "streams_to 0 0x7F000001 5000 (g_rate_sps (w_rtl demo_opened)) demo_streaming"
proof -
  note o = demo_opened_stream
  have "streams_to 0 (ss_dest_ip (sess 0 demo_opened)) (ss_dest_port (sess 0 demo_opened)) (g_rate_sps (w_rtl demo_opened)) demo_streaming"
    unfolding demo_streaming_def
    by (rule stream_runs(1) [OF demo_opened_sess(1) o(1,2)]) (use demo_free_slot o(7,8) in \<open>simp_all add: demo_env_def\<close>)
  then show ?thesis by (simp add: o(9,10))
qed

lemma demo_streaming_sess:
  "cp_inv demo_streaming" "live 0 demo_streaming" "admitted 0 demo_streaming" "ss_state (sess 0 demo_streaming) = SESSION_STREAMING"
  "ss_stream_id (sess 0 demo_streaming) = ss_stream_id (sess 0 demo_opened)"
proof -
  note o = demo_opened_stream
  show inv: "cp_inv demo_streaming" unfolding demo_streaming_def by (rule start_rx_inv [OF demo_opened_sess(1) o(1) demo_opened_sess(3)])
  have sd: "steady demo_opened demo_streaming" unfolding demo_streaming_def by (rule settings_steady(10))
  then show "live 0 demo_streaming" using o(1) by (simp add: live_def steady_def)
  show st: "ss_state (sess 0 demo_streaming) = SESSION_STREAMING" using demo_streams by (simp add: streams_to_def)
  show "admitted 0 demo_streaming" using st sd o(6) by (simp add: admitted_def steady_def)
  have "0 < length (w_sessions demo_opened)" using cp_invD(1) [OF demo_opened_sess(1)] by (simp add: MAX_SESSIONS_def)
  then show "ss_stream_id (sess 0 demo_streaming) = ss_stream_id (sess 0 demo_opened)"
    by (simp add: demo_streaming_def start_rx_do_def Let_def case_prod_unfold sess_upd)
qed

theorem stream_stops_and_closes_witness:
  "\<exists>w1 w2. handle_message demo_env 0 (jtext '' '' (JObj (demo_request ''stop_rx'' (demo_start_params demo_opened)))) demo_streaming = Some w1
     \<and> handle_message demo_env 0 (jtext '' '' (JObj (demo_request ''close_stream'' (demo_start_params demo_opened)))) w1 = Some w2
     \<and> ss_state (sess 0 w1) = SESSION_STREAM_OPEN \<and> w_rx_owner w2 = None"
proof -
  note o = demo_opened_stream and s = demo_streaming_sess
  have m: "map_of (demo_start_params demo_opened) ''stream_id'' = Some (JStr (ss_stream_id (sess 0 demo_opened)))" by (simp add: demo_start_params_def)
  have h: "has_params '' '' (demo_request ''stop_rx'' (demo_start_params demo_opened)) ''4'' ''stop_rx'' (demo_start_params demo_opened)"
    "has_params '' '' (demo_request ''close_stream'' (demo_start_params demo_opened)) ''4'' ''close_stream'' (demo_start_params demo_opened)"
    by (rule demo_named [OF o(5)], simp, simp)+
  show ?thesis using stream_stops_and_closes [OF s o(3,4) h(1) m, of demo_env demo_env] h(2) m by blast
qed

section \<open>Samples on their way\<close>

text \<open>The USB callback for a run of buffers, each with the time of its callback.\<close>

definition run_buffers :: "libm \<Rightarrow> (u64 \<times> u8 list) list \<Rightarrow> 'd world \<Rightarrow> 'd world" where
  "run_buffers m bs w = foldl (\<lambda>w (now, buf). rtl_callback m now buf w) w bs"

text \<open>One slot in use: a callback sends what its session sends and touches nothing else of the sender.\<close>

definition only_slot :: "nat \<Rightarrow> vita \<Rightarrow> bool" where
  "only_slot k v \<longleftrightarrow> vt_sock v \<and> k < length (vt_sessions v) \<and> (\<forall>j < length (vt_sessions v). vs_active (vt_sessions v ! j) \<longleftrightarrow> j = k)"

lemma only_slot_sends:
  assumes "only_slot k v" and "whole_buffer buf" and "buf \<noteq> []"
  shows "\<exists>v'. vita_send_callback buf v = (v', snd (callback_entry buf (vt_sessions v ! k)))
    \<and> vt_sessions v' ! k = fst (callback_entry buf (vt_sessions v ! k)) \<and> only_slot k v' \<and> length (vt_sessions v') = length (vt_sessions v)"
proof -
  have k: "vt_sock v" "k < length (vt_sessions v)" "\<And>j. j < length (vt_sessions v) \<Longrightarrow> vs_active (vt_sessions v ! j) \<longleftrightarrow> j = k"
    using assms(1) by (simp_all add: only_slot_def)
  have n: "num_pkts (length buf) \<noteq> 0" using assms(2,3) by (metis length_0_conv mult_0 whole_buffer_def)
  have c: "concat (map (\<lambda>s. snd (callback_entry buf s)) (vt_sessions v)) = snd (callback_entry buf (vt_sessions v ! k))"
    using k(2) by (rule concat_single) (simp add: callback_entry_def k(3))
  let ?v = "v\<lparr>vt_sessions := map (\<lambda>s. fst (callback_entry buf s)) (vt_sessions v)\<rparr>"
  have "vita_send_callback buf v = (?v, snd (callback_entry buf (vt_sessions v ! k)))"
    using n k(1) by (simp add: vita_send_callback_def Let_def comp_def flip: c)
  moreover have "only_slot k ?v" using k by (simp add: only_slot_def)
  ultimately show ?thesis using k(2) by (intro exI [of _ ?v]) simp
qed

lemma callback_world:
  assumes "s_running (w_rtl w)" and "vita_send_callback buf (w_vita w) = (v, ds)"
  shows "w_vita (rtl_callback m now buf w) = v" "w_udp (rtl_callback m now buf w) = w_udp w @ ds" "s_running (w_rtl (rtl_callback m now buf w))"
    "sess j (rtl_callback m now buf w) = sess j w" "w_rx_owner (rtl_callback m now buf w) = w_rx_owner w"
proof -
  let ?g = "(w_rtl w)\<lparr>s_cb_count := s_cb_count (w_rtl w) + 1, g_samples_per_pkt := of_nat VITA_SAMPLES_PER_PKT\<rparr>"
  have "s_running (fst (measure_adc_level m now buf ?g))" using settings_same_reader(8) [of ?g m now buf] assms(1) by (simp add: same_reader_def)
  then show "w_vita (rtl_callback m now buf w) = v" "w_udp (rtl_callback m now buf w) = w_udp w @ ds" "s_running (w_rtl (rtl_callback m now buf w))"
    "sess j (rtl_callback m now buf w) = sess j w" "w_rx_owner (rtl_callback m now buf w) = w_rx_owner w"
    using assms by (simp_all add: rtl_callback_def cp_on_adc_overload_def on_vita_def Let_def case_prod_unfold split: option.split)
qed

lemma run_sends:
  assumes "s_running (w_rtl w)" and "only_slot k (w_vita w)" and "\<forall>b \<in> snd ` set bs. whole_buffer b \<and> b \<noteq> []"
  shows "w_udp (run_buffers m bs w) = w_udp w @ stream_packets (map snd bs) (vt_sessions (w_vita w) ! k)
    \<and> s_running (w_rtl (run_buffers m bs w)) \<and> only_slot k (w_vita (run_buffers m bs w))
    \<and> (\<forall>j. sess j (run_buffers m bs w) = sess j w) \<and> w_rx_owner (run_buffers m bs w) = w_rx_owner w
    \<and> (\<exists>n c. vt_sessions (w_vita (run_buffers m bs w)) ! k = (advance n (vt_sessions (w_vita w) ! k))\<lparr>vs_cb_count := c\<rparr>)"
  using assms
proof (induction bs arbitrary: w)
  case Nil
  have "vt_sessions (w_vita w) ! k = (advance 0 (vt_sessions (w_vita w) ! k))\<lparr>vs_cb_count := vs_cb_count (vt_sessions (w_vita w) ! k)\<rparr>"
    by (simp add: advance_0)
  then show ?case using Nil by (auto simp: run_buffers_def)
next
  case (Cons b bs)
  obtain now buf where b: "b = (now, buf)" by (cases b)
  let ?s = "vt_sessions (w_vita w) ! k" and ?w = "rtl_callback m now buf w"
  obtain v where v: "vita_send_callback buf (w_vita w) = (v, snd (callback_entry buf ?s))" "vt_sessions v ! k = fst (callback_entry buf ?s)" "only_slot k v"
    using only_slot_sends [OF Cons.prems(2), of buf] Cons.prems(3) by (auto simp: b)
  note c = callback_world [OF Cons.prems(1) v(1), where m = m and now = now]
  have act: "vs_active ?s" using Cons.prems(2) by (simp add: only_slot_def)
  have r: "run_buffers m (b # bs) w = run_buffers m bs ?w" by (simp add: run_buffers_def b)
  have "\<exists>n' c'. (advance n ((advance i ?s)\<lparr>vs_cb_count := j\<rparr>))\<lparr>vs_cb_count := c\<rparr> = (advance n' ?s)\<lparr>vs_cb_count := c'\<rparr>" for n i j c
    by (auto simp: advance_cb advance_advance)
  moreover have "v = w_vita ?w" by (simp add: c)
  ultimately show ?case
    unfolding r using Cons.IH [of ?w] Cons.prems(3) c v(2,3) act by (auto simp: b callback_entry_session)
qed

text \<open>The first stream of a daemon uses one slot.\<close>

lemma only_slot_starts:
  assumes inv: "cp_inv w" and live: "live i w" and state: "ss_state (sess i w) = SESSION_STREAM_OPEN" and ok: "e_thread_ok e"
    and free: "\<forall>s \<in> set (vt_sessions (w_vita w)). \<not> vs_active s" and sock: "vt_sock (w_vita w)"
  shows "only_slot (nat (ss_vita_token (sess i (start_rx_do e i rid w)))) (w_vita (start_rx_do e i rid w))"
proof -
  let ?s = "sess i w" and ?g = "w_rtl w"
  let ?add = "vita_session_add (g_gain_tenth_db ?g) (e_time e) (g_rate_sps ?g) (ss_stream_id ?s) (ss_vita_stream_id ?s)
               (ss_dest_ip ?s) (ss_dest_port ?s) (ss_iq_fmt ?s) (sampling_mode_payload_fmt (g_sampling_mode ?g)) (w_vita w)"
  have i: "i < length (w_sessions w)" using live by (simp add: live_def cp_invD(1) [OF inv])
  obtain tok v ds where a: "?add = (tok, v, ds)" by (cases ?add)
  have "vt_sessions (w_vita w) \<noteq> []" using cp_invD(2) [OF inv] by (auto simp: MAX_VITA_SESSIONS_def)
  then have "\<exists>s \<in> set (vt_sessions (w_vita w)). \<not> vs_active s" using free hd_in_set by blast
  then have "0 \<le> tok" using slot_added [OF a] by (metis of_nat_0_le_iff)
  from vita_session_add_ok [OF a this] obtain k where k: "tok = int k" "k < length (vt_sessions (w_vita w))" "vs_active (vt_sessions v ! k)"
    "length (vt_sessions v) = length (vt_sessions (w_vita w))" "\<And>j. j \<noteq> k \<Longrightarrow> vt_sessions v ! j = vt_sessions (w_vita w) ! j" "vt_sock v"
    using sock by metis
  obtain g where r: "rtl_bridge_start (e_lib e) True ?g = (0, g)"
    using cp_invD(3) [OF inv] by (auto simp: rtl_bridge_start_def reader_inv_def Let_def)
  have "w_vita (start_rx_do e i rid w) = v" "ss_vita_token (sess i (start_rx_do e i rid w)) = int k"
    using i ok state k(1) by (simp_all add: start_rx_do_def a Let_def r send_ok_def sess_upd)
  moreover have "only_slot k v" using k free unfolding only_slot_def by (metis nth_mem)
  ultimately show ?thesis by simp
qed

lemma stream_sends_to:
  assumes "vs_active s" and "d \<in> set (stream_packets bufs s)"
  shows "fst d = vs_dest_ip s \<and> fst (snd d) = vs_dest_port s"
  using assms
proof (induction bufs arbitrary: s)
  case (Cons b bufs)
  have p: "fst d = vs_dest_ip s \<and> fst (snd d) = vs_dest_port s" if "d \<in> set (snd (callback_entry b s))"
    using that unfolding callback_entry_packets [OF Cons.prems(1)] by (auto simp: data_packet_def send_chunk_def advance_def)
  show ?case
    using Cons.IH [of "fst (callback_entry b s)"] Cons.prems p by (auto simp: callback_entry_session advance_def)
qed simp

text \<open>
  C8: What the antenna delivers reaches the client: while a session streams over the one slot in use and the socket is open, any run of USB
  buffers of whole packets leaves as datagrams to the address and the port the client asked for, and to no other; put together,
  their payloads are the buffers byte for byte and in order, their packet counts go up by one modulo 16, and the session still
  streams afterwards.
\<close>

theorem samples_reach_client:
  assumes "streams_to i a p rate w" and "only_slot (nat (ss_vita_token (sess i w))) (w_vita w)" and "\<forall>b \<in> snd ` set bs. whole_buffer b \<and> b \<noteq> []"
  shows "\<exists>ds. w_udp (run_buffers m bs w) = w_udp w @ ds \<and> (\<forall>d \<in> set ds. fst d = a \<and> fst (snd d) = p)
    \<and> concat (map payload_of ds) = concat (map snd bs)
    \<and> (\<exists>c. \<forall>j < length ds. packet_count (ds ! j) = (c + of_nat j) AND 0xF)
    \<and> streams_to i a p rate (run_buffers m bs w)"
proof -
  let ?w = "run_buffers m bs w"
  obtain k where k: "k < MAX_VITA_SESSIONS" "ss_vita_token (sess i w) = int k" "vs_active (vt_sessions (w_vita w) ! k)"
    "vs_dest_ip (vt_sessions (w_vita w) ! k) = a" "vs_dest_port (vt_sessions (w_vita w) ! k) = p"
    "vs_rate_hz_anchor (vt_sessions (w_vita w) ! k) = ucast rate" "vs_fmt (vt_sessions (w_vita w) ! k) = IQ_FMT_U8"
    and st: "ss_state (sess i w) = SESSION_STREAMING" "s_running (w_rtl w)" "w_rx_owner w = Some i"
    using assms(1) by (auto simp: streams_to_def Let_def)
  let ?s = "vt_sessions (w_vita w) ! k"
  have r: "w_udp ?w = w_udp w @ stream_packets (map snd bs) ?s" "s_running (w_rtl ?w)" "\<And>j. sess j ?w = sess j w" "w_rx_owner ?w = w_rx_owner w"
    "\<exists>n c. vt_sessions (w_vita ?w) ! k = (advance n ?s)\<lparr>vs_cb_count := c\<rparr>"
    using run_sends [OF st(2), of k bs m] assms(2,3) k(2) by simp_all
  have whole: "\<forall>b \<in> set (map snd bs). whole_buffer b" using assms(3) by simp
  have "streams_to i a p rate ?w" using k st r(2-5) by (auto simp: streams_to_def Let_def advance_def)
  moreover have "packet_count (stream_packets (map snd bs) ?s ! j) = (vs_if_pkt_count ?s + of_nat j) AND 0xF"
    if "j < length (stream_packets (map snd bs) ?s)" for j
    using that stream_packets_chunks [OF k(3) whole] by (auto simp: Let_def packet_count_advance)
  ultimately show ?thesis
    using r(1) stream_payload [OF k(3,7) whole] stream_sends_to [OF k(3)] k(4,5) by (intro exI [of _ "stream_packets (map snd bs) ?s"]) blast
qed

lemma start_sock: "main_start e o' dev = Some (Inr dm) \<Longrightarrow> vt_sock (w_vita (dm_world dm)) \<longleftrightarrow> me_udp_ok e"
  by (auto simp: main_start_def main_serve_def fresh_world_def vita_tx_init_def vita_set_context_packets_def vita_globals_def Let_def
      split: if_splits option.splits prod.splits bind_splits)

lemma demo_only_slot: "only_slot (nat (ss_vita_token (sess 0 demo_streaming))) (w_vita demo_streaming)"
proof -
  have v: "w_vita demo_opened = w_vita (dm_world (demo_daemon False))" by (simp add: demo_opened_stream(7) demo_greeted_vita)
  have "vt_sessions (w_vita demo_opened) = replicate MAX_VITA_SESSIONS vita_zero" "vt_sock (w_vita demo_opened)"
    using start_vita [OF demo_starts [of False]] start_sock [OF demo_starts [of False]] by (simp_all add: v demo_main_def)
  then show ?thesis
    unfolding demo_streaming_def
    by (intro only_slot_starts [OF demo_opened_sess(1) demo_opened_stream(1,2)]) (auto simp: demo_env_def vita_zero_def)
qed

theorem samples_reach_client_witness:
  "\<exists>ds. w_udp (run_buffers demo_lib_math [(0, replicate 512 7), (10, replicate 1024 8)] demo_streaming) = w_udp demo_streaming @ ds
     \<and> (\<forall>d \<in> set ds. fst d = 0x7F000001 \<and> fst (snd d) = 5000) \<and> concat (map payload_of ds) = replicate 512 7 @ replicate 1024 8"
proof -
  let ?bs = "[(0, replicate 512 7), (10, replicate 1024 8)] :: (u64 \<times> u8 list) list"
  have "\<forall>b \<in> snd ` set ?bs. whole_buffer b \<and> b \<noteq> []"
    by (simp add: whole_buffer_def num_pkts_def bytes_per_pkt_def VITA_SAMPLES_PER_PKT_def VITA_MMSG_MAX_PKTS_def)
  from samples_reach_client [OF demo_streams demo_only_slot this, of demo_lib_math] show ?thesis by auto
qed

end
