(* ===== verification/Spec2Isabelle.thy ===== *)
theory Spec2Isabelle
  imports Deviations Console Cp_Threads Stream_Control
begin

text \<open>
  \<^bold>\<open>sdr-slc-rtld, verified.\<close> The daemon of this repository serves one RTL-SDR dongle to clients of the SDR-SLC protocol: JSON requests
  in length-prefixed frames over TCP configure the receiver and open a stream, VITA-49 packets over UDP carry the samples, and
  a multicast DNS responder announces the service. This library models the C sources as Isabelle functions and proves what
  makes each part, and their composition, correct.

  \<^bold>\<open>Parts and theories.\<close>
  \<^item> \<open>Prelude\<close>: words, byte order, tables of slots, chunks; the collection \<open>frame\<close>. \<open>C_Lib\<close> and \<open>C_Double\<close>: what the sources use of the C
    library on text (\<open>snprintf\<close>, \<open>strtoull\<close>, \<open>strtol\<close>, \<open>inet_pton\<close>) and of IEEE doubles (\<open>strtod\<close>, \<open>%.1f\<close>; rounding written out over
    rationals with infinities and NaN). \<open>Config\<close>: the constants of \<open>config.h\<close>.
  \<^item> \<open>Jsmn\<close>: the tokeniser \<open>json/jsmn.h\<close> and the token helpers of \<open>json/json_builder.h\<close>. A position in the token array the parser did
    not fill is the value \<open>None\<close>, so a handler that would read one returns \<open>None\<close>.
  \<^item> \<open>Jsmn_Roundtrip\<close>: JSON values and their texts; the tokeniser reads the text of any value back as its tokens, and the lookup by key
    on those tokens is the lookup in the object.
  \<^item> \<open>Json_Builder\<close>: the writer \<open>json/json_builder.c\<close>; it produces the text of any value, within its buffer.
  \<^item> \<open>Auth_Hash\<close>, \<open>Auth\<close>: SHA-256, HMAC, the key file, nonces, \<open>auth_verify\<close> and \<open>keygen\<close> of \<open>common/auth.c\<close>, against a reference
    digest and RFC 2104. The locale \<open>incremental_hash\<close> is the contract of a digest fed in pieces, interpreted by the code's own.
  \<^item> \<open>Rtl_Bridge\<close>: the driver layer \<open>rtl/rtl_bridge.c\<close>. The locale \<open>tuner\<close> states what is used of librtlsdr and is interpreted on the fake
    library of \<open>test/rtlsdr_stub.c\<close>.
  \<^item> \<open>Vita_Tx\<close>: the packet builders, the session table and the USB callback of \<open>vita/vita_tx.c\<close>.
  \<^item> \<open>Cp_State\<close>, \<open>Cp_Commands\<close>, \<open>Cp_Session\<close>: the control plane of \<open>cp/cp_session.c\<close> and \<open>cp/cp_commands.c\<close>: the record \<open>world\<close> holds the
    session table, the holder of the channel, the driver and the sender, and everything written to clients and to the network;
    one definition per handler, \<open>handle_message\<close> for the body of the receive loop, \<open>cp_session_thread\<close> for the loop over a byte stream.
  \<^item> \<open>Cp_Invariant\<close>, \<open>Cp_Safety\<close>, \<open>Cp_Replies\<close>, \<open>Cp_Connection\<close>: the invariant of the control plane, the isolation of sessions from each
    other, the reply discipline, and connections from their first byte to the freed slot. \<open>Cp_Wellformed\<close>: every handler returns on the tokens of a
    well-formed message. \<open>Cp_Requests\<close>: what a request does, stated on the JSON the client writes, and the error reply it reads back.
    \<open>Cp_Typing\<close>: every text fits its C array and every frame the framing, kept by every operation.
  \<^item> \<open>Mdns_Builtin\<close>, \<open>Mdns_Readback\<close>: the responder \<open>common/mdns_builtin.c\<close>, its packets read back with its own name reader.
    \<open>Mdns_Avahi\<close>: the backend \<open>common/mdns_avahi.c\<close>, its callbacks as events. \<open>Mdns\<close>: the dispatcher \<open>common/mdns.c\<close>; the locale
    \<open>publisher\<close> is the contract of a backend, interpreted on both and on the dispatcher.
  \<^item> \<open>Logging\<close>: \<open>common/log.c\<close>. \<open>Cp_Server\<close>: the listening socket and the accept loop of \<open>cp/cp_server.c\<close>. \<open>Command_Line\<close>: the options of
    \<open>main.c\<close> with \<open>getopt_long\<close>. \<open>Rtl_Stub\<close>: the noise source of \<open>test/rtlsdr_stub.c\<close> as the reader thread runs it.
  \<^item> \<open>Daemon\<close>: \<open>main\<close> of \<open>main.c\<close>, start-up and shutdown; the relation \<open>step\<close> interleaves connections, messages, disconnections and
    USB buffers. The locales \<open>invariant_system\<close> and \<open>exclusive_system\<close> are interpreted on it. \<open>Console\<close>: the usage text and the
    messages of the start-up. \<open>Client_Script\<close>: concrete runs. \<open>Serving\<close>: types of the running daemon, tuning, a stream from its
    request on, limits on guessing a key. \<open>Stream_Control\<close>: setting a published gain through \<open>strtod\<close> and \<open>%.1f\<close>, the end of a stream,
    and the way of the samples from the USB buffers to the client. \<open>Deviations\<close>: where the code departs from its intent, derived on
    concrete inputs.
  \<^item> \<open>Cp_Threads\<close>: the receive loops of all session threads, one \<open>recv\<close> at a time into the static buffer they share, as the relation
    \<open>thread_step\<close>. The locale \<open>stuttering_refinement\<close> (a receipt is no step of the daemon, a served buffer is one or two) is interpreted
    on it, so what holds of every reachable state of \<open>step\<close> holds while frames arrive in interleaved pieces.

  \<^bold>\<open>Shared state and atomicity.\<close> A step of the daemon is one whole message, connection, disconnection or buffer (in \<open>Cp_Threads\<close> also one
  receipt of a few bytes): the mutexes of the code make the claim of the channel, a broadcast, a sender operation and a reader start or stop atomic, and the model makes the
  rest of a handler atomic with them. What librtlsdr, the clocks, \<open>getrandom\<close>, \<open>pthread_create\<close>, the file system and the
  network interfaces answer is an argument (\<open>librtlsdr\<close>, \<open>libm\<close>, \<open>libavahi\<close>, \<open>env\<close>, \<open>main_env\<close>, \<open>listen_env\<close>, \<open>mdns_env\<close>,
  \<open>keygen_env\<close>), universally quantified in the properties; the concrete instances in witnesses use the fake librtlsdr.

  \<^bold>\<open>Fuel and termination.\<close> Every loop is a terminating function: the tokeniser, the session thread and \<open>getopt_long\<close> by the input
  that remains, the SHA-256 padding by the distance to the block end, the DNS name reader by its own guard of 64, the noise source by the
  callbacks it is given. No fuel is used.

  \<^bold>\<open>Not modelled.\<close> The signal handler and the loop that waits for it (the point between start-up and shutdown), what \<open>getopt_long\<close> prints
  about a bad option, the log messages of the other modules, partial sends, and the interleaving of two session threads inside the
  parsing and serving of one message. Receipts do interleave, in \<open>Cp_Threads\<close>: there the message a thread serves is what the shared
  buffer holds when it parses, a message is served intact as long as no other thread fills the buffer meanwhile, and \<open>Deviations\<close>
  derives what happens otherwise. What \<open>fscanf\<close> and \<open>fgets\<close> deliver from sysfs are inputs. A tuner is assumed to apply the gains it lists
  (the locale \<open>tuner\<close>) where a property says so. The macros of the logging calls, the include guards and the prototypes of the headers
  carry no behaviour.
\<close>

section \<open>Invariants of the running daemon\<close>

text \<open>
  C1: In every state a started daemon can reach, by any interleaving of connections, messages, disconnections and USB
  buffers, the invariant holds: the tables keep their sizes, the reader runs exactly while streams count on it, the holder of
  the channel is exactly the session with the open stream, a streaming session has a live VITA slot and a running reader,
  and a free slot is wiped.
\<close>

theorem daemon_invariant:
  assumes "main_start e o' dev = Some (Inr dm)" and "step\<^sup>*\<^sup>* (dm_world dm) w"
  shows "cp_inv w"
  using start_initial(1) [OF assms(1)] assms(2) by (rule daemon.reachable_inv)

theorem daemon_invariant_witness: "cp_inv (demo_connected False)"
  by (rule daemon_invariant [OF demo_starts r_into_rtranclp [of step, OF demo_connect_step]])

text \<open>
  C2: The rx channel is exclusive: in no reachable state do two sessions have a stream open, and with authentication on, the
  session that has one authenticated.
\<close>

theorem one_stream_at_a_time:
  assumes "main_start e o' dev = Some (Inr dm)" and "step\<^sup>*\<^sup>* (dm_world dm) w"
    and "i < MAX_SESSIONS" and "ss_stream_open (sess i w)"
  shows "(\<forall>j < MAX_SESSIONS. ss_stream_open (sess j w) \<longrightarrow> j = i) \<and> w_rx_owner w = Some i
    \<and> (mo_rx_auth o' \<longrightarrow> ss_rx_unlocked (sess i w))"
proof -
  note init = start_initial [OF assms(1)] and inv = daemon.reachable_inv [OF start_initial(1) [OF assms(1)] assms(2)]
  have "w_rx_auth w = mo_rx_auth o'" using run_config [OF assms(2)] init(2) by simp
  moreover have "slot_ok w i (sess i w)" by (rule cp_invD(4) [OF inv assms(3)])
  moreover have "j = i" if "j < MAX_SESSIONS" "ss_stream_open (sess j w)" for j
    by (rule daemon.one_user [OF init(1) assms(2)]) (simp_all add: streams_def that assms)
  ultimately show ?thesis using assms(4) by (auto simp: slot_ok_def)
qed

theorem one_stream_at_a_time_witness:
  "w_rx_owner demo_opened = Some 0 \<and> \<not> ss_stream_open (sess (Suc 0) demo_opened)"
proof -
  note only = one_stream_at_a_time [OF demo_starts demo_run _ demo_opened_sess(3)]
  have "0 < MAX_SESSIONS" "Suc 0 < MAX_SESSIONS" by (simp_all add: MAX_SESSIONS_def)
  with only show ?thesis by blast
qed

text \<open>
  C4: A message from a session that does not hold the channel while another does changes nothing the holder depends on: the
  hardware, the sender and its datagrams, the channel and every other session are as before.
\<close>

theorem holder_undisturbed:
  assumes "cp_inv w" and "live i w" and "w_rx_owner w = Some j" and "j \<noteq> i" and "handle_message e i js w = Some w'"
  shows "w_rtl w' = w_rtl w \<and> w_vita w' = w_vita w \<and> w_udp w' = w_udp w \<and> w_rx_owner w' = Some j
    \<and> (\<forall>k. k \<noteq> i \<longrightarrow> sess k w' = sess k w)"
proof -
  have "pred_option (modest i w) (handle_message e i js w)"
    using owned_serve_modest [OF assms(1-4)] by (intro handle_message_serve) simp_all
  then show ?thesis using assms(3,5) by (simp add: modest_def untouched_def)
qed

theorem holder_undisturbed_witness:
  "\<exists>w'. handle_message demo_env (Suc 0) demo_hello demo_opened = Some w' \<and> w_rx_owner w' = Some 0 \<and> w_udp w' = w_udp demo_opened"
  using holder_undisturbed [OF demo_opened_sess(1,2,4) _ demo_hello_does] demo_hello_does [of demo_env "Suc 0" demo_opened] by auto


definition demo_tune :: string where
  \<open>demo_tune = ''{"type":"request","id":"7","command":"set_frequency","params":{"function":"rx","frequency_hz":7100000}}''\<close>

lemma demo_tune_request: "\<exists>t. request_of demo_tune = Some (''7'', ''set_frequency'', t)"
proof -
  have "map_option (\<lambda>(rid, cmd, t). (rid, cmd)) (request_of demo_tune) = Some (''7'', ''set_frequency'')" by code_simp
  then show ?thesis by (auto simp: map_option_case split: option.splits)
qed

lemma demo_tune_served: "\<exists>w'. handle_message demo_env 0 demo_tune (demo_connected auth) = Some w'"
proof -
  obtain t where "request_of demo_tune = Some (''7'', ''set_frequency'', t)" using demo_tune_request by blast
  from handle_message_request [OF this, of demo_env 0 "demo_connected auth"] show ?thesis
    using demo_connected_sess(2) [of auth] by (simp add: serve_def)
qed


section \<open>Requests and replies\<close>

text \<open>
  C13: Every request gets exactly one response: whatever the command and whichever of its guards or errors decides it, serving it
  adds one reply to everything the daemon writes, addressed to the session that asked and carrying the request's id.
\<close>

theorem request_answered_once:
  assumes "live i w" and "request_of js = Some (rid, cmd, t)" and "handle_message e i js w = Some w'"
  shows "answers i rid w w'"
proof -
  have "pred_option (answers i rid w) (handle_message e i js w)"
    using serve_answers [of i w rid e cmd js t] handle_message_request [OF assms(2), of e i w] assms(1) by (simp add: live_def)
  then show ?thesis using assms(3) by simp
qed

theorem request_answered_once_witness:
  "\<exists>w'. handle_message demo_env 0 demo_tune (demo_connected False) = Some w' \<and> answers 0 ''7'' (demo_connected False) w'"
proof -
  obtain w' t where "handle_message demo_env 0 demo_tune (demo_connected False) = Some w'"
    "request_of demo_tune = Some (''7'', ''set_frequency'', t)" using demo_tune_served demo_tune_request by blast
  with request_answered_once [OF demo_connected_sess(1) this(2) this(1)] show ?thesis by blast
qed



text \<open>
  C14: Every well-formed request is answered: for a JSON object of at most 256 tokens that carries type, id and command and whose
  \<open>params\<close> is not a non-empty array, no lookup of any handler leaves the parsed tokens, the message is served, and exactly one
  reply, with the client's id, goes to its session.
\<close>

theorem good_request_answered:
  assumes "good_message ws kvs" and "is_request rid cmd kvs" and "live i w" and "tame_lib (e_lib e)" and "tame_table w"
  shows "\<exists>w'. handle_message e i (jtext ws (JObj kvs)) w = Some w' \<and> answers i rid w w'"
proof -
  have "returns (handle_message e i (jtext ws (JObj kvs)) w)"
    by (rule good_message_returns [OF assms(1) tame_load [OF assms(4,5)]])
  moreover have "pred_option (answers i rid w) (handle_message e i (jtext ws (JObj kvs)) w)"
    using serve_answers [of i w rid e cmd] handle_message_request [OF good_request [OF assms(1,2)], of e i w] assms(3)
    by (simp add: live_def del: jtext.simps)
  ultimately show ?thesis by (auto simp: returns_def simp del: jtext.simps)
qed

definition demo_ping :: "(string \<times> json) list" where
  "demo_ping = [(''type'', JStr ''request''), (''id'', JStr ''9''), (''command'', JStr ''ping''), (''params'', JObj [])]"

lemma demo_ping_good: "good_message '' '' demo_ping" "is_request ''9'' ''ping'' demo_ping"
  by (simp_all add: demo_ping_def good_message_def is_request_def json_space_def member_toks_def MAX_JSON_TOKENS_def)

lemma demo_tame: "tame_lib (e_lib demo_env)" "tame_table (demo_connected False)"
proof -
  show "tame_lib (e_lib demo_env)" by (simp add: tame_lib_def demo_env_def stub_lib_def stub_gains_def)
  have "w_gains (demo_connected False) = None"
    using start_fresh [OF demo_starts [of False]] demo_initial(1) [of False]
    by (simp add: demo_connected_def accept_connection_def session_create_def demo_env_def initial_def MAX_SESSIONS_def
        numeral_eq_Suc session_zero_def)
  then show "tame_table (demo_connected False)" by (simp add: tame_table_def gain_table_def)
qed

theorem good_request_answered_witness:
  "\<exists>w'. handle_message demo_env 0 (jtext '' '' (JObj demo_ping)) (demo_connected False) = Some w' \<and> answers 0 ''9'' (demo_connected False) w'"
  by (rule good_request_answered [OF demo_ping_good demo_connected_sess(1) demo_tame])

section \<open>Connections\<close>

text \<open>
  C18: The thread of a session over the byte stream of a client that sends framed messages and closes is the service of those
  messages in order, ending with \<open>session_destroy\<close>, earlier if an authentication refusal closes the connection.
\<close>

theorem thread_serves_frames:
  assumes "\<forall>m \<in> set ms. m \<noteq> [] \<and> length m \<le> MAX_MSG_BYTES"
  shows "cp_session_thread env k i (concat (map frame_bytes ms)) w = serve_all env k i ms w"
  using assms by (rule cp_session_thread_frames)

theorem thread_serves_frames_witness:
  "cp_session_thread (\<lambda>_. demo_env) 0 0 (frame_bytes demo_tune) (demo_connected False)
     = serve_all (\<lambda>_. demo_env) 0 0 [demo_tune] (demo_connected False)"
  using thread_serves_frames [of "[demo_tune]" "\<lambda>_. demo_env" 0 0 "demo_connected False"]
  by (simp add: demo_tune_def MAX_MSG_BYTES_def)

text \<open>
  C15: A client that sends well-formed messages and disconnects is served to the end: the thread returns, whatever the messages
  ask for and whatever the system answers, with the slot wiped, the channel not held by it and the invariant intact.
\<close>

theorem good_connection_ends:
  assumes "cp_inv w" and "live i w" and "\<forall>m \<in> set ms. \<exists>ws kvs. m = jtext ws (JObj kvs) \<and> good_message ws kvs"
    and "\<forall>m \<in> set ms. length m \<le> MAX_MSG_BYTES" and "\<forall>k. tame_lib (e_lib (env k))" and "tame_table w"
  shows "\<exists>w'. cp_session_thread env k i (concat (map frame_bytes ms)) w = Some w'
    \<and> cp_inv w' \<and> sess i w' = session_zero \<and> w_rx_owner w' \<noteq> Some i"
proof -
  have "\<forall>m \<in> set ms. m \<noteq> [] \<and> length m \<le> MAX_MSG_BYTES" using assms(3,4) by fastforce
  then have th: "cp_session_thread env k i (concat (map frame_bytes ms)) w = serve_all env k i ms w" by (rule cp_session_thread_frames)
  obtain w' where w': "serve_all env k i ms w = Some w'"
    using serve_all_returns [OF assms(3,5,6), of k i] by (auto simp: returns_def)
  have e: "cp_inv w' \<and> sess i w' = session_zero" by (rule cp_session_thread_ends [OF th [unfolded w'] assms(1,2)])
  moreover have "i < MAX_SESSIONS" using assms(2) by (simp add: live_def)
  ultimately have "w_rx_owner w' \<noteq> Some i" using owner_of_open [of w' i] by (simp add: session_zero_def)
  with e th w' show ?thesis by simp
qed

theorem good_connection_ends_witness:
  "\<exists>w'. cp_session_thread (\<lambda>_. demo_env) 0 0 (frame_bytes (jtext '' '' (JObj demo_ping))) (demo_connected False) = Some w'
    \<and> sess 0 w' = session_zero"
proof -
  have "length (jtext '' '' (JObj demo_ping)) \<le> MAX_MSG_BYTES" by (simp add: demo_ping_def quoted_text_def MAX_MSG_BYTES_def)
  with good_connection_ends [OF demo_connected_inv demo_connected_sess(1), of "[jtext '' '' (JObj demo_ping)]" "\<lambda>_. demo_env" False 0]
  show ?thesis using demo_ping_good(1) demo_tame by (auto simp del: jtext.simps)
qed

end
